(* ===== verification/Prelude.thy ===== *)
theory Prelude
  imports "HOL-Library.Word"
begin

text \<open>
  Types, the fault type, the error monad and the generic word lemmas that every component
  of the interpreter model shares. The fixed-width integers are the typedefs of
  \<open>src/common.h\<close>; the faults are the ways the host process ends other than by returning.
\<close>

unbundle bit_operations_syntax

section \<open>Collections used by the component proofs\<close>

named_theorems impl_simps \<open>definitions of the instruction implementations\<close>

section \<open>Fixed-width integers\<close>

type_synonym u8 = "8 word"
type_synonym u16 = "16 word"
type_synonym u32 = "32 word"
type_synonym u64 = "64 word"

section \<open>How the process can end abnormally\<close>

text \<open>
  \<open>SegFault\<close>: dereference of a page table or page that is \<open>NULL\<close>. \<open>PageOverrun\<close>: an
  access that leaves the 4096 bytes of its page. \<open>OutOfMemory\<close>: an allocation failed and the
  code aborts. The three \<open>Unknown\<close> faults are the \<open>abort()\<close>s of the switch
  interpreter; \<open>NullHandler\<close> and \<open>TableOverrun\<close> are a jump through an empty entry of, and an
  index past the end of, a dispatch table. \<open>HostOverrun\<close> is a write past a host buffer,
  \<open>UndefinedShift\<close> a shift by at least the width of its operand.
\<close>

datatype fault =
    SegFault
  | PageOverrun
  | OutOfMemory
  | UnknownPrimary u32 u32
  | UnknownSecondary u32 u32
  | UnknownBranch u32 u32
  | NullHandler
  | TableOverrun
  | IllegalBrk
  | UnhandledSyscall u32
  | AssertFailed
  | HostOverrun
  | UndefinedShift
  | LoaderAbort
  | Diverges

type_synonym 'a result = "fault + 'a"

section \<open>The error monad\<close>

definition bindR :: "'e + 'a \<Rightarrow> ('a \<Rightarrow> 'e + 'b) \<Rightarrow> 'e + 'b" where
  "bindR x f = (case x of Inl e \<Rightarrow> Inl e | Inr a \<Rightarrow> f a)"

lemma bindR_Inl [simp]: "bindR (Inl e) f = Inl e"
  by (simp add: bindR_def)

lemma bindR_Inr [simp]: "bindR (Inr a) f = f a"
  by (simp add: bindR_def)

lemma bindR_assoc: "bindR (bindR x f) g = bindR x (\<lambda>a. bindR (f a) g)"
  by (cases x) simp_all

lemma bindR_eq_Inr_iff: "bindR x f = Inr b \<longleftrightarrow> (\<exists>a. x = Inr a \<and> f a = Inr b)"
  by (cases x) simp_all

lemma bindR_eq_Inl_iff: "bindR x f = Inl e \<longleftrightarrow> x = Inl e \<or> (\<exists>a. x = Inr a \<and> f a = Inl e)"
  by (cases x) simp_all

lemma bindR_InrE:
  assumes "bindR x f = Inr b"
  obtains a where "x = Inr a" "f a = Inr b"
  using assms by (cases x) auto

lemma bindR_cong [fundef_cong]:
  "x = y \<Longrightarrow> (\<And>a. y = Inr a \<Longrightarrow> f a = g a) \<Longrightarrow> bindR x f = bindR y g"
  by (cases y) auto

lemma bindR_Inr_right [simp]: "bindR x Inr = x"
  by (cases x) simp_all

section \<open>Quotients and remainders\<close>

lemma div_mod_add_small:
  fixes x k m :: nat
  assumes "x mod m + k < m"
  shows "(x + k) div m = x div m" and "(x + k) mod m = x mod m + k"
proof -
  have eq: "x + k = (x mod m + k) + m * (x div m)" by simp
  show "(x + k) div m = x div m" unfolding eq using assms by (subst div_mult_self2) auto
  show "(x + k) mod m = x mod m + k" unfolding eq using assms by (subst mod_mult_self2) auto
qed

lemma mult_add_cancel_less:
  fixes a b c d m :: nat
  assumes "b < m" "d < m"
  shows "a * m + b = c * m + d \<longleftrightarrow> a = c \<and> b = d"
proof
  assume eq: "a * m + b = c * m + d"
  have "(a * m + b) div m = a" "(c * m + d) div m = c"
    and "(a * m + b) mod m = b" "(c * m + d) mod m = d" using assms by simp_all
  with eq show "a = c \<and> b = d" by metis
qed simp

section \<open>Unsigned 32-bit arithmetic\<close>

lemma unat_u32_less: "unat (x :: u32) < 4294967296"
proof -
  have "unat x < 2 ^ LENGTH(32)" by (rule unsigned_less)
  then show ?thesis by simp
qed

lemma unat_Suc_less:
  assumes "(e :: u32) < lim"
  shows "unat (e + 1) = Suc (unat e)"
proof -
  have "Suc (unat e) < 4294967296"
    using assms unat_u32_less [of lim] by (simp add: word_less_nat_alt)
  then show ?thesis by (simp add: unat_word_ariths)
qed

section \<open>Words and their little-endian bytes\<close>

text \<open>
  The host is little-endian, as the loader requires of the guest: the bytes of a word in
  memory order, and the word they make.
\<close>

definition bytes_le :: "nat \<Rightarrow> 'a::len word \<Rightarrow> u8 list" where
  "bytes_le n w = map (\<lambda>k. ucast (drop_bit (8 * k) w)) [0..<n]"

definition word_le :: "u8 list \<Rightarrow> 'a::len word" where
  "word_le bs = foldr (\<lambda>b w. ucast b OR push_bit 8 w) bs 0"

lemma length_bytes_le [simp]: "length (bytes_le n w) = n"
  by (simp add: bytes_le_def)

lemma nth_bytes_le: "k < n \<Longrightarrow> bytes_le n w ! k = ucast (drop_bit (8 * k) w)"
  by (simp add: bytes_le_def)

lemma bit_word_le:
  "bit (word_le bs :: 'a::len word) i \<longleftrightarrow>
     i < LENGTH('a) \<and> i div 8 < length bs \<and> bit (bs ! (i div 8)) (i mod 8)"
proof (induction bs arbitrary: i)
  case Nil
  then show ?case by (simp add: word_le_def)
next
  case (Cons b bs)
  have rec: "(word_le (b # bs) :: 'a word) = ucast b OR push_bit 8 (word_le bs)"
    by (simp add: word_le_def)
  show ?case
  proof (cases "i < 8")
    case True
    then show ?thesis by (auto simp: rec bit_simps)
  next
    case False
    then obtain j where j: "i = j + 8" by (metis add.commute le_Suc_ex not_less)
    have "\<not> bit b i" using False by (auto dest: bit_imp_le_length)
    moreover have "(j + 8) div 8 = Suc (j div 8)" "(j + 8) mod 8 = j mod 8" by simp_all
    ultimately show ?thesis using Cons.IH [of j] by (auto simp: rec bit_simps j)
  qed
qed

lemma word_le_bytes_le:
  assumes "LENGTH('a) = 8 * n"
  shows "word_le (bytes_le n w) = (w :: 'a::len word)"
proof (rule bit_word_eqI)
  fix i assume i: "i < LENGTH('a)"
  then have "i div 8 < n" using assms by auto
  then show "bit (word_le (bytes_le n w) :: 'a word) i \<longleftrightarrow> bit w i"
    using i by (simp add: bit_word_le nth_bytes_le bit_simps mult.commute)
qed

lemma bytes_le_word_le:
  assumes "length bs = n" "8 * n \<le> LENGTH('a)"
  shows "bytes_le n (word_le bs :: 'a::len word) = bs"
proof (rule nth_equalityI)
  show "length (bytes_le n (word_le bs :: 'a word)) = length bs" using assms by simp
next
  fix k assume k: "k < length (bytes_le n (word_le bs :: 'a word))"
  then have k': "k < n" by simp
  show "bytes_le n (word_le bs :: 'a word) ! k = bs ! k"
  proof (rule bit_word_eqI)
    fix i assume "i < LENGTH(8)"
    then have i: "i < 8" by simp
    have "8 * k + i < LENGTH('a)" using k' i assms by simp
    moreover have "(8 * k + i) div 8 = k" "(8 * k + i) mod 8 = i" using i by auto
    ultimately show "bit (bytes_le n (word_le bs :: 'a word) ! k) i \<longleftrightarrow> bit (bs ! k) i"
      using k' i assms by (simp add: nth_bytes_le bit_simps bit_word_le add.commute)
  qed
qed

end
