(* ===== verification/Byte_Store.thy ===== *)
theory Byte_Store
  imports Prelude
begin

text \<open>
  The interface between the guest memory and its clients (the load and store instructions,
  the copy loops, the loader): a partial byte map with loads and stores of byte strings that
  fit one page. The clients' laws are proved here once, for any provider.
\<close>

definition disjoint_regions :: "u32 \<Rightarrow> nat \<Rightarrow> u32 \<Rightarrow> nat \<Rightarrow> bool" where
  "disjoint_regions a n b m \<longleftrightarrow> (\<forall>j < n. \<forall>k < m. a + of_nat j \<noteq> b + of_nat k)"

lemma unat_of_nat_page: "k < n \<Longrightarrow> n \<le> 4096 \<Longrightarrow> unat (of_nat k :: u32) = k"
  by (simp add: unat_of_nat)

lemma of_nat_unat_diff: "a + of_nat (unat (x - a)) = (x :: u32)"
  by simp

locale byte_store =
  fixes mapped :: "'m \<Rightarrow> u32 \<Rightarrow> bool"
    and byte :: "'m \<Rightarrow> u32 \<Rightarrow> u8"
    and fits :: "u32 \<Rightarrow> nat \<Rightarrow> bool"
    and load :: "'m \<Rightarrow> u32 \<Rightarrow> nat \<Rightarrow> u8 list result"
    and store :: "'m \<Rightarrow> u32 \<Rightarrow> u8 list \<Rightarrow> 'm result"
  assumes load_eq: "load m a n =
      (if \<not> mapped m a then Inl SegFault
       else if \<not> fits a n then Inl PageOverrun
       else Inr (map (\<lambda>k. byte m (a + of_nat k)) [0..<n]))"
    and store_ok: "mapped m a \<Longrightarrow> fits a (length bs) \<Longrightarrow> \<exists>m'. store m a bs = Inr m'"
    and store_fault: "\<not> mapped m a \<Longrightarrow> store m a bs = Inl SegFault"
    and store_overrun: "mapped m a \<Longrightarrow> \<not> fits a (length bs) \<Longrightarrow> store m a bs = Inl PageOverrun"
    and store_mapped: "store m a bs = Inr m' \<Longrightarrow> mapped m' x = mapped m x"
    and store_byte: "store m a bs = Inr m' \<Longrightarrow>
      byte m' x = (if unat (x - a) < length bs then bs ! unat (x - a) else byte m x)"
    and fits_bound: "fits a n \<Longrightarrow> n \<le> 4096"
begin

lemma store_InrD: "store m a bs = Inr m' \<Longrightarrow> mapped m a \<and> fits a (length bs)"
  by (cases "mapped m a"; cases "fits a (length bs)") (auto simp: store_fault store_overrun)

lemma load_after_store:
  assumes st: "store m a bs = Inr m'"
  shows "load m' a (length bs) = Inr bs"
proof -
  from st have ok: "mapped m a" "fits a (length bs)" by (auto dest: store_InrD)
  have "map (\<lambda>k. byte m' (a + of_nat k)) [0..<length bs] = bs"
    by (rule nth_equalityI)
       (auto simp: store_byte [OF st] unat_of_nat_page [OF _ fits_bound [OF ok(2)]])
  with ok show ?thesis by (simp add: load_eq store_mapped [OF st])
qed

lemma load_after_disjoint_store:
  assumes st: "store m a bs = Inr m'" and dis: "disjoint_regions a (length bs) b n"
  shows "load m' b n = load m b n"
proof -
  have "byte m' (b + of_nat k) = byte m (b + of_nat k)" if k: "k < n" for k
  proof -
    have "\<not> unat (b + of_nat k - a) < length bs"
    proof
      assume lt: "unat (b + of_nat k - a) < length bs"
      have "a + of_nat (unat (b + of_nat k - a)) = b + of_nat k" by (rule of_nat_unat_diff)
      with dis lt k show False unfolding disjoint_regions_def by blast
    qed
    then show ?thesis by (simp add: store_byte [OF st])
  qed
  then show ?thesis by (simp add: load_eq store_mapped [OF st])
qed

lemma store_store_same:
  assumes "store m a bs = Inr m1" "store m1 a cs = Inr m2" "store m a cs = Inr m3"
    and "length cs = length bs"
  shows "byte m2 x = byte m3 x"
  using assms(4) by (simp add: store_byte [OF assms(1)] store_byte [OF assms(2)]
      store_byte [OF assms(3)])

lemma store_again:
  assumes "store m a bs = Inr m1" and "length cs = length bs"
  shows "\<exists>m2. store m1 a cs = Inr m2"
  using assms by (metis store_InrD store_mapped store_ok)

lemma word_roundtrip:
  fixes w :: "'w::len word"
  assumes "store m a (bytes_le n w) = Inr m'" and "LENGTH('w) = 8 * n"
  shows "bindR (load m' a n) (\<lambda>bs. Inr (word_le bs)) = Inr w"
  using load_after_store [OF assms(1)] assms(2) by (simp add: word_le_bytes_le)

end

end
