(* ===== verification/Memory.thy ===== *)
theory Memory
  imports Byte_Store
begin

text \<open>
  The guest memory of \<open>src/memory.h\<close> and \<open>src/memory.c\<close>: a two-level page table whose pages
  are allocated on demand. A page is a function of the offset of a byte, of which the 4096
  offsets below \<open>PAGE_SIZE\<close> exist; a page table is a partial function of the entry index;
  \<open>NULL\<close> is \<open>None\<close>. A pointer into a page is a \<open>location\<close>: table index, entry index and
  offset. Dereferencing is \<open>host_load\<close> and \<open>host_store\<close>, which fault where the C code would
  leave the page. The last part shows that the paged memory is a flat byte map.
\<close>

section \<open>Constants\<close>

definition USER_TOP :: u32 where "USER_TOP = 0x80000000"
definition STACK_SIZE :: u32 where "STACK_SIZE = 0x10000"
definition STACK_TOP :: u32 where "STACK_TOP = USER_TOP"
definition STACK_BOT :: u32 where "STACK_BOT = STACK_TOP - STACK_SIZE"

definition PT_SHIFT :: nat where "PT_SHIFT = 22"
definition PE_SHIFT :: nat where "PE_SHIFT = 12"
definition PT_MASK :: u32 where "PT_MASK = 0b1111111111"
definition PE_MASK :: u32 where "PE_MASK = 0b1111111111"
definition OFFSET_MASK :: u32 where "OFFSET_MASK = 0b111111111111"

lemmas memory_consts = PT_SHIFT_def PE_SHIFT_def PT_MASK_def PE_MASK_def OFFSET_MASK_def

section \<open>State\<close>

type_synonym page = "u32 \<Rightarrow> u8"
type_synonym page_table = "u32 \<Rightarrow> page option"
type_synonym location = "u32 \<times> u32 \<times> u32"

record memory =
  page_tables :: "u32 \<Rightarrow> page_table option"
  brk_heap_start :: u32
  brk_heap_end :: u32
  mmap_heap_start :: u32
  mmap_heap_end :: u32

text \<open>\<open>struct memory memory = {}\<close>: every pointer \<open>NULL\<close>, every field 0.\<close>

definition empty_memory :: memory where
  "empty_memory = \<lparr>page_tables = (\<lambda>_. None), brk_heap_start = 0, brk_heap_end = 0,
     mmap_heap_start = 0, mmap_heap_end = 0\<rparr>"

definition memory_create :: "memory \<Rightarrow> memory" where
  "memory_create mem = mem\<lparr>mmap_heap_start := 0x40000000, mmap_heap_end := 0x40000000\<rparr>"

section \<open>Address translation and dereference\<close>

definition page_at :: "memory \<Rightarrow> u32 \<Rightarrow> u32 \<Rightarrow> page option" where
  "page_at mem t e = (case page_tables mem t of None \<Rightarrow> None | Some table \<Rightarrow> table e)"

definition memory_find_page :: "memory \<Rightarrow> u32 \<Rightarrow> location result" where
  "memory_find_page mem address =
     (let pt_idx = drop_bit PT_SHIFT address AND PT_MASK;
          pe_idx = drop_bit PE_SHIFT address AND PE_MASK;
          offset = address AND OFFSET_MASK
      in case page_tables mem pt_idx of
           None \<Rightarrow> Inl SegFault
         | Some table \<Rightarrow>
             (case table pe_idx of
                None \<Rightarrow> Inl SegFault
              | Some _ \<Rightarrow> Inr (pt_idx, pe_idx, offset)))"

fun host_load :: "memory \<Rightarrow> location \<Rightarrow> nat \<Rightarrow> u8 list result" where
  "host_load mem (t, e, off) n =
     (case page_at mem t e of
        None \<Rightarrow> Inl SegFault
      | Some pg \<Rightarrow>
          if unat off + n \<le> 4096 then Inr (map (\<lambda>k. pg (off + of_nat k)) [0..<n])
          else Inl PageOverrun)"

definition write_page :: "page \<Rightarrow> u32 \<Rightarrow> u8 list \<Rightarrow> page" where
  "write_page pg off bs =
     (\<lambda>x. if unat (x - off) < length bs then bs ! unat (x - off) else pg x)"

definition set_page :: "memory \<Rightarrow> u32 \<Rightarrow> u32 \<Rightarrow> page \<Rightarrow> memory" where
  "set_page mem t e pg =
     mem\<lparr>page_tables := (page_tables mem)
       (t := (case page_tables mem t of
                None \<Rightarrow> None
              | Some table \<Rightarrow> Some (table(e := Some pg))))\<rparr>"

fun host_store :: "memory \<Rightarrow> location \<Rightarrow> u8 list \<Rightarrow> memory result" where
  "host_store mem (t, e, off) bs =
     (case page_at mem t e of
        None \<Rightarrow> Inl SegFault
      | Some pg \<Rightarrow>
          if unat off + length bs \<le> 4096 then Inr (set_page mem t e (write_page pg off bs))
          else Inl PageOverrun)"

definition load_bytes :: "memory \<Rightarrow> u32 \<Rightarrow> nat \<Rightarrow> u8 list result" where
  "load_bytes mem address n = bindR (memory_find_page mem address) (\<lambda>l. host_load mem l n)"

definition store_bytes :: "memory \<Rightarrow> u32 \<Rightarrow> u8 list \<Rightarrow> memory result" where
  "store_bytes mem address bs = bindR (memory_find_page mem address) (\<lambda>l. host_store mem l bs)"

section \<open>Reads and writes of 1, 2 and 4 bytes\<close>

definition memory_read_u8 :: "memory \<Rightarrow> u32 \<Rightarrow> u8 result" where
  "memory_read_u8 mem address = bindR (load_bytes mem address 1) (\<lambda>bs. Inr (word_le bs))"

definition memory_read_u16 :: "memory \<Rightarrow> u32 \<Rightarrow> u16 result" where
  "memory_read_u16 mem address = bindR (load_bytes mem address 2) (\<lambda>bs. Inr (word_le bs))"

definition memory_read_u32 :: "memory \<Rightarrow> u32 \<Rightarrow> u32 result" where
  "memory_read_u32 mem address = bindR (load_bytes mem address 4) (\<lambda>bs. Inr (word_le bs))"

definition memory_write_u8 :: "memory \<Rightarrow> u32 \<Rightarrow> u8 \<Rightarrow> memory result" where
  "memory_write_u8 mem address v = store_bytes mem address (bytes_le 1 v)"

definition memory_write_u16 :: "memory \<Rightarrow> u32 \<Rightarrow> u16 \<Rightarrow> memory result" where
  "memory_write_u16 mem address v = store_bytes mem address (bytes_le 2 v)"

definition memory_write_u32 :: "memory \<Rightarrow> u32 \<Rightarrow> u32 \<Rightarrow> memory result" where
  "memory_write_u32 mem address v = store_bytes mem address (bytes_le 4 v)"

section \<open>The flat byte view\<close>

definition pt_index :: "u32 \<Rightarrow> u32" where "pt_index a = drop_bit 22 a AND 0x3ff"
definition pe_index :: "u32 \<Rightarrow> u32" where "pe_index a = drop_bit 12 a AND 0x3ff"
definition page_offset :: "u32 \<Rightarrow> u32" where "page_offset a = a AND 0xfff"

definition mapped :: "memory \<Rightarrow> u32 \<Rightarrow> bool" where
  "mapped mem a \<longleftrightarrow> page_at mem (pt_index a) (pe_index a) \<noteq> None"

definition byte_at :: "memory \<Rightarrow> u32 \<Rightarrow> u8" where
  "byte_at mem a =
     (case page_at mem (pt_index a) (pe_index a) of None \<Rightarrow> 0 | Some pg \<Rightarrow> pg (page_offset a))"

definition in_page :: "u32 \<Rightarrow> nat \<Rightarrow> bool" where
  "in_page a n \<longleftrightarrow> unat (page_offset a) + n \<le> 4096"

definition heap_bounds :: "memory \<Rightarrow> u32 \<times> u32 \<times> u32 \<times> u32" where
  "heap_bounds mem = (brk_heap_start mem, brk_heap_end mem, mmap_heap_start mem, mmap_heap_end mem)"

subsection \<open>The three indices of an address as numbers\<close>

lemma and_low_mask:
  "(a :: u32) AND 0xfff = take_bit 12 a" "(a :: u32) AND 0x3ff = take_bit 10 a"
  by (simp_all add: take_bit_eq_mask mask_eq_exp_minus_1)

lemma unat_page_offset: "unat (page_offset a) = unat a mod 4096"
  by (simp add: page_offset_def and_low_mask take_bit_eq_mod unat_mod_distrib)

lemma unat_pe_index: "unat (pe_index a) = unat a div 4096 mod 1024"
  by (simp add: pe_index_def and_low_mask take_bit_eq_mod drop_bit_eq_div
      unat_mod_distrib unat_div_distrib)

lemma unat_pt_index: "unat (pt_index a) = unat a div 4194304"
proof -
  have "unat a < 4294967296" using unsigned_less [of a] by simp
  then have "unat a div 4194304 < 1024" by (simp add: div_less_iff_less_mult)
  then show ?thesis
    by (simp add: pt_index_def and_low_mask take_bit_eq_mod drop_bit_eq_div
        unat_mod_distrib unat_div_distrib)
qed

lemmas unat_indices = unat_page_offset unat_pe_index unat_pt_index

lemma page_offset_less: "unat (page_offset a) < 4096"
  by (simp add: unat_page_offset)

lemma page_number: "unat x div 4096 = unat (pt_index x) * 1024 + unat (pe_index x)"
proof -
  have "unat x div 4194304 = unat x div 4096 div 1024" by (simp flip: div_mult2_eq)
  then show ?thesis by (simp add: unat_indices)
qed

lemma pe_index_less: "unat (pe_index a) < 1024"
  by (simp add: unat_pe_index)

lemma pt_index_less: "unat (pt_index a) < 1024"
  using unat_u32_less [of a] by (simp add: unat_pt_index div_less_iff_less_mult)

lemma same_page_iff:
  "pt_index a = pt_index b \<and> pe_index a = pe_index b \<longleftrightarrow> unat a div 4096 = unat b div 4096"
proof -
  have "unat a div 4096 = unat b div 4096 \<longleftrightarrow>
      unat (pt_index a) = unat (pt_index b) \<and> unat (pe_index a) = unat (pe_index b)"
    unfolding page_number by (rule mult_add_cancel_less [OF pe_index_less pe_index_less])
  then show ?thesis by (simp add: word_unat_eq_iff)
qed

lemma in_page_unat:
  assumes "in_page a n" "k < n"
  shows "unat (a + of_nat k) = unat a + k"
proof -
  have "unat a mod 4096 + k < 4096" using assms by (simp add: in_page_def unat_page_offset)
  moreover have "unat a div 4096 < 1048576"
    using unsigned_less [of a] by (simp add: div_less_iff_less_mult)
  moreover have "unat a = 4096 * (unat a div 4096) + unat a mod 4096" by simp
  ultimately have "unat a + k < 4294967296" by linarith
  then have "k < 4294967296" "unat a + k < 4294967296" by simp_all
  then show ?thesis by (simp add: unat_word_ariths unat_of_nat)
qed

lemma in_page_indices:
  assumes "in_page a n" "k < n"
  shows "pt_index (a + of_nat k) = pt_index a"
    and "pe_index (a + of_nat k) = pe_index a"
    and "page_offset (a + of_nat k) = page_offset a + of_nat k"
proof -
  have lt: "unat a mod 4096 + k < 4096" using assms by (simp add: in_page_def unat_page_offset)
  note qr = div_mod_add_small [OF lt]
  from qr show "pt_index (a + of_nat k) = pt_index a" "pe_index (a + of_nat k) = pe_index a"
    using same_page_iff [of "a + of_nat k" a] assms by (simp_all add: in_page_unat)
  have "unat (page_offset a + of_nat k) = unat a mod 4096 + k"
    using lt by (simp add: unat_word_ariths unat_of_nat unat_page_offset)
  then show "page_offset (a + of_nat k) = page_offset a + of_nat k"
    using qr assms by (simp add: word_unat_eq_iff [of "page_offset _"] unat_page_offset in_page_unat)
qed

lemma mapped_in_page:
  "in_page a n \<Longrightarrow> k < n \<Longrightarrow> mapped mem (a + of_nat k) = mapped mem a"
  by (simp add: mapped_def in_page_indices)

lemma in_page_mono: "in_page a n \<Longrightarrow> k \<le> n \<Longrightarrow> in_page a k"
  by (simp add: in_page_def)

subsection \<open>Loads and stores on the flat view\<close>

lemma memory_find_page_eq:
  "memory_find_page mem a =
     (if mapped mem a then Inr (pt_index a, pe_index a, page_offset a) else Inl SegFault)"
  by (auto simp: memory_find_page_def memory_consts pt_index_def pe_index_def page_offset_def
      mapped_def page_at_def split: option.splits)

lemma load_bytes_eq:
  "load_bytes mem a n =
     (if \<not> mapped mem a then Inl SegFault
      else if \<not> in_page a n then Inl PageOverrun
      else Inr (map (\<lambda>k. byte_at mem (a + of_nat k)) [0..<n]))"
  by (auto simp: load_bytes_def memory_find_page_eq byte_at_def in_page_def mapped_def
      in_page_indices [unfolded in_page_def] split: option.splits)

lemma store_bytes_eq_Inr_iff:
  "(\<exists>mem'. store_bytes mem a bs = Inr mem') \<longleftrightarrow> mapped mem a \<and> in_page a (length bs)"
  by (auto simp: store_bytes_def memory_find_page_eq in_page_def mapped_def split: option.splits)

lemma store_bytes_faults:
  "\<not> mapped mem a \<Longrightarrow> store_bytes mem a bs = Inl SegFault"
  "mapped mem a \<Longrightarrow> \<not> in_page a (length bs) \<Longrightarrow> store_bytes mem a bs = Inl PageOverrun"
  by (auto simp: store_bytes_def memory_find_page_eq in_page_def mapped_def split: option.splits)

lemma page_at_set_page:
  "page_at mem t e \<noteq> None \<Longrightarrow>
   page_at (set_page mem t e pg) t' e' = (if t' = t \<and> e' = e then Some pg else page_at mem t' e')"
  by (auto simp: page_at_def set_page_def split: option.splits)

lemma store_bytes_InrD:
  assumes "store_bytes mem a bs = Inr mem'"
  shows "mapped mem' x = mapped mem x"
    and "byte_at mem' x = (if unat (x - a) < length bs then bs ! unat (x - a) else byte_at mem x)"
    and "heap_bounds mem' = heap_bounds mem"
proof -
  from assms obtain pg where pg: "page_at mem (pt_index a) (pe_index a) = Some pg"
    and fits: "in_page a (length bs)"
    and mem': "mem' = set_page mem (pt_index a) (pe_index a) (write_page pg (page_offset a) bs)"
    by (auto simp: store_bytes_def memory_find_page_eq in_page_def mapped_def
        split: option.splits if_splits)
  note at = page_at_set_page [of mem "pt_index a" "pe_index a"]
  show "mapped mem' x = mapped mem x" by (auto simp: mapped_def mem' at pg)
  show "heap_bounds mem' = heap_bounds mem"
    by (simp add: mem' set_page_def heap_bounds_def)
  show "byte_at mem' x = (if unat (x - a) < length bs then bs ! unat (x - a) else byte_at mem x)"
  proof (cases "pt_index x = pt_index a \<and> pe_index x = pe_index a")
    case True
    then have page: "unat x div 4096 = unat a div 4096" by (simp add: same_page_iff)
    have off: "of_nat (unat y) = of_nat (4096 * (unat y div 4096)) + page_offset y" for y :: u32
    proof -
      have "of_nat (unat y) = (of_nat (4096 * (unat y div 4096) + unat y mod 4096) :: u32)" by simp
      also have "\<dots> = of_nat (4096 * (unat y div 4096)) + of_nat (unat (page_offset y))"
        by (simp only: of_nat_add unat_page_offset)
      finally show ?thesis by simp
    qed
    define base :: u32 where "base = of_nat (4096 * (unat a div 4096))"
    have "x = base + page_offset x" "a = base + page_offset a"
      using off [of x] off [of a] by (simp_all only: page base_def of_nat_unat ucast_id)
    then have "page_offset x - page_offset a = x - a" by (metis add_diff_cancel_left)
    with True show ?thesis by (simp add: byte_at_def mem' at pg write_page_def)
  next
    case False
    have "\<not> unat (x - a) < length bs"
    proof
      assume "unat (x - a) < length bs"
      from in_page_indices [OF fits this] False show False by simp
    qed
    with False show ?thesis by (auto simp: byte_at_def mem' at pg)
  qed
qed

section \<open>The paged memory provides the byte store interface\<close>

interpretation paged: byte_store mapped byte_at in_page load_bytes store_bytes
proof unfold_locales
  show "load_bytes m a n =
      (if \<not> mapped m a then Inl SegFault
       else if \<not> in_page a n then Inl PageOverrun
       else Inr (map (\<lambda>k. byte_at m (a + of_nat k)) [0..<n]))" for m a n
    by (rule load_bytes_eq)
  show "\<exists>m'. store_bytes m a bs = Inr m'" if "mapped m a" "in_page a (length bs)" for m a bs
    using that by (simp add: store_bytes_eq_Inr_iff)
  show "store_bytes m a bs = Inl SegFault" if "\<not> mapped m a" for m a bs
    using that by (rule store_bytes_faults)
  show "store_bytes m a bs = Inl PageOverrun" if "mapped m a" "\<not> in_page a (length bs)" for m a bs
    using that by (rule store_bytes_faults)
  show "mapped m' x = mapped m x" if "store_bytes m a bs = Inr m'" for m a bs m' x
    using that by (rule store_bytes_InrD)
  show "byte_at m' x = (if unat (x - a) < length bs then bs ! unat (x - a) else byte_at m x)"
    if "store_bytes m a bs = Inr m'" for m a bs m' x
    using that by (rule store_bytes_InrD)
  show "n \<le> 4096" if "in_page a n" for a n using that by (simp add: in_page_def)
qed

end
