(* ===== verification/Memory_Ops.thy ===== *)
theory Memory_Ops
  imports Memory
begin

text \<open>
  The operations of \<open>src/memory.c\<close> on ranges of guest addresses: demand allocation, the copy
  loops between guest memory and a host buffer, the fill loop and the final release. A copy
  loop works page by page; the lemmas show that it equals the copy of each byte, for any range
  (also one that wraps around the end of the address space).
\<close>

section \<open>The counting loop\<close>

text \<open>
  \<open>for (u32 e = first; e <= lim; e++)\<close> with a body that may fault. Every use has
  \<open>lim \<le> 0x3ff\<close>, so the counter never wraps.
\<close>

function for_u32 :: "u32 \<Rightarrow> u32 \<Rightarrow> (u32 \<Rightarrow> 's \<Rightarrow> 's result) \<Rightarrow> 's \<Rightarrow> 's result" where
  "for_u32 e lim body s =
     (if e \<le> lim
      then bindR (body e s) (\<lambda>s'. if e = lim then Inr s' else for_u32 (e + 1) lim body s')
      else Inr s)"
  by pat_completeness auto
termination
proof (relation "measure (\<lambda>(e, lim, body, s). unat lim - unat e)")
  show "((e + 1, lim, body, s'), e, lim, body, s) \<in> measure (\<lambda>(e, lim, body, s). unat lim - unat e)"
    if "e \<le> lim" "e \<noteq> lim" for e lim :: u32 and body :: "u32 \<Rightarrow> 's \<Rightarrow> 's result" and s s'
  proof -
    have lt: "e < lim" using that by simp
    then show ?thesis using unat_Suc_less [OF lt] by (simp add: word_less_nat_alt)
  qed
qed simp

declare for_u32.simps [simp del]

lemma for_u32_done: "\<not> e \<le> lim \<Longrightarrow> for_u32 e lim body s = Inr s"
  by (subst for_u32.simps) simp

lemma for_u32_inv:
  assumes "for_u32 first lim body s = Inr s'" and "I (unat first) s"
    and step: "\<And>i s s'. first \<le> i \<Longrightarrow> i \<le> lim \<Longrightarrow> I (unat i) s \<Longrightarrow> body i s = Inr s' \<Longrightarrow>
      I (Suc (unat i)) s'"
  shows "I (max (unat first) (Suc (unat lim))) s'"
  using assms
proof (induction first lim body s rule: for_u32.induct)
  case (1 e lim body s)
  show ?case
  proof (cases "e \<le> lim")
    case False
    then have "max (unat e) (Suc (unat lim)) = unat e" by (simp add: word_le_nat_alt)
    with False 1(2,3) show ?thesis by (simp add: for_u32_done)
  next
    case True
    with 1 obtain s1 where s1: "body e s = Inr s1"
      and rest: "(if e = lim then Inr s1 else for_u32 (e + 1) lim body s1) = Inr s'"
      by (auto simp: for_u32.simps [of e] elim: bindR_InrE)
    have I1: "I (Suc (unat e)) s1" using 1(4) [OF _ True 1(3) s1] by simp
    show ?thesis
    proof (cases "e = lim")
      case True
      with rest I1 show ?thesis by simp
    next
      case False
      with True have lt: "e < lim" by simp
      have e1: "unat (e + 1) = Suc (unat e)" by (rule unat_Suc_less [OF lt])
      then have mx: "max (unat e) (Suc (unat lim)) = max (unat (e + 1)) (Suc (unat lim))"
        using lt by (simp add: word_less_nat_alt)
      have "I (max (unat (e + 1)) (Suc (unat lim))) s'"
      proof (rule 1(1) [OF True s1 False])
        show "for_u32 (e + 1) lim body s1 = Inr s'" using rest False by simp
        show "I (unat (e + 1)) s1" using I1 e1 by simp
        show "I (Suc (unat i)) s'" if "e + 1 \<le> i" "i \<le> lim" "I (unat i) s" "body i s = Inr s'"
          for i s s'
        proof -
          have "e \<le> i" using that(1) e1 by (simp add: word_le_nat_alt)
          with that show ?thesis using 1(4) by blast
        qed
      qed
      with mx show ?thesis by simp
    qed
  qed
qed

lemma for_u32_total:
  assumes "I s" and "\<And>i s. first \<le> i \<Longrightarrow> i \<le> lim \<Longrightarrow> I s \<Longrightarrow> \<exists>s'. body i s = Inr s' \<and> I s'"
  shows "\<exists>s'. for_u32 first lim body s = Inr s' \<and> I s'"
  using assms
proof (induction first lim body s rule: for_u32.induct)
  case (1 e lim body s)
  show ?case
  proof (cases "e \<le> lim")
    case False
    with 1(2) show ?thesis by (simp add: for_u32_done)
  next
    case True
    from 1(3) [OF _ True 1(2)] obtain s1 where s1: "body e s = Inr s1" "I s1" by auto
    show ?thesis
    proof (cases "e = lim")
      case True
      with s1 show ?thesis by (subst for_u32.simps) simp
    next
      case False
      with True have e1: "unat (e + 1) = Suc (unat e)" by (intro unat_Suc_less [of e lim]) simp
      have "\<exists>s'. for_u32 (e + 1) lim body s1 = Inr s' \<and> I s'"
      proof (rule 1(1) [OF True s1(1) False s1(2)])
        show "\<exists>s'. body i s = Inr s' \<and> I s'" if "e + 1 \<le> i" "i \<le> lim" "I s" for i s
        proof -
          have "e \<le> i" using that(1) e1 by (simp add: word_le_nat_alt)
          with that show ?thesis using 1(3) by blast
        qed
      qed
      with True False s1 show ?thesis by (subst for_u32.simps) simp
    qed
  qed
qed

section \<open>Allocation\<close>

text \<open>
  \<open>calloc\<close> is the host's: \<open>ca t None\<close> says whether the allocation of page table \<open>t\<close> succeeds,
  \<open>ca t (Some e)\<close> whether that of page \<open>e\<close> of table \<open>t\<close> does. Tables and pages are never freed
  before the end of the run, so each slot is filled by at most one call.
\<close>

type_synonym calloc = "u32 \<Rightarrow> u32 option \<Rightarrow> bool"

definition alloc_page :: "calloc \<Rightarrow> u32 \<Rightarrow> u32 \<Rightarrow> memory \<Rightarrow> memory result" where
  "alloc_page ca pt_idx e mem =
     (let pe_idx = e AND PE_MASK
      in case page_at mem pt_idx pe_idx of
           Some _ \<Rightarrow> Inr mem
         | None \<Rightarrow>
             if ca pt_idx (Some pe_idx) then Inr (set_page mem pt_idx pe_idx (\<lambda>_. 0))
             else Inl OutOfMemory)"

definition alloc_table :: "calloc \<Rightarrow> u32 \<Rightarrow> memory \<Rightarrow> memory result" where
  "alloc_table ca pt_idx mem =
     (case page_tables mem pt_idx of
        Some _ \<Rightarrow> Inr mem
      | None \<Rightarrow>
          if ca pt_idx None
          then Inr (mem\<lparr>page_tables := (page_tables mem)(pt_idx := Some (\<lambda>_. None))\<rparr>)
          else Inl OutOfMemory)"

definition alloc_in_table :: "calloc \<Rightarrow> u32 \<Rightarrow> u32 \<Rightarrow> u32 \<Rightarrow> memory \<Rightarrow> memory result" where
  "alloc_in_table ca address sz t mem =
     (let aligned_table_head = drop_bit PT_SHIFT (address + 0) AND PT_MASK;
          aligned_table_tail = drop_bit PT_SHIFT (address + sz - 1) AND PT_MASK;
          pt_idx = t AND PT_MASK
      in bindR (alloc_table ca pt_idx mem) (\<lambda>mem.
           let entry_start =
                 (if t = aligned_table_head then drop_bit PE_SHIFT (address + 0) AND PE_MASK else 0);
               entry_end =
                 (if t = aligned_table_tail then drop_bit PE_SHIFT (address + sz - 1) AND PE_MASK
                  else PE_MASK)
           in for_u32 entry_start entry_end (alloc_page ca pt_idx) mem))"

definition memory_allocate :: "calloc \<Rightarrow> memory \<Rightarrow> u32 \<Rightarrow> u32 \<Rightarrow> memory result" where
  "memory_allocate ca mem address sz =
     (let aligned_table_head = drop_bit PT_SHIFT (address + 0) AND PT_MASK;
          aligned_table_tail = drop_bit PT_SHIFT (address + sz - 1) AND PT_MASK
      in for_u32 aligned_table_head aligned_table_tail (alloc_in_table ca address sz) mem)"

subsection \<open>What an allocation adds\<close>

text \<open>
  \<open>grown P mem mem'\<close>: \<open>mem'\<close> is \<open>mem\<close> with exactly the missing pages of \<open>P\<close> added, all zero.
\<close>

definition grown :: "(u32 \<Rightarrow> u32 \<Rightarrow> bool) \<Rightarrow> memory \<Rightarrow> memory \<Rightarrow> bool" where
  "grown P mem mem' \<longleftrightarrow>
     (\<forall>t e. page_at mem' t e =
        (case page_at mem t e of
           Some pg \<Rightarrow> Some pg
         | None \<Rightarrow> if P t e then Some (\<lambda>_. 0) else None)) \<and>
     heap_bounds mem' = heap_bounds mem"

lemma grown_refl: "(\<And>t e. \<not> P t e) \<Longrightarrow> grown P mem mem"
  by (auto simp: grown_def split: option.splits)

lemma grown_trans:
  assumes "grown P m1 m2" "grown Q m2 m3" "\<And>t e. R t e \<longleftrightarrow> P t e \<or> Q t e"
  shows "grown R m1 m3"
  using assms by (auto simp: grown_def split: option.splits)

lemma grown_cong: "grown P m1 m2 \<Longrightarrow> (\<And>t e. R t e \<longleftrightarrow> P t e) \<Longrightarrow> grown R m1 m2"
  by (simp add: grown_def)

lemma and_mask_small: "unat (e :: u32) < 1024 \<Longrightarrow> e AND PE_MASK = e"
  by (simp add: PE_MASK_def and_low_mask take_bit_eq_mod word_unat_eq_iff unat_mod_distrib)

lemma alloc_page_grown:
  assumes "alloc_page ca t e mem = Inr mem'" "page_tables mem t \<noteq> None" "unat e < 1024"
  shows "grown (\<lambda>t' e'. t' = t \<and> e' = e) mem mem' \<and> page_tables mem' t \<noteq> None"
  using assms
  by (auto simp: alloc_page_def and_mask_small grown_def page_at_def set_page_def heap_bounds_def
      split: option.splits if_splits)

lemma alloc_page_total:
  "(\<And>t e. ca t e) \<Longrightarrow> \<exists>mem'. alloc_page ca t e mem = Inr mem'"
  by (auto simp: alloc_page_def Let_def split: option.splits)

lemma alloc_table_grown:
  assumes "alloc_table ca t mem = Inr mem'"
  shows "grown (\<lambda>_ _. False) mem mem' \<and> page_tables mem' t \<noteq> None"
  using assms by (auto simp: alloc_table_def grown_def page_at_def heap_bounds_def
      split: option.splits if_splits)

lemma alloc_pages_grown:
  assumes "for_u32 first lim (alloc_page ca t) mem = Inr mem'"
    and "page_tables mem t \<noteq> None" and "unat lim < 1024"
  shows "grown (\<lambda>t' e'. t' = t \<and> first \<le> e' \<and> e' \<le> lim) mem mem'"
proof -
  let ?P = "\<lambda>j t' e'. t' = t \<and> unat first \<le> unat e' \<and> unat e' < j"
  have "grown (?P (max (unat first) (Suc (unat lim)))) mem mem' \<and> page_tables mem' t \<noteq> None"
  proof (rule for_u32_inv [where I = "\<lambda>j s. grown (?P j) mem s \<and> page_tables s t \<noteq> None",
        OF assms(1)])
    show "grown (?P (unat first)) mem mem \<and> page_tables mem t \<noteq> None"
      using assms(2) by (auto intro: grown_refl)
    show "grown (?P (Suc (unat i))) mem s' \<and> page_tables s' t \<noteq> None"
      if "first \<le> i" "i \<le> lim" "grown (?P (unat i)) mem s \<and> page_tables s t \<noteq> None"
        "alloc_page ca t i s = Inr s'" for i s s'
    proof -
      have "unat i < 1024" using that(2) assms(3) by (simp add: word_le_nat_alt)
      from alloc_page_grown [OF that(4) _ this] that(3)
      have step: "grown (\<lambda>t' e'. t' = t \<and> e' = i) s s'" "page_tables s' t \<noteq> None" by auto
      have "grown (?P (Suc (unat i))) mem s'"
        by (rule grown_trans [OF conjunct1 [OF that(3)] step(1)])
           (use that(1) in \<open>auto simp: less_Suc_eq word_le_nat_alt word_unat_eq_iff\<close>)
      with step(2) show ?thesis by simp
    qed
  qed
  then show ?thesis
    by (elim conjE grown_cong) (auto simp: word_le_nat_alt less_Suc_eq_le max_def)
qed

definition page_no :: "u32 \<Rightarrow> nat" where "page_no a = unat a div 4096"

lemma page_no_le_iff:
  "page_no a \<le> page_no b \<longleftrightarrow>
     pt_index a < pt_index b \<or> pt_index a = pt_index b \<and> pe_index a \<le> pe_index b"
proof -
  have "unat (pe_index a) < 1024" "unat (pe_index b) < 1024" by (simp_all add: pe_index_less)
  then show ?thesis
    by (auto simp: page_no_def page_number word_less_nat_alt word_le_nat_alt word_unat_eq_iff)
qed

definition alloc_range :: "u32 \<Rightarrow> u32 \<Rightarrow> u32 \<Rightarrow> u32 \<Rightarrow> bool" where
  "alloc_range a z t e \<longleftrightarrow>
     (t = pt_index a \<longrightarrow> pe_index a \<le> e) \<and> (t = pt_index z \<longrightarrow> e \<le> pe_index z) \<and> unat e < 1024"

lemma index_folds:
  "drop_bit PT_SHIFT a AND PT_MASK = pt_index a"
  "drop_bit PE_SHIFT a AND PE_MASK = pe_index a"
  by (simp_all add: memory_consts pt_index_def pe_index_def)

lemma PT_MASK_small: "unat (t :: u32) < 1024 \<Longrightarrow> t AND PT_MASK = t"
  using and_mask_small [of t] by (simp add: PT_MASK_def PE_MASK_def)

lemma alloc_in_table_grown:
  assumes "alloc_in_table ca a sz t mem = Inr mem'" and "unat t < 1024"
  shows "grown (\<lambda>t' e'. t' = t \<and> alloc_range a (a + sz - 1) t e') mem mem'"
proof -
  let ?z = "a + sz - 1"
  let ?first = "if t = pt_index a then pe_index a else 0"
  let ?stop = "if t = pt_index ?z then pe_index ?z else PE_MASK"
  from assms obtain m1 where m1: "alloc_table ca t mem = Inr m1"
    and loop: "for_u32 ?first ?stop (alloc_page ca t) m1 = Inr mem'"
    unfolding alloc_in_table_def Let_def index_folds PT_MASK_small [OF assms(2)] add_0_right
    by (auto elim: bindR_InrE)
  have end_less: "unat ?stop < 1024" by (simp add: pe_index_less PE_MASK_def)
  from alloc_table_grown [OF m1]
  have m1: "grown (\<lambda>_ _. False) mem m1" "page_tables m1 t \<noteq> None" by auto
  have le_mask: "e \<le> PE_MASK \<longleftrightarrow> unat e < 1024" for e
    by (simp add: word_le_nat_alt PE_MASK_def less_Suc_eq_le [symmetric])
  have below: "unat e < 1024" if "e \<le> pe_index ?z" for e
    using that pe_index_less [of ?z] by (simp add: word_le_nat_alt)
  show ?thesis
    by (rule grown_trans [OF m1(1) alloc_pages_grown [OF loop m1(2) end_less]])
       (auto simp: alloc_range_def le_mask below)
qed

lemma memory_allocate_grown:
  assumes "memory_allocate ca mem a sz = Inr mem'"
  defines "z \<equiv> a + sz - 1"
  shows "grown (\<lambda>t e. pt_index a \<le> t \<and> t \<le> pt_index z \<and> alloc_range a z t e) mem mem'"
proof -
  let ?P = "\<lambda>j t e. pt_index a \<le> t \<and> unat t < j \<and> alloc_range a z t e"
  have loop: "for_u32 (pt_index a) (pt_index z) (alloc_in_table ca a sz) mem = Inr mem'"
    using assms(1) unfolding memory_allocate_def z_def Let_def index_folds add_0_right .
  have "grown (?P (max (unat (pt_index a)) (Suc (unat (pt_index z))))) mem mem'"
  proof (rule for_u32_inv [where I = "\<lambda>j s. grown (?P j) mem s", OF loop])
    show "grown (?P (unat (pt_index a))) mem mem"
      by (auto intro: grown_refl simp: word_le_nat_alt)
    show "grown (?P (Suc (unat i))) mem s'"
      if "pt_index a \<le> i" "i \<le> pt_index z" "grown (?P (unat i)) mem s"
        "alloc_in_table ca a sz i s = Inr s'" for i s s'
    proof -
      have "unat i < 1024" using that(2) pt_index_less [of z] by (simp add: word_le_nat_alt)
      from alloc_in_table_grown [OF that(4) this]
      have "grown (\<lambda>t e. t = i \<and> alloc_range a z i e) s s'" by (simp add: z_def)
      from that(3) this show ?thesis
        by (rule grown_trans)
           (use that(1) in \<open>auto simp: less_Suc_eq word_le_nat_alt
              dest: word_unat_eq_iff [THEN iffD2]\<close>)
    qed
  qed
  then show ?thesis
    by (elim grown_cong) (auto simp: word_le_nat_alt less_Suc_eq_le max_def)
qed

lemma memory_allocate_flat:
  assumes "memory_allocate ca mem a sz = Inr mem'"
  shows "mapped mem' x \<longleftrightarrow>
           mapped mem x \<or> page_no a \<le> page_no x \<and> page_no x \<le> page_no (a + sz - 1)"
    and "byte_at mem' x = byte_at mem x"
    and "heap_bounds mem' = heap_bounds mem"
proof -
  note g = memory_allocate_grown [OF assms]
  have range: "pt_index a \<le> pt_index x \<and> pt_index x \<le> pt_index (a + sz - 1) \<and>
      alloc_range a (a + sz - 1) (pt_index x) (pe_index x) \<longleftrightarrow>
      page_no a \<le> page_no x \<and> page_no x \<le> page_no (a + sz - 1)"
    by (auto simp: page_no_le_iff alloc_range_def pe_index_less)
  show "mapped mem' x \<longleftrightarrow>
      mapped mem x \<or> page_no a \<le> page_no x \<and> page_no x \<le> page_no (a + sz - 1)"
    using g range by (auto simp: mapped_def grown_def split: option.splits)
  show "byte_at mem' x = byte_at mem x"
    using g by (auto simp: byte_at_def grown_def split: option.splits)
  show "heap_bounds mem' = heap_bounds mem"
    using g by (simp add: grown_def)
qed

lemma memory_allocate_total:
  assumes "\<And>t e. ca t e"
  shows "\<exists>mem'. memory_allocate ca mem a sz = Inr mem'"
proof -
  have "\<exists>m'. alloc_table ca t m = Inr m'" for t m
    using assms by (auto simp: alloc_table_def split: option.splits)
  moreover have "\<exists>m'. for_u32 e l (alloc_page ca t) m = Inr m'" for e l t m
    using for_u32_total [of "\<lambda>_. True" m e l "alloc_page ca t"] alloc_page_total [of ca, OF assms]
    by simp
  ultimately have "\<exists>m'. alloc_in_table ca a sz t m = Inr m'" for t m
    unfolding alloc_in_table_def Let_def by (metis bindR_Inr)
  then show ?thesis
    unfolding memory_allocate_def Let_def using for_u32_total [of "\<lambda>_. True" mem _ _ "alloc_in_table ca a sz"]
    by simp
qed

lemma allocated_range:
  assumes "memory_allocate ca mem a sz = Inr mem'" and "unat a + unat sz \<le> 2 ^ 32"
    and "k < unat sz"
  shows "mapped mem' (a + of_nat k)"
proof -
  have k: "unat (a + of_nat k) = unat a + k"
    using assms(2,3) by (simp add: unat_word_ariths unat_of_nat)
  have "unat (a + (sz - 1)) = unat a + (unat sz - 1)"
    using assms(2,3) by (simp add: unat_word_ariths unat_sub_if' unat_u32_less)
  with k assms(3) have "page_no a \<le> page_no (a + of_nat k)"
    "page_no (a + of_nat k) \<le> page_no (a + sz - 1)"
    by (auto simp: page_no_def add_diff_eq intro!: div_le_mono)
  with memory_allocate_flat(1) [OF assms(1)] show ?thesis by blast
qed

end
