(* ===== verification/Memory_Copy.thy ===== *)
theory Memory_Copy
  imports Memory_Ops
begin

text \<open>
  The copy loops of \<open>src/memory.c\<close> (\<open>memory_copy_read\<close>, \<open>memory_copy_write\<close>,
  \<open>memory_set\<close>) and \<open>memory_delete\<close>. Each loop moves at most the rest of a page per turn.
  A host buffer is the list of its bytes; the \<open>memcpy\<close> of more bytes than the buffer holds is
  a \<open>HostOverrun\<close>.
\<close>

section \<open>The loops\<close>

definition chunk_amount :: "u32 \<Rightarrow> u32 \<Rightarrow> u32" where
  "chunk_amount address sz =
     (let offset = address AND OFFSET_MASK
      in if sz < OFFSET_MASK + 1 - offset then sz else OFFSET_MASK + 1 - offset)"

lemma unat_chunk_amount:
  "unat (chunk_amount a sz) = min (unat sz) (4096 - unat (page_offset a))"
proof -
  have "unat (4096 - page_offset a) = 4096 - unat (page_offset a)"
    using page_offset_less [of a] by (simp add: unat_sub_if' word_le_nat_alt)
  then show ?thesis
    by (simp add: chunk_amount_def Let_def OFFSET_MASK_def page_offset_def [symmetric]
        word_less_nat_alt)
qed

lemma chunk_amount_bounds:
  assumes "sz \<noteq> 0"
  shows "0 < unat (chunk_amount a sz)" and "chunk_amount a sz \<le> sz"
    and "unat (sz - chunk_amount a sz) = unat sz - unat (chunk_amount a sz)"
    and "in_page a (unat (chunk_amount a sz))"
proof -
  have pos: "0 < unat sz" using assms by (simp add: unat_gt_0)
  show "0 < unat (chunk_amount a sz)"
    using pos page_offset_less [of a] by (simp add: unat_chunk_amount)
  show le: "chunk_amount a sz \<le> sz" by (simp add: word_le_nat_alt unat_chunk_amount)
  then show "unat (sz - chunk_amount a sz) = unat sz - unat (chunk_amount a sz)"
    by (simp add: unat_sub)
  show "in_page a (unat (chunk_amount a sz))"
    using page_offset_less [of a] by (simp add: in_page_def unat_chunk_amount)
qed

lemma chunk_decreases:
  "sz \<noteq> 0 \<Longrightarrow> unat (sz - chunk_amount a sz) < unat sz"
  using chunk_amount_bounds [of sz a] unat_gt_0 [of sz] by simp

function memory_copy_write :: "memory \<Rightarrow> u32 \<Rightarrow> u32 \<Rightarrow> u8 list \<Rightarrow> memory result" where
  "memory_copy_write mem address sz buffer =
     (if sz = 0 then Inr mem
      else let amount = chunk_amount address sz
           in if length buffer < unat amount then Inl HostOverrun
              else bindR (store_bytes mem address (take (unat amount) buffer)) (\<lambda>mem'.
                memory_copy_write mem' (address + amount) (sz - amount)
                  (drop (unat amount) buffer)))"
  by pat_completeness auto
termination
  by (relation "measure (\<lambda>(mem, a, sz, buffer). unat sz)") (simp_all add: chunk_decreases)

function memory_copy_read :: "memory \<Rightarrow> u32 \<Rightarrow> u32 \<Rightarrow> u8 list result" where
  "memory_copy_read mem address sz =
     (if sz = 0 then Inr []
      else let amount = chunk_amount address sz
           in bindR (load_bytes mem address (unat amount)) (\<lambda>bs.
                bindR (memory_copy_read mem (address + amount) (sz - amount)) (\<lambda>rest.
                  Inr (bs @ rest))))"
  by pat_completeness auto
termination
  by (relation "measure (\<lambda>(mem, a, sz). unat sz)") (simp_all add: chunk_decreases)

text \<open>\<open>memset\<close> stores the low byte of its value argument.\<close>

function memory_set :: "memory \<Rightarrow> u32 \<Rightarrow> u32 \<Rightarrow> u32 \<Rightarrow> memory result" where
  "memory_set mem address sz v =
     (if sz = 0 then Inr mem
      else let amount = chunk_amount address sz
           in bindR (store_bytes mem address (replicate (unat amount) (ucast v))) (\<lambda>mem'.
                memory_set mem' (address + amount) (sz - amount) v))"
  by pat_completeness auto
termination
  by (relation "measure (\<lambda>(mem, a, sz, v). unat sz)") (simp_all add: chunk_decreases)

declare memory_copy_write.simps [simp del] memory_copy_read.simps [simp del]
  memory_set.simps [simp del]

text \<open>
  \<open>memory_delete\<close> frees the pages of each table, then the table; the model is the sequence of
  the pointers it passes to \<open>free\<close>, a page as its two indices, a table as its index.
\<close>

definition memory_delete :: "memory \<Rightarrow> (u32 \<times> u32 option) list" where
  "memory_delete mem =
     concat (map (\<lambda>t. case page_tables mem (of_nat t) of
         None \<Rightarrow> []
       | Some table \<Rightarrow>
           map (\<lambda>e. (of_nat t, Some (of_nat e))) (filter (\<lambda>e. table (of_nat e) \<noteq> None) [0..<1024])
           @ [(of_nat t, None)])
     [0..<1024])"

section \<open>The loops copy every byte\<close>

definition mapped_range :: "memory \<Rightarrow> u32 \<Rightarrow> u32 \<Rightarrow> bool" where
  "mapped_range mem a sz \<longleftrightarrow> (\<forall>k < unat sz. mapped mem (a + of_nat k))"

lemma range_split:
  assumes "(c :: u32) \<le> sz"
  shows "unat (x - (a + c)) < unat (sz - c) \<longleftrightarrow> unat c \<le> unat (x - a) \<and> unat (x - a) < unat sz"
    and "unat c \<le> unat (x - a) \<Longrightarrow> unat (x - (a + c)) = unat (x - a) - unat c"
proof -
  have d: "x - (a + c) = (x - a) - c" by simp
  have le: "unat c \<le> unat sz" using assms by (simp add: word_le_nat_alt)
  have sz: "unat (sz - c) = unat sz - unat c" using assms by (simp add: unat_sub)
  show "unat (x - (a + c)) < unat (sz - c) \<longleftrightarrow> unat c \<le> unat (x - a) \<and> unat (x - a) < unat sz"
    unfolding d sz using le unat_u32_less [of sz]
    by (simp only: unat_sub_if' [of "x - a" c]) (auto simp: not_le)
  show "unat (x - (a + c)) = unat (x - a) - unat c" if "unat c \<le> unat (x - a)"
    unfolding d using that by (simp only: unat_sub_if' [of "x - a" c]) simp
qed

lemma mapped_range_split:
  fixes a sz :: u32
  assumes "sz \<noteq> 0"
  defines "c \<equiv> chunk_amount a sz"
  shows "mapped_range mem a sz \<longleftrightarrow> mapped mem a \<and> mapped_range mem (a + c) (sz - c)"
proof -
  note b = chunk_amount_bounds [OF assms(1), of a, folded c_def]
  have lt: "unat c \<le> unat sz" using b(2) by (simp add: word_le_nat_alt)
  have page: "mapped mem (a + of_nat k) = mapped mem a" if "k < unat c" for k
    using mapped_in_page [OF b(4) that] by blast
  have shift: "a + c + of_nat k = a + of_nat (unat c + k)" for k by simp
  show ?thesis
  proof
    assume all: "mapped_range mem a sz"
    then have "mapped mem (a + of_nat 0)" using b(1) lt unfolding mapped_range_def
      by (metis gr_zeroI le_zero_eq less_numeral_extra(3))
    moreover have "mapped mem (a + c + of_nat k)" if "k < unat (sz - c)" for k
      unfolding shift using all that b(3) lt unfolding mapped_range_def
      by (simp del: of_nat_add)
    ultimately show "mapped mem a \<and> mapped_range mem (a + c) (sz - c)"
      by (simp add: mapped_range_def)
  next
    assume r: "mapped mem a \<and> mapped_range mem (a + c) (sz - c)"
    show "mapped_range mem a sz" unfolding mapped_range_def
    proof (intro allI impI)
      fix k assume k: "k < unat sz"
      show "mapped mem (a + of_nat k)"
      proof (cases "k < unat c")
        case True
        with page r show ?thesis by simp
      next
        case False
        then have "k - unat c < unat (sz - c)" using k b(3) by simp
        with r have "mapped mem (a + c + of_nat (k - unat c))"
          unfolding mapped_range_def by blast
        moreover have "unat c + (k - unat c) = k" using False by simp
        ultimately show ?thesis by (simp only: shift)
      qed
    qed
  qed
qed

lemma memory_copy_write_InrD:
  assumes "memory_copy_write mem a sz buffer = Inr mem'"
  shows "mapped mem' x = mapped mem x \<and>
    byte_at mem' x = (if unat (x - a) < unat sz then buffer ! unat (x - a) else byte_at mem x) \<and>
    heap_bounds mem' = heap_bounds mem"
  using assms
proof (induction mem a sz buffer rule: memory_copy_write.induct)
  case (1 mem a sz buffer)
  show ?case
  proof (cases "sz = 0")
    case True
    with 1 show ?thesis by (simp add: memory_copy_write.simps)
  next
    case False
    let ?c = "chunk_amount a sz"
    note b = chunk_amount_bounds [OF False, of a]
    from 1(2) False obtain m1 where len: "unat ?c \<le> length buffer"
      and st: "store_bytes mem a (take (unat ?c) buffer) = Inr m1"
      and rest: "memory_copy_write m1 (a + ?c) (sz - ?c) (drop (unat ?c) buffer) = Inr mem'"
      by (subst (asm) (2) memory_copy_write.simps)
         (auto simp: Let_def elim!: bindR_InrE split: if_splits)
    note IH = 1(1) [OF False refl _ st rest]
    have first: "byte_at m1 x = (if unat (x - a) < unat ?c then buffer ! unat (x - a) else byte_at mem x)"
      using paged.store_byte [OF st, of x] len by simp
    have le: "unat ?c \<le> unat sz" using b(2) by (simp add: word_le_nat_alt)
    show ?thesis
      using IH len first range_split [OF b(2), of x a] le
      by (auto simp: not_less store_bytes_InrD [OF st])
  qed
qed


lemma store_chunk:
  assumes "mapped mem a" "sz \<noteq> 0" "length bs = unat (chunk_amount a sz)"
  shows "\<exists>mem'. store_bytes mem a bs = Inr mem' \<and> mapped mem' = mapped mem"
proof -
  obtain mem' where "store_bytes mem a bs = Inr mem'"
    using paged.store_ok [of mem a bs] assms chunk_amount_bounds(4) by metis
  then show ?thesis using store_bytes_InrD(1) by blast
qed

lemma mapped_range_cong: "mapped mem' = mapped mem \<Longrightarrow> mapped_range mem' = mapped_range mem"
  by (simp add: mapped_range_def fun_eq_iff)

lemma memory_copy_write_result:
  assumes "unat sz \<le> length buffer"
  shows "(\<exists>mem'. memory_copy_write mem a sz buffer = Inr mem') \<and> mapped_range mem a sz \<or>
    memory_copy_write mem a sz buffer = Inl SegFault \<and> \<not> mapped_range mem a sz"
  using assms
proof (induction mem a sz buffer rule: memory_copy_write.induct)
  case (1 mem a sz buffer)
  show ?case
  proof (cases "sz = 0")
    case True
    then show ?thesis by (simp add: memory_copy_write.simps mapped_range_def)
  next
    case False
    let ?c = "chunk_amount a sz"
    note b = chunk_amount_bounds [OF False, of a]
    have le: "unat ?c \<le> unat sz" using b(2) by (simp add: word_le_nat_alt)
    note unfold = memory_copy_write.simps [of mem a sz buffer]
    show ?thesis
    proof (cases "mapped mem a")
      case unmapped: False
      then show ?thesis using False 1(2) le
        by (simp add: unfold Let_def paged.store_fault mapped_range_split [of sz])
    next
      case True
      have len: "length (take (unat ?c) buffer) = unat ?c" using 1(2) le by simp
      from store_chunk [OF True False len] obtain m1
        where st: "store_bytes mem a (take (unat ?c) buffer) = Inr m1"
          and mp: "mapped m1 = mapped mem" by blast
      have "unat (sz - ?c) \<le> length (drop (unat ?c) buffer)" using 1(2) b(3) by simp
      from 1(1) [OF False refl _ st this] show ?thesis
        using False 1(2) le st True
        by (simp add: unfold Let_def mapped_range_split [of sz] mapped_range_cong [OF mp])
    qed
  qed
qed

lemma memory_copy_read_eq:
  "memory_copy_read mem a sz =
     (if mapped_range mem a sz then Inr (map (\<lambda>k. byte_at mem (a + of_nat k)) [0..<unat sz])
      else Inl SegFault)"
proof (induction mem a sz rule: memory_copy_read.induct)
  case (1 mem a sz)
  show ?case
  proof (cases "sz = 0")
    case True
    then show ?thesis by (simp add: memory_copy_read.simps mapped_range_def)
  next
    case False
    let ?c = "chunk_amount a sz"
    note b = chunk_amount_bounds [OF False, of a]
    have le: "unat ?c \<le> unat sz" using b(2) by (simp add: word_le_nat_alt)
    have "[0..<unat sz] = [0..<unat ?c] @ [unat ?c..<unat ?c + (unat sz - unat ?c)]"
      using le by (metis le_add_diff_inverse upt_add_eq_append zero_le)
    also have "[unat ?c..<unat ?c + (unat sz - unat ?c)] =
        map (\<lambda>k. unat ?c + k) [0..<unat (sz - ?c)]"
      using b(3) by (simp add: map_add_upt add.commute)
    finally have bytes: "map (\<lambda>k. byte_at mem (a + of_nat k)) [0..<unat sz] =
        map (\<lambda>k. byte_at mem (a + of_nat k)) [0..<unat ?c] @
        map (\<lambda>k. byte_at mem (a + ?c + of_nat k)) [0..<unat (sz - ?c)]"
      by (simp add: comp_def add.assoc)
    show ?thesis
    proof (cases "mapped mem a")
      case unmapped: False
      with False show ?thesis
        by (simp add: memory_copy_read.simps [of mem a sz] Let_def paged.load_eq mapped_range_split)
    next
      case True
      then have ld: "load_bytes mem a (unat ?c) =
          Inr (map (\<lambda>k. byte_at mem (a + of_nat k)) [0..<unat ?c])"
        using b(4) by (simp add: paged.load_eq)
      from 1 [OF False refl ld] False True show ?thesis
        by (simp add: memory_copy_read.simps [of mem a sz] Let_def ld bytes
            mapped_range_split [of sz])
    qed
  qed
qed

text \<open>The fill loop is the copy loop from a buffer of equal bytes.\<close>

lemma memory_set_eq_copy:
  "memory_set mem a sz v = memory_copy_write mem a sz (replicate (unat sz) (ucast v))"
proof (induction mem a sz v rule: memory_set.induct)
  case (1 mem a sz v)
  show ?case
  proof (cases "sz = 0")
    case True
    then show ?thesis by (simp add: memory_set.simps memory_copy_write.simps)
  next
    case False
    let ?c = "chunk_amount a sz"
    note b = chunk_amount_bounds [OF False, of a]
    have le: "unat ?c \<le> unat sz" using b(2) by (simp add: word_le_nat_alt)
    have parts: "take (unat ?c) (replicate (unat sz) (ucast v)) = replicate (unat ?c) (ucast v)"
      "drop (unat ?c) (replicate (unat sz) (ucast v)) = replicate (unat (sz - ?c)) (ucast v :: u8)"
      using le b(3) by (simp_all add: min_def)
    show ?thesis
      unfolding memory_set.simps [of mem a sz v] memory_copy_write.simps [of mem a sz] Let_def parts
      using False 1 [OF False refl] le by (auto intro!: bindR_cong)
  qed
qed

end
