(* ===== verification/Memory_Spec.thy ===== *)
theory Memory_Spec
  imports Memory_Copy
begin

text \<open>
  The properties of the guest memory: translation, reads and writes, allocation, the copy
  loops and the final release. \<open>one_page\<close> is the memory the examples use.
\<close>

section \<open>Lemmas\<close>

definition one_page :: "page \<Rightarrow> memory" where
  "one_page pg = empty_memory\<lparr>page_tables := [0 \<mapsto> [0 \<mapsto> pg]]\<rparr>"

lemma one_page_flat:
  "mapped (one_page pg) a \<longleftrightarrow> unat a < 4096"
  "unat a < 4096 \<Longrightarrow> byte_at (one_page pg) a = pg (page_offset a)"
proof -
  have "mapped (one_page pg) a \<longleftrightarrow> pt_index a = pt_index 0 \<and> pe_index a = pe_index 0"
    by (simp add: mapped_def one_page_def page_at_def empty_memory_def pt_index_def pe_index_def)
  also have "\<dots> \<longleftrightarrow> unat a < 4096" unfolding same_page_iff by (simp add: div_eq_0_iff)
  finally show m: "mapped (one_page pg) a \<longleftrightarrow> unat a < 4096" .
  assume "unat a < 4096"
  then have "pt_index a = pt_index 0 \<and> pe_index a = pe_index 0"
    unfolding same_page_iff by simp
  then show "byte_at (one_page pg) a = pg (page_offset a)"
    by (simp add: byte_at_def one_page_def page_at_def empty_memory_def pt_index_def pe_index_def)
qed

lemma pt_index_inj:
  assumes "pt_index a = pt_index b" "pe_index a = pe_index b" "page_offset a = page_offset b"
  shows "a = b"
proof -
  from assms(1,2) have "unat a div 4096 = unat b div 4096" by (simp flip: same_page_iff)
  moreover from assms(3) have "unat a mod 4096 = unat b mod 4096" by (metis unat_page_offset)
  ultimately have "unat a = unat b" by (metis div_mult_mod_eq)
  then show ?thesis by (simp add: word_unat_eq_iff)
qed

lemma for_u32_fault:
  assumes "for_u32 first lim body s = Inl e" and "\<And>i s. body i s = Inl e \<Longrightarrow> P"
  shows P
  using assms
  by (induction first lim body s rule: for_u32.induct)
     (subst (asm) (2) for_u32.simps, auto split: if_splits simp: bindR_eq_Inl_iff)

lemma memory_allocate_fault:
  assumes "memory_allocate ca mem a sz = Inl e"
  shows "e = OutOfMemory"
proof -
  have page: "e = OutOfMemory" if "for_u32 f l (alloc_page ca t) m = Inl e" for f l t m
    using that by (rule for_u32_fault)
      (auto simp: alloc_page_def Let_def split: option.splits if_splits)
  have "e = OutOfMemory" if "alloc_in_table ca a sz t m = Inl e" for t m
    using that by (auto simp: alloc_in_table_def Let_def bindR_eq_Inl_iff alloc_table_def
        split: option.splits if_splits dest: page)
  with assms show ?thesis
    unfolding memory_allocate_def Let_def by (rule for_u32_fault)
qed

lemma memory_copy_write_length:
  "memory_copy_write mem a sz buffer = Inr mem' \<Longrightarrow> unat sz \<le> length buffer"
proof (induction mem a sz buffer rule: memory_copy_write.induct)
  case (1 mem a sz buffer)
  show ?case
  proof (cases "sz = 0")
    case False
    let ?c = "chunk_amount a sz"
    from 1(2) False obtain m1 where len: "unat ?c \<le> length buffer"
      and st: "store_bytes mem a (take (unat ?c) buffer) = Inr m1"
      and rest: "memory_copy_write m1 (a + ?c) (sz - ?c) (drop (unat ?c) buffer) = Inr mem'"
      by (subst (asm) (2) memory_copy_write.simps)
         (auto simp: Let_def elim!: bindR_InrE split: if_splits)
    from 1(1) [OF False refl _ st rest] len chunk_amount_bounds(3) [OF False, of a]
    show ?thesis by simp
  qed simp
qed

lemma memory_set_InrD:
  assumes "memory_set mem a sz v = Inr mem'"
  shows "mapped_range mem' a sz" "mapped mem' x = mapped mem x"
    "byte_at mem' x = (if unat (x - a) < unat sz then ucast v else byte_at mem x)"
    "heap_bounds mem' = heap_bounds mem"
proof -
  note w = assms [unfolded memory_set_eq_copy]
  note eff = memory_copy_write_InrD [OF w]
  have "mapped_range mem a sz"
    using memory_copy_write_result [of sz "replicate (unat sz) (ucast v)" mem a] w by auto
  with eff show "mapped_range mem' a sz" by (simp add: mapped_range_def)
  from eff [of x] show "mapped mem' x = mapped mem x" "heap_bounds mem' = heap_bounds mem"
    "byte_at mem' x = (if unat (x - a) < unat sz then ucast v else byte_at mem x)" by auto
qed

lemma memory_write_read_u32:
  "memory_write_u32 mem a w = Inr mem' \<Longrightarrow> memory_read_u32 mem' a = Inr w"
  unfolding memory_write_u32_def memory_read_u32_def by (rule paged.word_roundtrip) simp_all

lemma memory_write_read_u8:
  "memory_write_u8 mem a b = Inr mem' \<Longrightarrow> memory_read_u8 mem' a = Inr b"
  unfolding memory_write_u8_def memory_read_u8_def by (rule paged.word_roundtrip) simp_all

lemma memory_write_read_u16:
  "memory_write_u16 mem a h = Inr mem' \<Longrightarrow> memory_read_u16 mem' a = Inr h"
  unfolding memory_write_u16_def memory_read_u16_def by (rule paged.word_roundtrip) simp_all

lemma disjoint_regions_mono:
  "disjoint_regions a n b m \<Longrightarrow> n' \<le> n \<Longrightarrow> m' \<le> m \<Longrightarrow> disjoint_regions a n' b m'"
  by (simp add: disjoint_regions_def)

lemma unat_add_below:
  "unat (a :: u32) + n \<le> 2 ^ 32 \<Longrightarrow> j < n \<Longrightarrow> unat (a + of_nat j) = unat a + j"
  by (simp add: unat_word_ariths unat_of_nat)

lemma disjoint_regions_below:
  assumes "unat a + n \<le> unat b" "unat b + m \<le> 2 ^ 32"
  shows "disjoint_regions a n b m"
proof -
  have "unat (a + of_nat j) = unat a + j" if "j < n" for j
    by (rule unat_add_below [OF _ that]) (use assms in simp)
  moreover have "unat (b + of_nat k) = unat b + k" if "k < m" for k
    by (rule unat_add_below [OF assms(2) that])
  ultimately have "unat (a + of_nat j) < unat (b + of_nat k)" if "j < n" "k < m" for j k
    using assms(1) that by simp
  then show ?thesis unfolding disjoint_regions_def by fastforce
qed

lemma aligned_in_page:
  assumes "unat a mod 4 = 0"
  shows "in_page a 4"
proof -
  have "unat a mod 4096 mod 4 = 0" using assms by (simp add: mod_mod_cancel)
  then obtain k where k: "unat a mod 4096 = 4 * k" by auto
  have "unat a mod 4096 < 4096" by simp
  then show ?thesis unfolding in_page_def unat_page_offset k by simp
qed

lemma read_u32_iff:
  "memory_read_u32 mem a = Inr w \<longleftrightarrow>
     mapped mem a \<and> unat a mod 4096 \<le> 4092 \<and>
     (\<forall>i < 32. bit w i = bit (byte_at mem (a + of_nat (i div 8))) (i mod 8))"
proof -
  have bits: "(\<forall>i < 32. bit w i = bit (bs ! (i div 8)) (i mod 8)) \<longleftrightarrow> word_le bs = w"
    if "length bs = 4" for bs
  proof -
    have "word_le bs = w \<longleftrightarrow> (\<forall>i < 32. bit (word_le bs :: u32) i = bit w i)"
      by (auto intro: bit_word_eqI)
    with that show ?thesis by (auto simp: bit_word_le less_mult_imp_div_less)
  qed
  have "(word_le (map (\<lambda>k. byte_at mem (a + of_nat k)) [0..<4]) = w) \<longleftrightarrow>
      (\<forall>i < 32. bit w i = bit (byte_at mem (a + of_nat (i div 8))) (i mod 8))"
    by (subst bits [symmetric]) (simp_all add: less_mult_imp_div_less)
  moreover have "in_page a 4 \<longleftrightarrow> unat a mod 4096 \<le> 4092"
    by (auto simp: in_page_def unat_page_offset)
  ultimately show ?thesis
    by (auto simp: memory_read_u32_def load_bytes_eq)
qed

section \<open>Properties\<close>

text \<open>Two guest addresses that translate to the same host location are equal, and the
  indices stay inside the two tables and the page.\<close>

lemma find_page_injective:
  assumes "memory_find_page mem a = Inr (t, e, off)" and "memory_find_page mem b = Inr (t, e, off)"
  shows "a = b \<and> unat t < 1024 \<and> unat e < 1024 \<and> unat off < 4096"
  using assms pt_index_inj [of a b]
  by (auto simp: memory_find_page_eq pt_index_less pe_index_less page_offset_less split: if_splits)

lemma find_page_injective_witness:
  "memory_find_page (one_page (\<lambda>_. 0)) 20 = Inr (0, 0, 20) \<and> (20 :: u32) = 20"
proof -
  have eq: "memory_find_page (one_page (\<lambda>_. 0)) 20 = Inr (0, 0, 20)"
    by (simp add: memory_find_page_def one_page_def empty_memory_def memory_consts)
  show ?thesis using find_page_injective [OF eq eq] eq by simp
qed

text \<open>C17: a read of the width of a write at the same address returns what was written; it
  faults exactly where the write does.\<close>

theorem write_then_read:
  "bindR (memory_write_u8 mem a b) (\<lambda>m. memory_read_u8 m a) = bindR (memory_write_u8 mem a b) (\<lambda>_. Inr b) \<and>
   bindR (memory_write_u16 mem a h) (\<lambda>m. memory_read_u16 m a) = bindR (memory_write_u16 mem a h) (\<lambda>_. Inr h) \<and>
   bindR (memory_write_u32 mem a w) (\<lambda>m. memory_read_u32 m a) = bindR (memory_write_u32 mem a w) (\<lambda>_. Inr w)"
  by (intro conjI bindR_cong refl)
     (auto intro: memory_write_read_u8 memory_write_read_u16 memory_write_read_u32)

text \<open>C18: a 32-bit write changes no 8, 16 or 32-bit read whose 1, 2 or 4 bytes are disjoint from
  the 4 that it writes, nor the heap bounds.\<close>

theorem write_frame:
  assumes "memory_write_u32 mem a w = Inr mem'"
  shows "(disjoint_regions a 4 b 1 \<longrightarrow> memory_read_u8 mem' b = memory_read_u8 mem b) \<and>
    (disjoint_regions a 4 b 2 \<longrightarrow> memory_read_u16 mem' b = memory_read_u16 mem b) \<and>
    (disjoint_regions a 4 b 4 \<longrightarrow> memory_read_u32 mem' b = memory_read_u32 mem b) \<and>
    heap_bounds mem' = heap_bounds mem"
proof -
  note st = assms [unfolded memory_write_u32_def]
  have "load_bytes mem' b n = load_bytes mem b n" if "disjoint_regions a 4 b n" for n
    by (rule paged.load_after_disjoint_store [OF st]) (use that in simp)
  with store_bytes_InrD(3) [OF st] show ?thesis
    by (simp add: memory_read_u8_def memory_read_u16_def memory_read_u32_def)
qed

lemma write_frame_witness:
  "\<exists>mem'. memory_write_u32 (one_page (\<lambda>_. 0)) 8 0x01020304 = Inr mem' \<and>
     memory_read_u32 mem' 16 = memory_read_u32 (one_page (\<lambda>_. 0)) 16 \<and>
     memory_read_u8 mem' 7 = memory_read_u8 (one_page (\<lambda>_. 0)) 7"
proof -
  obtain mem' where st: "memory_write_u32 (one_page (\<lambda>_. 0)) 8 0x01020304 = Inr mem'"
    unfolding memory_write_u32_def
    using store_bytes_eq_Inr_iff [of "one_page (\<lambda>_. 0)" 8 "bytes_le 4 (0x01020304 :: u32)"]
    by (auto simp: one_page_flat in_page_def page_offset_def)
  have "disjoint_regions 8 4 16 4" by (rule disjoint_regions_below) simp_all
  moreover have "\<forall>j \<in> set [0..<4]. (8 :: u32) + of_nat j \<noteq> 7" by code_simp
  then have "disjoint_regions 8 4 7 1" by (simp add: disjoint_regions_def)
  ultimately show ?thesis using write_frame [OF st, of 16] write_frame [OF st, of 7] st by blast
qed

text \<open>A 32-bit read returns the four bytes at the address, the first the lowest; it
  succeeds exactly where the address is mapped and the word inside its page.\<close>

lemma read_u32_little_endian:
  "memory_read_u32 mem a = Inr w \<longleftrightarrow>
     mapped mem a \<and> unat a mod 4096 \<le> 4092 \<and>
     (\<forall>i < 32. bit w i = bit (byte_at mem (a + of_nat (i div 8))) (i mod 8))"
  by (rule read_u32_iff)

lemma read_u32_little_endian_witness:
  "memory_read_u32 (one_page (\<lambda>x. if x = 9 then 1 else 0)) 8 = Inr 0x100"
proof -
  have "bit (256 :: u32) i = bit (byte_at (one_page (\<lambda>x. if x = 9 then 1 else 0)) (8 + of_nat (i div 8))) (i mod 8)"
    if "i < 32" for i
  proof -
    have "i \<in> set [0..<32]" using that by simp
    then show ?thesis
      by (simp add: upt_rec one_page_flat page_offset_def) (elim disjE; simp add: one_page_flat page_offset_def)
  qed
  then show ?thesis
    by (subst read_u32_little_endian) (simp add: one_page_flat)
qed

text \<open>C15: an allocation maps exactly the pages from that of its first to that of its last byte;
  mapped bytes keep their value, new ones are zero, and the heap bounds stay.\<close>

theorem allocate_exact:
  assumes "memory_allocate ca mem a sz = Inr mem'"
  shows "(mapped mem' x \<longleftrightarrow>
       mapped mem x \<or> page_no a \<le> page_no x \<and> page_no x \<le> page_no (a + sz - 1)) \<and>
     byte_at mem' x = (if mapped mem x then byte_at mem x else 0) \<and>
     heap_bounds mem' = heap_bounds mem"
proof -
  have "byte_at mem x = 0" if "\<not> mapped mem x"
    using that by (simp add: byte_at_def mapped_def)
  with memory_allocate_flat [OF assms] show ?thesis by simp
qed

lemma allocate_exact_witness:
  "\<exists>mem'. memory_allocate (\<lambda>_ _. True) empty_memory 0x1000 0x2000 = Inr mem' \<and>
     mapped mem' 0x2fff \<and> \<not> mapped mem' 0x3000 \<and> byte_at mem' 0x2fff = 0"
proof -
  obtain mem' where m: "memory_allocate (\<lambda>_ _. True) empty_memory 0x1000 0x2000 = Inr mem'"
    using memory_allocate_total [of "\<lambda>_ _. True"] by blast
  have "\<not> mapped empty_memory x" for x
    by (simp add: mapped_def page_at_def empty_memory_def)
  with allocate_exact [OF m, of "0x2fff"] allocate_exact [OF m, of "0x3000"] m show ?thesis
    by (simp add: page_no_def)
qed

text \<open>An allocation can only fail for want of host memory.\<close>

lemma allocate_outcome:
  "case memory_allocate ca mem a sz of
     Inl e \<Rightarrow> e = OutOfMemory \<and> (\<exists>t i. \<not> ca t i)
   | Inr mem' \<Rightarrow> True"
proof (cases "memory_allocate ca mem a sz")
  case (Inl e)
  with memory_allocate_total [of ca mem a sz] have "\<exists>t i. \<not> ca t i" by auto
  with Inl show ?thesis by (simp add: memory_allocate_fault)
qed simp

text \<open>Copying a buffer into guest memory and out again returns the buffer, for every size
  and alignment.\<close>

lemma copy_roundtrip:
  "bindR (memory_copy_write mem a sz buffer) (\<lambda>m. memory_copy_read m a sz) =
   bindR (memory_copy_write mem a sz buffer) (\<lambda>_. Inr (take (unat sz) buffer))"
proof (intro bindR_cong refl)
  fix m assume w: "memory_copy_write mem a sz buffer = Inr m"
  note len = memory_copy_write_length [OF w] and eff = memory_copy_write_InrD [OF w]
  have "mapped_range mem a sz" using memory_copy_write_result [OF len, of mem a] w by auto
  then have "mapped_range m a sz" using eff by (simp add: mapped_range_def)
  moreover have "map (\<lambda>k. byte_at m (a + of_nat k)) [0..<unat sz] = take (unat sz) buffer"
  proof (rule nth_equalityI)
    fix k assume "k < length (map (\<lambda>k. byte_at m (a + of_nat k)) [0..<unat sz])"
    then have k: "k < unat sz" by simp
    then have "unat (of_nat k :: u32) = k" using unat_u32_less [of sz] by (simp add: unat_of_nat)
    with k len eff show "map (\<lambda>k. byte_at m (a + of_nat k)) [0..<unat sz] ! k = take (unat sz) buffer ! k"
      by simp
  qed (use len in simp)
  ultimately show "memory_copy_read m a sz = Inr (take (unat sz) buffer)"
    by (simp add: memory_copy_read_eq)
qed

text \<open>C16: the page-by-page copy writes exactly the bytes of its range, and faults exactly when
  one of them is not mapped.\<close>

theorem copy_write_outcome:
  assumes "unat sz \<le> length buffer"
  shows "if mapped_range mem a sz
    then \<exists>mem'. memory_copy_write mem a sz buffer = Inr mem' \<and> heap_bounds mem' = heap_bounds mem \<and>
      (\<forall>x. mapped mem' x = mapped mem x \<and>
        byte_at mem' x = (if unat (x - a) < unat sz then buffer ! unat (x - a) else byte_at mem x))
    else memory_copy_write mem a sz buffer = Inl SegFault"
  using memory_copy_write_result [OF assms, of mem a] memory_copy_write_InrD [of mem a sz buffer]
  by auto

lemma copy_write_outcome_witness:
  "\<exists>mem'. memory_copy_write (one_page (\<lambda>_. 0)) 10 3 [1, 2, 3] = Inr mem' \<and> byte_at mem' 11 = 2 \<and>
     byte_at mem' 13 = 0"
proof -
  have "unat (3 :: u32) \<le> length [1, 2, 3 :: u8]" by simp
  note out = copy_write_outcome [OF this, of "one_page (\<lambda>_. 0)" 10]
  have "unat (10 + of_nat k :: u32) < 4096" if "k < 3" for k
    using that by (simp add: unat_word_ariths unat_of_nat)
  then have "mapped_range (one_page (\<lambda>_. 0)) 10 3"
    by (simp add: mapped_range_def one_page_flat)
  with out obtain mem' where m: "memory_copy_write (one_page (\<lambda>_. 0)) 10 3 [1, 2, 3] = Inr mem'"
    "\<And>x. byte_at mem' x = (if unat (x - 10) < unat (3 :: u32) then [1, 2, 3] ! unat (x - 10)
       else byte_at (one_page (\<lambda>_. 0)) x)" by auto
  have "byte_at mem' 11 = 2" "byte_at mem' 13 = 0" using m(2) by (simp_all add: one_page_flat)
  with m(1) show ?thesis by blast
qed

text \<open>\<open>memory_set\<close> fills exactly its range with the low byte of its argument.\<close>

lemma memory_set_outcome:
  "if mapped_range mem a sz
   then \<exists>mem'. memory_set mem a sz v = Inr mem' \<and> heap_bounds mem' = heap_bounds mem \<and>
     (\<forall>x. mapped mem' x = mapped mem x \<and>
       byte_at mem' x = (if unat (x - a) < unat sz then ucast v else byte_at mem x))
   else memory_set mem a sz v = Inl SegFault"
  using memory_copy_write_result [of sz "replicate (unat sz) (ucast v)" mem a]
    memory_copy_write_InrD [of mem a sz "replicate (unat sz) (ucast v)"]
  by (auto simp: memory_set_eq_copy)

section \<open>Releasing the memory\<close>

definition freed_table :: "memory \<Rightarrow> nat \<Rightarrow> (u32 \<times> u32 option) list" where
  "freed_table mem t =
     (case page_tables mem (of_nat t) of
        None \<Rightarrow> []
      | Some table \<Rightarrow>
          map (\<lambda>e. (of_nat t, Some (of_nat e))) (filter (\<lambda>e. table (of_nat e) \<noteq> None) [0..<1024])
          @ [(of_nat t, None)])"

lemma memory_delete_tables: "memory_delete mem = concat (map (freed_table mem) [0..<1024])"
  unfolding memory_delete_def freed_table_def ..

lemma small_of_nat: "k < 1024 \<Longrightarrow> unat (of_nat k :: u32) = k"
  by (rule unat_of_nat_page [of _ 1024]) simp_all

lemma of_nat_small_inj:
  "j < 1024 \<Longrightarrow> k < 1024 \<Longrightarrow> (of_nat j :: u32) = of_nat k \<longleftrightarrow> j = k"
  using small_of_nat by metis

lemma small_image:
  "(\<lambda>k. of_nat k :: u32) ` {k. k < 1024 \<and> P (of_nat k)} = {x. unat x < 1024 \<and> P x}"
proof (intro equalityI subsetI)
  fix x :: u32 assume "x \<in> {x. unat x < 1024 \<and> P x}"
  then show "x \<in> (\<lambda>k. of_nat k) ` {k. k < 1024 \<and> P (of_nat k)}"
    by (intro image_eqI [of _ _ "unat x"]) simp_all
qed (auto simp: small_of_nat)

lemma upt_split: "k < n \<Longrightarrow> [0..<n] = [0..<k] @ k # [Suc k..<n]"
  by (metis less_imp_add_positive upt_add_eq_append upt_conv_Cons zero_le)

lemma freed_table_set:
  "set (freed_table mem t) =
     {(of_nat t, None) | u :: unit. page_tables mem (of_nat t) \<noteq> None} \<union>
     Pair (of_nat t) ` Some ` {e. unat e < 1024 \<and> page_at mem (of_nat t) e \<noteq> None}"
proof (cases "page_tables mem (of_nat t)")
  case (Some table)
  note small = small_image [of "\<lambda>x. table x \<noteq> None"]
  from Some have "set (freed_table mem t) = insert (of_nat t, None)
      (Pair (of_nat t) ` Some ` (\<lambda>k. of_nat k) ` {k. k < 1024 \<and> table (of_nat k) \<noteq> None})"
    by (simp add: freed_table_def image_image)
  with Some show ?thesis unfolding small by (simp add: page_at_def)
qed (simp add: freed_table_def page_at_def)

lemma freed_table_distinct: "distinct (freed_table mem t)"
  by (auto simp: freed_table_def distinct_map inj_on_def of_nat_small_inj split: option.splits)

lemma freed_tables_distinct: "distinct (concat (map (freed_table mem) [m..<n]))" if "n \<le> 1024"
  using that
proof (induction n)
  case (Suc n)
  have "set (freed_table mem n) \<inter> set (freed_table mem k) = {}" if "k < n" for k
    using that Suc.prems of_nat_small_inj [of n k] by (auto simp: freed_table_set)
  then have "\<forall>k \<in> {m..<n}. set (freed_table mem n) \<inter> set (freed_table mem k) = {}" by simp
  then have "set (freed_table mem n) \<inter> set (concat (map (freed_table mem) [m..<n])) = {}" by fastforce
  moreover have "distinct (concat (map (freed_table mem) [m..<n]))" using Suc by simp
  ultimately show ?case by (simp add: freed_table_distinct Int_commute)
qed simp

lemma memory_delete_member:
  "p \<in> set (memory_delete mem) \<longleftrightarrow> (\<exists>k < 1024. p \<in> set (freed_table mem k))"
  by (auto simp: memory_delete_tables)

lemma memory_delete_set:
  "set (memory_delete mem) =
     {(t, None) | t. unat t < 1024 \<and> page_tables mem t \<noteq> None} \<union>
     {(t, Some e) | t e. unat t < 1024 \<and> unat e < 1024 \<and> page_at mem t e \<noteq> None}"
proof (intro equalityI subsetI)
  fix p assume "p \<in> set (memory_delete mem)"
  then show "p \<in> {(t, None) | t. unat t < 1024 \<and> page_tables mem t \<noteq> None} \<union>
      {(t, Some e) | t e. unat t < 1024 \<and> unat e < 1024 \<and> page_at mem t e \<noteq> None}"
    by (auto simp: memory_delete_member freed_table_set small_of_nat)
next
  fix p assume p: "p \<in> {(t, None) | t. unat t < 1024 \<and> page_tables mem t \<noteq> None} \<union>
      {(t, Some e) | t e. unat t < 1024 \<and> unat e < 1024 \<and> page_at mem t e \<noteq> None}"
  then have "unat (fst p) < 1024" by auto
  moreover from p have "p \<in> set (freed_table mem (unat (fst p)))" by (auto simp: freed_table_set)
  ultimately show "p \<in> set (memory_delete mem)" by (auto simp: memory_delete_member)
qed

lemma memory_delete_order:
  assumes "(t, Some e) \<in> set (memory_delete mem)"
  shows "(t, Some e) \<in> set (takeWhile (\<lambda>p. p \<noteq> (t, None)) (memory_delete mem))"
proof -
  from assms obtain k where k: "k < 1024" "(t, Some e) \<in> set (freed_table mem k)" by (auto simp: memory_delete_member)
  then obtain table where table: "page_tables mem t = Some table" and t: "t = of_nat k"
    by (auto simp: freed_table_set page_at_def split: option.splits)
  define pages where "pages = map (\<lambda>e. (t, Some (of_nat e :: u32))) (filter (\<lambda>e. table (of_nat e) \<noteq> None) [0..<1024])"
  have own: "freed_table mem k = pages @ [(t, None)]"
    using table t by (simp add: freed_table_def pages_def)
  have "[0..<1024] = [0..<k] @ k # [Suc k..<1024]"
    by (rule upt_split) (rule k(1))
  then have "memory_delete mem = concat (map (freed_table mem) [0..<k]) @ pages @ (t, None) #
      concat (map (freed_table mem) [Suc k..<1024])"
    by (simp add: memory_delete_tables own)
  moreover have "p \<noteq> (t, None)" if "p \<in> set (concat (map (freed_table mem) [0..<k]) @ pages)" for p
    using that t k(1) by (auto simp: pages_def freed_table_set of_nat_small_inj)
  ultimately have "takeWhile (\<lambda>p. p \<noteq> (t, None)) (memory_delete mem) =
      concat (map (freed_table mem) [0..<k]) @ pages"
    by (simp flip: append_assoc add: takeWhile_tail)
  with k(2) show "(t, Some e) \<in> set (takeWhile (\<lambda>p. p \<noteq> (t, None)) (memory_delete mem))"
    by (auto simp: own)
qed

text \<open>C38: the final release frees every page and every page table exactly once, nothing else, and
  each page before the table that points to it.\<close>

theorem delete_frees_once:
  "distinct (memory_delete mem) \<and>
   set (memory_delete mem) =
     {(t, None) | t. unat t < 1024 \<and> page_tables mem t \<noteq> None} \<union>
     {(t, Some e) | t e. unat t < 1024 \<and> unat e < 1024 \<and> page_at mem t e \<noteq> None} \<and>
   ((t, Some e) \<in> set (memory_delete mem) \<longrightarrow>
      (t, Some e) \<in> set (takeWhile (\<lambda>p. p \<noteq> (t, None)) (memory_delete mem)))"
  using memory_delete_set memory_delete_order
  by (auto simp del: not_None_eq simp: memory_delete_tables freed_tables_distinct)

lemma delete_frees_once_witness:
  "(0, Some 0) \<in> set (takeWhile (\<lambda>p. p \<noteq> (0, None)) (memory_delete (one_page (\<lambda>_. 7))))"
proof -
  have "(0, Some 0) \<in> set (memory_delete (one_page (\<lambda>_. 7)))"
    using delete_frees_once [of "one_page (\<lambda>_. 7)" 0 0]
    by (simp add: one_page_def page_at_def empty_memory_def)
  with delete_frees_once [of "one_page (\<lambda>_. 7)" 0 0] show ?thesis by simp
qed

end
