(* ===== verification/Cpu.thy ===== *)
theory Cpu
  imports Prelude
begin

text \<open>
  The processor state of \<open>src/mips.h\<close> and the instruction fields and opcodes of
  \<open>src/common.h\<close>. The register file is an array of \<open>MIPS_R_REG_MAX\<close> words indexed by
  \<open>enum MIPS_REG\<close>; it is modelled as a function of the index, so that an access beyond the
  array would be visible, and the components prove that there is none. The build defines
  neither \<open>LOAD_DELAY_ENABLE\<close> nor \<open>__LOAD_DELAY__\<close>: \<open>load_d\<close> and \<open>load_v\<close> do not exist
  in this record; \<open>Load_Delay\<close> extends it for the build that has them.
\<close>

section \<open>Register numbers\<close>

definition MIPS_R_ZERO :: nat where "MIPS_R_ZERO = 0"
definition MIPS_R_AT :: nat where "MIPS_R_AT = 1"
definition MIPS_R_V0 :: nat where "MIPS_R_V0 = 2"
definition MIPS_R_V1 :: nat where "MIPS_R_V1 = 3"
definition MIPS_R_A0 :: nat where "MIPS_R_A0 = 4"
definition MIPS_R_A1 :: nat where "MIPS_R_A1 = 5"
definition MIPS_R_A2 :: nat where "MIPS_R_A2 = 6"
definition MIPS_R_A3 :: nat where "MIPS_R_A3 = 7"
definition MIPS_R_T0 :: nat where "MIPS_R_T0 = 8"
definition MIPS_R_T1 :: nat where "MIPS_R_T1 = 9"
definition MIPS_R_T2 :: nat where "MIPS_R_T2 = 10"
definition MIPS_R_T3 :: nat where "MIPS_R_T3 = 11"
definition MIPS_R_T4 :: nat where "MIPS_R_T4 = 12"
definition MIPS_R_T5 :: nat where "MIPS_R_T5 = 13"
definition MIPS_R_T6 :: nat where "MIPS_R_T6 = 14"
definition MIPS_R_T7 :: nat where "MIPS_R_T7 = 15"
definition MIPS_R_S0 :: nat where "MIPS_R_S0 = 16"
definition MIPS_R_S1 :: nat where "MIPS_R_S1 = 17"
definition MIPS_R_S2 :: nat where "MIPS_R_S2 = 18"
definition MIPS_R_S3 :: nat where "MIPS_R_S3 = 19"
definition MIPS_R_S4 :: nat where "MIPS_R_S4 = 20"
definition MIPS_R_S5 :: nat where "MIPS_R_S5 = 21"
definition MIPS_R_S6 :: nat where "MIPS_R_S6 = 22"
definition MIPS_R_S7 :: nat where "MIPS_R_S7 = 23"
definition MIPS_R_T8 :: nat where "MIPS_R_T8 = 24"
definition MIPS_R_T9 :: nat where "MIPS_R_T9 = 25"
definition MIPS_R_K0 :: nat where "MIPS_R_K0 = 26"
definition MIPS_R_K1 :: nat where "MIPS_R_K1 = 27"
definition MIPS_R_GP :: nat where "MIPS_R_GP = 28"
definition MIPS_R_SP :: nat where "MIPS_R_SP = 29"
definition MIPS_R_FP :: nat where "MIPS_R_FP = 30"
definition MIPS_R_RA :: nat where "MIPS_R_RA = 31"
definition MIPS_R_HI :: nat where "MIPS_R_HI = 32"
definition MIPS_R_LO :: nat where "MIPS_R_LO = 33"
definition MIPS_R_PC :: nat where "MIPS_R_PC = 34"
definition MIPS_R_NPC :: nat where "MIPS_R_NPC = 35"
definition MIPS_R_NNPC :: nat where "MIPS_R_NNPC = 36"
definition MIPS_R_CIR :: nat where "MIPS_R_CIR = 37"
definition MIPS_R_GARBAGE :: nat where "MIPS_R_GARBAGE = 38"
definition MIPS_R_REG_MAX :: nat where "MIPS_R_REG_MAX = 39"

lemmas register_numbers [simp] =
  MIPS_R_ZERO_def MIPS_R_AT_def MIPS_R_V0_def MIPS_R_V1_def MIPS_R_A0_def MIPS_R_A1_def
  MIPS_R_A2_def MIPS_R_A3_def MIPS_R_T0_def MIPS_R_T1_def MIPS_R_T2_def MIPS_R_T3_def
  MIPS_R_T4_def MIPS_R_T5_def MIPS_R_T6_def MIPS_R_T7_def MIPS_R_S0_def MIPS_R_S1_def
  MIPS_R_S2_def MIPS_R_S3_def MIPS_R_S4_def MIPS_R_S5_def MIPS_R_S6_def MIPS_R_S7_def
  MIPS_R_T8_def MIPS_R_T9_def MIPS_R_K0_def MIPS_R_K1_def MIPS_R_GP_def MIPS_R_SP_def
  MIPS_R_FP_def MIPS_R_RA_def MIPS_R_HI_def MIPS_R_LO_def MIPS_R_PC_def MIPS_R_NPC_def
  MIPS_R_NNPC_def MIPS_R_CIR_def MIPS_R_GARBAGE_def MIPS_R_REG_MAX_def

section \<open>Instruction fields\<close>

definition FN_SHIFT :: nat where "FN_SHIFT = 0"
definition FN_MASK :: u32 where "FN_MASK = 0x3f"
definition SH_SHIFT :: nat where "SH_SHIFT = 6"
definition SH_MASK :: u32 where "SH_MASK = 0x1f"
definition RD_SHIFT :: nat where "RD_SHIFT = 11"
definition RD_MASK :: u32 where "RD_MASK = 0x1f"
definition RT_SHIFT :: nat where "RT_SHIFT = 16"
definition RT_MASK :: u32 where "RT_MASK = 0x1f"
definition RS_SHIFT :: nat where "RS_SHIFT = 21"
definition RS_MASK :: u32 where "RS_MASK = 0x1f"
definition OP_SHIFT :: nat where "OP_SHIFT = 26"
definition OP_MASK :: u32 where "OP_MASK = 0x3f"
definition IMM16_SHIFT :: nat where "IMM16_SHIFT = 0"
definition IMM16_MASK :: u32 where "IMM16_MASK = 0xffff"
definition IMM20_SHIFT :: nat where "IMM20_SHIFT = 0"
definition IMM20_MASK :: u32 where "IMM20_MASK = 0xfffff"
definition IMM26_SHIFT :: nat where "IMM26_SHIFT = 0"
definition IMM26_MASK :: u32 where "IMM26_MASK = 0x3ffffff"

lemmas field_consts =
  FN_SHIFT_def FN_MASK_def SH_SHIFT_def SH_MASK_def RD_SHIFT_def RD_MASK_def
  RT_SHIFT_def RT_MASK_def RS_SHIFT_def RS_MASK_def OP_SHIFT_def OP_MASK_def
  IMM16_SHIFT_def IMM16_MASK_def IMM20_SHIFT_def IMM20_MASK_def IMM26_SHIFT_def
  IMM26_MASK_def

text \<open>\<open>(cir >> SHIFT) & MASK\<close>.\<close>

definition field :: "nat \<Rightarrow> u32 \<Rightarrow> u32 \<Rightarrow> u32" where
  "field shift msk cir = drop_bit shift cir AND msk"

section \<open>Opcodes and function codes\<close>

definition ADD_FN :: u32 where "ADD_FN = 0x20"
definition ADDU_FN :: u32 where "ADDU_FN = 0x21"
definition SUB_FN :: u32 where "SUB_FN = 0x22"
definition SUBU_FN :: u32 where "SUBU_FN = 0x23"
definition AND_FN :: u32 where "AND_FN = 0x24"
definition OR_FN :: u32 where "OR_FN = 0x25"
definition XOR_FN :: u32 where "XOR_FN = 0x26"
definition NOR_FN :: u32 where "NOR_FN = 0x27"
definition SLT_FN :: u32 where "SLT_FN = 0x2a"
definition SLTU_FN :: u32 where "SLTU_FN = 0x2b"
definition ADDI_OP :: u32 where "ADDI_OP = 0x08"
definition ADDIU_OP :: u32 where "ADDIU_OP = 0x09"
definition SLTI_OP :: u32 where "SLTI_OP = 0x0a"
definition SLTIU_OP :: u32 where "SLTIU_OP = 0x0b"
definition ANDI_OP :: u32 where "ANDI_OP = 0x0c"
definition ORI_OP :: u32 where "ORI_OP = 0x0d"
definition XORI_OP :: u32 where "XORI_OP = 0x0e"
definition BEQ_OP :: u32 where "BEQ_OP = 0x4"
definition BNE_OP :: u32 where "BNE_OP = 0x5"
definition BLEZ_OP :: u32 where "BLEZ_OP = 0x06"
definition BGTZ_OP :: u32 where "BGTZ_OP = 0x07"
definition BLTZ_RT :: u32 where "BLTZ_RT = 0x00"
definition BGEZ_RT :: u32 where "BGEZ_RT = 0x01"
definition BLTZAL_RT :: u32 where "BLTZAL_RT = 0x10"
definition BGEZAL_RT :: u32 where "BGEZAL_RT = 0x11"
definition J_OP :: u32 where "J_OP = 0x2"
definition JAL_OP :: u32 where "JAL_OP = 0x3"
definition JALR_FN :: u32 where "JALR_FN = 0x9"
definition JR_FN :: u32 where "JR_FN = 0x8"
definition LB_OP :: u32 where "LB_OP = 0x20"
definition LH_OP :: u32 where "LH_OP = 0x21"
definition LWL_OP :: u32 where "LWL_OP = 0x22"
definition LW_OP :: u32 where "LW_OP = 0x23"
definition LBU_OP :: u32 where "LBU_OP = 0x24"
definition LHU_OP :: u32 where "LHU_OP = 0x25"
definition LWR_OP :: u32 where "LWR_OP = 0x26"
definition LUI_OP :: u32 where "LUI_OP = 0xf"
definition MFHI_FN :: u32 where "MFHI_FN = 0x10"
definition MFLO_FN :: u32 where "MFLO_FN = 0x12"
definition MTHI_FN :: u32 where "MTHI_FN = 0x11"
definition MTLO_FN :: u32 where "MTLO_FN = 0x13"
definition MULT_FN :: u32 where "MULT_FN = 0x18"
definition MULTU_FN :: u32 where "MULTU_FN = 0x19"
definition DIV_FN :: u32 where "DIV_FN = 0x1a"
definition DIVU_FN :: u32 where "DIVU_FN = 0x1b"
definition SLL_FN :: u32 where "SLL_FN = 0x0"
definition SRL_FN :: u32 where "SRL_FN = 0x2"
definition SRA_FN :: u32 where "SRA_FN = 0x3"
definition SLLV_FN :: u32 where "SLLV_FN = 0x4"
definition SRLV_FN :: u32 where "SRLV_FN = 0x6"
definition SRAV_FN :: u32 where "SRAV_FN = 0x7"
definition SB_OP :: u32 where "SB_OP = 0x28"
definition SH_OP :: u32 where "SH_OP = 0x29"
definition SWL_OP :: u32 where "SWL_OP = 0x2a"
definition SW_OP :: u32 where "SW_OP = 0x2b"
definition SWR_OP :: u32 where "SWR_OP = 0x2e"
definition SYSCALL_FN :: u32 where "SYSCALL_FN = 0xc"
definition BRK_FN :: u32 where "BRK_FN = 0xd"
definition RDHWR_OP :: u32 where "RDHWR_OP = 0x1f"
definition SPECIAL_FN :: u32 where "SPECIAL_FN = 0xf"
definition LL_OP :: u32 where "LL_OP = 0x30"
definition SC_OP :: u32 where "SC_OP = 0x38"

lemmas opcode_consts =
  ADD_FN_def ADDU_FN_def SUB_FN_def SUBU_FN_def AND_FN_def OR_FN_def XOR_FN_def
  NOR_FN_def SLT_FN_def SLTU_FN_def ADDI_OP_def ADDIU_OP_def SLTI_OP_def SLTIU_OP_def
  ANDI_OP_def ORI_OP_def XORI_OP_def BEQ_OP_def BNE_OP_def BLEZ_OP_def BGTZ_OP_def
  BLTZ_RT_def BGEZ_RT_def BLTZAL_RT_def BGEZAL_RT_def J_OP_def JAL_OP_def JALR_FN_def
  JR_FN_def LB_OP_def LH_OP_def LWL_OP_def LW_OP_def LBU_OP_def LHU_OP_def LWR_OP_def
  LUI_OP_def MFHI_FN_def MFLO_FN_def MTHI_FN_def MTLO_FN_def MULT_FN_def MULTU_FN_def
  DIV_FN_def DIVU_FN_def SLL_FN_def SRL_FN_def SRA_FN_def SLLV_FN_def SRLV_FN_def
  SRAV_FN_def SB_OP_def SH_OP_def SWL_OP_def SW_OP_def SWR_OP_def SYSCALL_FN_def
  BRK_FN_def RDHWR_OP_def SPECIAL_FN_def LL_OP_def SC_OP_def

section \<open>Processor state\<close>

record mips =
  regs :: "nat \<Rightarrow> u32"
  status :: u32
  tidptr :: u32
  user_local_ptr :: u32
  branched :: bool
  halted :: bool

text \<open>\<open>struct mips mips = {}\<close>.\<close>

definition zero_mips :: mips where
  "zero_mips = \<lparr>regs = (\<lambda>_. 0), status = 0, tidptr = 0, user_local_ptr = 0,
     branched = False, halted = False\<rparr>"

definition set_reg :: "nat \<Rightarrow> u32 \<Rightarrow> mips \<Rightarrow> mips" where
  "set_reg i v m = m\<lparr>regs := (regs m)(i := v)\<rparr>"

definition INCREMENT_PC :: "mips \<Rightarrow> mips" where
  "INCREMENT_PC m =
     (let m = set_reg MIPS_R_PC (regs m MIPS_R_NPC) m;
          m = set_reg MIPS_R_NPC (regs m MIPS_R_NNPC) m
      in set_reg MIPS_R_NNPC (regs m MIPS_R_NNPC + 4) m)"

section \<open>Lemmas\<close>

lemma set_reg_simps [simp]:
  "regs (set_reg i v m) = (regs m)(i := v)"
  "status (set_reg i v m) = status m"
  "tidptr (set_reg i v m) = tidptr m"
  "user_local_ptr (set_reg i v m) = user_local_ptr m"
  "branched (set_reg i v m) = branched m"
  "halted (set_reg i v m) = halted m"
  by (simp_all add: set_reg_def)

lemma set_reg_twice [simp]: "set_reg i v (set_reg i w m) = set_reg i v m"
  by (simp add: set_reg_def)

lemma set_reg_commute: "i \<noteq> j \<Longrightarrow> set_reg i v (set_reg j w m) = set_reg j w (set_reg i v m)"
  by (simp add: set_reg_def fun_upd_twist)

lemma set_reg_branched [simp]: "(set_reg i v m)\<lparr>branched := b\<rparr> = set_reg i v (m\<lparr>branched := b\<rparr>)"
  by (simp add: set_reg_def)

lemma INCREMENT_PC_simps [simp]:
  "regs (INCREMENT_PC m) =
     (regs m)(MIPS_R_PC := regs m MIPS_R_NPC, MIPS_R_NPC := regs m MIPS_R_NNPC,
              MIPS_R_NNPC := regs m MIPS_R_NNPC + 4)"
  "status (INCREMENT_PC m) = status m"
  "tidptr (INCREMENT_PC m) = tidptr m"
  "user_local_ptr (INCREMENT_PC m) = user_local_ptr m"
  "branched (INCREMENT_PC m) = branched m"
  "halted (INCREMENT_PC m) = halted m"
  by (simp_all add: INCREMENT_PC_def fun_eq_iff)

lemma field_less:
  assumes "unat msk < n"
  shows "unat (field shift msk cir) < n"
proof -
  have "field shift msk cir \<le> msk" by (simp add: field_def word_and_le1)
  with assms show ?thesis by (simp add: word_le_nat_alt)
qed

end
