(* ===== verification/Machine.thy ===== *)
theory Machine
  imports Cpu Memory_Copy
begin

text \<open>
  The emulator's state as the interpreters see it: the processor, the guest memory and the
  host. The host operating system and C library are not part of the repository: they are the
  functions of a record \<open>os\<close> over an abstract host state, passed to every definition that
  calls the host. \<open>os_calloc\<close> and \<open>os_malloc\<close> say which allocations succeed, as functions of
  the requested size: within a run an allocation of a given size always succeeds or always fails.
  The theorems hold for all such functions, failing ones included. The others
  return what the host call returns and the host state after it.
\<close>

record 'h machine =
  cpu :: mips
  gmem :: memory
  hstate :: 'h

record 'h os =
  os_calloc :: calloc
  os_malloc :: "nat \<Rightarrow> bool"
  os_read :: "'h \<Rightarrow> u32 \<Rightarrow> u32 \<Rightarrow> u64 \<times> u8 list \<times> 'h"
  os_write :: "'h \<Rightarrow> u32 \<Rightarrow> u8 list \<Rightarrow> u64 \<times> 'h"
  os_open :: "'h \<Rightarrow> u8 list \<Rightarrow> u32 \<Rightarrow> u32 option \<Rightarrow> u32 \<times> 'h"
  os_close :: "'h \<Rightarrow> u32 \<Rightarrow> u32 \<times> 'h"
  os_lseek :: "'h \<Rightarrow> u32 \<Rightarrow> u64 \<Rightarrow> u32 \<Rightarrow> u64 \<times> 'h"
  os_winsize :: "'h \<Rightarrow> u32 \<Rightarrow> (u16 \<times> u16 \<times> u16 \<times> u16) option \<times> 'h"
  os_clock :: "'h \<Rightarrow> u32 \<Rightarrow> (u64 \<times> u64) option \<times> 'h"

definition upd_cpu :: "(mips \<Rightarrow> mips) \<Rightarrow> 'h machine \<Rightarrow> 'h machine" where
  "upd_cpu f s = s\<lparr>cpu := f (cpu s)\<rparr>"

definition upd_mem :: "(memory \<Rightarrow> memory result) \<Rightarrow> 'h machine \<Rightarrow> 'h machine result" where
  "upd_mem f s = bindR (f (gmem s)) (\<lambda>m. Inr (s\<lparr>gmem := m\<rparr>))"

definition put_reg :: "nat \<Rightarrow> u32 \<Rightarrow> 'h machine \<Rightarrow> 'h machine" where
  "put_reg i v = upd_cpu (set_reg i v)"

definition get_reg :: "nat \<Rightarrow> 'h machine \<Rightarrow> u32" where
  "get_reg i s = regs (cpu s) i"

lemma upd_cpu_simps [simp]:
  "cpu (upd_cpu f s) = f (cpu s)" "gmem (upd_cpu f s) = gmem s" "hstate (upd_cpu f s) = hstate s"
  by (simp_all add: upd_cpu_def)

lemma put_reg_simps [simp]:
  "cpu (put_reg i v s) = set_reg i v (cpu s)" "gmem (put_reg i v s) = gmem s"
  "hstate (put_reg i v s) = hstate s"
  by (simp_all add: put_reg_def)

lemma upd_mem_InrE:
  assumes "upd_mem f s = Inr s'"
  obtains m where "f (gmem s) = Inr m" "s' = s\<lparr>gmem := m\<rparr>"
  using assms by (auto simp: upd_mem_def elim: bindR_InrE)

end
