(* ===== verification/Syscalls.thy ===== *)
theory Syscalls
  imports Machine
begin

text \<open>
  The Linux system calls of \<open>src/syscalls.h\<close>, one definition per \<open>mips_syscall_\<close> function.
  The arguments are the values of the registers \<open>a0\<close> to \<open>a3\<close>. A failed host allocation and
  every \<open>assert(0)\<close> is the fault \<open>AssertFailed\<close>; the release of the host buffers has no
  effect on the model.
\<close>

section \<open>Numbers\<close>

definition NR_exit :: u32 where "NR_exit = 4001"
definition NR_read :: u32 where "NR_read = 4003"
definition NR_write :: u32 where "NR_write = 4004"
definition NR_open :: u32 where "NR_open = 4005"
definition NR_close :: u32 where "NR_close = 4006"
definition NR_lseek :: u32 where "NR_lseek = 4019"
definition NR_brk :: u32 where "NR_brk = 4045"
definition NR_ioctl :: u32 where "NR_ioctl = 4054"
definition NR_munmap :: u32 where "NR_munmap = 4091"
definition NR_mprotect :: u32 where "NR_mprotect = 4125"
definition NR_writev :: u32 where "NR_writev = 4146"
definition NR_mmap2 :: u32 where "NR_mmap2 = 4210"
definition NR_exit_group :: u32 where "NR_exit_group = 4246"
definition NR_set_tid_address :: u32 where "NR_set_tid_address = 4252"
definition NR_set_thread_area :: u32 where "NR_set_thread_area = 4283"
definition NR_clock_gettime64 :: u32 where "NR_clock_gettime64 = 4403"

lemmas syscall_numbers =
  NR_exit_def NR_read_def NR_write_def NR_open_def NR_close_def NR_lseek_def NR_brk_def
  NR_ioctl_def NR_munmap_def NR_mprotect_def NR_writev_def NR_mmap2_def
  NR_exit_group_def NR_set_tid_address_def NR_set_thread_area_def NR_clock_gettime64_def

text \<open>The host's \<open>O_CREAT\<close> (Linux on x86-64). The file mode mask \<open>0777\<close> is \<open>0x1ff\<close>.\<close>

definition O_CREAT :: u32 where "O_CREAT = 0x40"

section \<open>Processes\<close>

definition mips_syscall_exit :: "'h machine \<Rightarrow> u32 \<Rightarrow> 'h machine result" where
  "mips_syscall_exit s st = Inr (upd_cpu (\<lambda>m. m\<lparr>status := st, halted := True\<rparr>) s)"

definition mips_syscall_exit_group :: "'h machine \<Rightarrow> u32 \<Rightarrow> 'h machine result" where
  "mips_syscall_exit_group s st = Inr (upd_cpu (\<lambda>m. m\<lparr>status := st, halted := True\<rparr>) s)"

definition mips_syscall_set_thread_area :: "'h machine \<Rightarrow> u32 \<Rightarrow> 'h machine result" where
  "mips_syscall_set_thread_area s addr =
     Inr (put_reg MIPS_R_V0 0 (upd_cpu (\<lambda>m. m\<lparr>user_local_ptr := addr\<rparr>) s))"

definition mips_syscall_tid_addr :: "'h machine \<Rightarrow> u32 \<Rightarrow> 'h machine result" where
  "mips_syscall_tid_addr s tp =
     Inr (put_reg MIPS_R_V0 1 (upd_cpu (\<lambda>m. m\<lparr>tidptr := tp\<rparr>) s))"

section \<open>Files\<close>

definition mips_syscall_read ::
  "'h os \<Rightarrow> 'h machine \<Rightarrow> u32 \<Rightarrow> u32 \<Rightarrow> u32 \<Rightarrow> 'h machine result" where
  "mips_syscall_read os s fd address sz =
     (if \<not> os_malloc os (unat sz) then Inl AssertFailed
      else let (n, buffer, h) = os_read os (hstate s) fd sz;
               s = put_reg MIPS_R_V0 (ucast n) (s\<lparr>hstate := h\<rparr>)
           in upd_mem (\<lambda>mem. memory_copy_write mem address sz buffer) s)"

definition mips_syscall_write ::
  "'h os \<Rightarrow> 'h machine \<Rightarrow> u32 \<Rightarrow> u32 \<Rightarrow> u32 \<Rightarrow> 'h machine result" where
  "mips_syscall_write os s fd address sz =
     (if \<not> os_malloc os (unat sz) then Inl AssertFailed
      else bindR (memory_copy_read (gmem s) address sz) (\<lambda>buffer.
        let (n, h) = os_write os (hstate s) fd buffer
        in Inr (put_reg MIPS_R_V0 (ucast n) (s\<lparr>hstate := h\<rparr>))))"

text \<open>
  The scan for the end of the file name. The counter \<open>sz\<close> has 32 bits, so a scan of
  \<open>2 ^ 32\<close> turns that found no end is back at its start and goes on for ever.
\<close>

fun name_length :: "nat \<Rightarrow> memory \<Rightarrow> u32 \<Rightarrow> u32 \<Rightarrow> u32 result" where
  "name_length fuel mem name sz =
     (if fuel = 0 then Inl Diverges
      else bindR (memory_read_u8 mem (name + sz)) (\<lambda>c.
        if c \<noteq> 0 then name_length (fuel - 1) mem name (sz + 1) else Inr (sz + 1)))"

declare name_length.simps [simp del]

definition mips_syscall_open ::
  "'h os \<Rightarrow> 'h machine \<Rightarrow> u32 \<Rightarrow> u32 \<Rightarrow> u32 \<Rightarrow> 'h machine result" where
  "mips_syscall_open os s name flags mode =
     bindR (name_length (2 ^ 32) (gmem s) name 0) (\<lambda>sz.
       if \<not> os_malloc os (unat sz) then Inl AssertFailed
       else bindR (memory_copy_read (gmem s) name sz) (\<lambda>buffer.
         let (fd, h) =
               (if flags AND O_CREAT \<noteq> 0
                then os_open os (hstate s) buffer flags (Some (mode AND 0x1ff))
                else os_open os (hstate s) buffer flags None)
         in Inr (put_reg MIPS_R_V0 fd (s\<lparr>hstate := h\<rparr>))))"

definition mips_syscall_close :: "'h os \<Rightarrow> 'h machine \<Rightarrow> u32 \<Rightarrow> 'h machine result" where
  "mips_syscall_close os s fd =
     (let (res, h) = os_close os (hstate s) fd
      in Inr (put_reg MIPS_R_V0 res (s\<lparr>hstate := h\<rparr>)))"

text \<open>\<open>lseek\<close> takes a 64-bit offset: the unsigned argument is zero-extended.\<close>

definition mips_syscall_lseek ::
  "'h os \<Rightarrow> 'h machine \<Rightarrow> u32 \<Rightarrow> u32 \<Rightarrow> u32 \<Rightarrow> 'h machine result" where
  "mips_syscall_lseek os s fd offset whence =
     (let (res, h) = os_lseek os (hstate s) fd (ucast offset) whence
      in Inr (put_reg MIPS_R_V0 (ucast res) (s\<lparr>hstate := h\<rparr>)))"

definition mips_syscall_ioctl ::
  "'h os \<Rightarrow> 'h machine \<Rightarrow> u32 \<Rightarrow> u32 \<Rightarrow> u32 \<Rightarrow> 'h machine result" where
  "mips_syscall_ioctl os s fd request argp =
     (if request = 0x40087468 then
        (case os_winsize os (hstate s) fd of
           (None, h) \<Rightarrow> Inr (put_reg MIPS_R_V0 (-25) (s\<lparr>hstate := h\<rparr>))
         | (Some (ws_row, ws_col, ws_xpixel, ws_ypixel), h) \<Rightarrow>
             bindR (upd_mem (\<lambda>mem. memory_write_u16 mem (argp + 0) ws_row) (s\<lparr>hstate := h\<rparr>)) (\<lambda>s.
             bindR (upd_mem (\<lambda>mem. memory_write_u16 mem (argp + 2) ws_col) s) (\<lambda>s.
             bindR (upd_mem (\<lambda>mem. memory_write_u16 mem (argp + 4) ws_xpixel) s) (\<lambda>s.
             bindR (upd_mem (\<lambda>mem. memory_write_u16 mem (argp + 6) ws_ypixel) s) (\<lambda>s.
             Inr (put_reg MIPS_R_V0 0 s))))))
      else Inl AssertFailed)"

text \<open>The loop of \<open>writev\<close> over the \<open>iovec\<close> array, with the running total.\<close>

function writev_loop ::
  "'h os \<Rightarrow> u32 \<Rightarrow> u32 \<Rightarrow> u32 \<Rightarrow> u32 \<Rightarrow> u32 \<Rightarrow> 'h machine \<Rightarrow> (u32 \<times> 'h machine) result" where
  "writev_loop os fd ptr cnt c tot s =
     (if c < cnt then
        bindR (memory_read_u32 (gmem s) (ptr + c * 8 + 0)) (\<lambda>address.
        bindR (memory_read_u32 (gmem s) (ptr + c * 8 + 4)) (\<lambda>len.
        if len \<noteq> 0 then
          (if \<not> os_malloc os (unat len) then Inl AssertFailed
           else bindR (memory_copy_read (gmem s) address len) (\<lambda>buffer.
             let (n, h) = os_write os (hstate s) fd buffer
             in writev_loop os fd ptr cnt (c + 1) (tot + ucast n) (s\<lparr>hstate := h\<rparr>)))
        else writev_loop os fd ptr cnt (c + 1) tot s))
      else Inr (tot, s))"
  by pat_completeness auto
termination
proof (relation "measure (\<lambda>(os, fd, ptr, cnt, c, tot, s). unat cnt - unat c)")
  show "wf (measure (\<lambda>(os, fd, ptr, cnt, c, tot, s). unat cnt - unat c))" by simp
qed (simp_all add: unat_Suc_less word_less_nat_alt)

declare writev_loop.simps [simp del]

definition mips_syscall_writev ::
  "'h os \<Rightarrow> 'h machine \<Rightarrow> u32 \<Rightarrow> u32 \<Rightarrow> u32 \<Rightarrow> 'h machine result" where
  "mips_syscall_writev os s fd ptr cnt =
     bindR (writev_loop os fd ptr cnt 0 0 s) (\<lambda>(tot, s). Inr (put_reg MIPS_R_V0 tot s))"

section \<open>Memory\<close>

definition mips_syscall_brk :: "'h os \<Rightarrow> 'h machine \<Rightarrow> u32 \<Rightarrow> 'h machine result" where
  "mips_syscall_brk os s brk =
     (let mem = gmem s
      in bindR (if brk > brk_heap_end mem
                then bindR (memory_allocate (os_calloc os) mem (brk_heap_end mem)
                              (brk - brk_heap_end mem)) (\<lambda>mem.
                     Inr (mem\<lparr>brk_heap_end := brk\<rparr>))
                else Inr mem) (\<lambda>mem.
           Inr (put_reg MIPS_R_V0 (brk_heap_end mem) (s\<lparr>gmem := mem\<rparr>))))"

definition mips_syscall_mmap2 :: "'h os \<Rightarrow> 'h machine \<Rightarrow> u32 \<Rightarrow> 'h machine result" where
  "mips_syscall_mmap2 os s len =
     bindR (memory_read_u32 (gmem s) (get_reg MIPS_R_SP s + 16)) (\<lambda>fd.
     bindR (memory_read_u32 (gmem s) (get_reg MIPS_R_SP s + 20)) (\<lambda>pgoff.
     let len = (len + 0xfff) AND NOT 0xfff;
         target_address = mmap_heap_end (gmem s)
     in if target_address + len > USER_TOP then Inl AssertFailed
        else bindR (upd_mem (\<lambda>mem. memory_allocate (os_calloc os) mem (mmap_heap_end mem) len) s) (\<lambda>s.
             bindR (upd_mem (\<lambda>mem. memory_set mem (mmap_heap_end mem) len 0) s) (\<lambda>s.
             let s = s\<lparr>gmem := (gmem s)\<lparr>mmap_heap_end := mmap_heap_end (gmem s) + len\<rparr>\<rparr>
             in Inr (put_reg MIPS_R_A3 0 (put_reg MIPS_R_V0 target_address s))))))"

definition mips_syscall_munmap :: "'h machine \<Rightarrow> 'h machine result" where
  "mips_syscall_munmap s = Inr (put_reg MIPS_R_A0 0 (put_reg MIPS_R_V0 0 s))"

definition mips_syscall_mprotect :: "'h machine \<Rightarrow> 'h machine result" where
  "mips_syscall_mprotect s = Inr (put_reg MIPS_R_A3 0 (put_reg MIPS_R_V0 0 s))"

section \<open>Time\<close>

definition mips_syscall_clock_gettime64 ::
  "'h os \<Rightarrow> 'h machine \<Rightarrow> u32 \<Rightarrow> u32 \<Rightarrow> 'h machine result" where
  "mips_syscall_clock_gettime64 os s clock_id timespec_ptr =
     (let s = put_reg MIPS_R_A3 1 (put_reg MIPS_R_V0 22 s)
      in case os_clock os (hstate s) clock_id of
           (None, h) \<Rightarrow> Inr (s\<lparr>hstate := h\<rparr>)
         | (Some (tv_sec, tv_nsec), h) \<Rightarrow>
             bindR (upd_mem (\<lambda>mem. memory_write_u32 mem (timespec_ptr + 0) (ucast tv_sec)) (s\<lparr>hstate := h\<rparr>)) (\<lambda>s.
             bindR (upd_mem (\<lambda>mem. memory_write_u32 mem (timespec_ptr + 4) (ucast (signed_drop_bit 32 tv_sec))) s) (\<lambda>s.
             bindR (upd_mem (\<lambda>mem. memory_write_u32 mem (timespec_ptr + 8) (ucast tv_nsec)) s) (\<lambda>s.
             bindR (upd_mem (\<lambda>mem. memory_write_u32 mem (timespec_ptr + 12) (ucast (signed_drop_bit 32 tv_nsec))) s) (\<lambda>s.
             Inr (put_reg MIPS_R_A3 0 (put_reg MIPS_R_V0 0 s)))))))"

end
