(* ===== verification/Instructions.thy ===== *)
theory Instructions
  imports Syscalls
begin

text \<open>
  The instruction templates of \<open>src/instructions.h\<close>. An \<open>ITP_TYPE_\<close> macro extracts the
  fields of the instruction word and reads the source registers into local variables; here it
  passes them to the continuation \<open>impl\<close>. An \<open>ITP_..._IMPL\<close> macro is the body that uses the
  locals. Bodies that touch only the processor are functions of \<open>mips\<close>; those that access
  memory or the host act on the whole machine and can fault. \<open>ITP_LOAD_DELAY\<close> is empty in
  the build; \<open>Load_Delay\<close> models the one that defines it.
\<close>

section \<open>Operand extraction\<close>

definition reg_field :: "nat \<Rightarrow> u32 \<Rightarrow> u32 \<Rightarrow> nat" where
  "reg_field shift msk cir = unat (field shift msk cir)"

definition get_rs :: "u32 \<Rightarrow> nat" where "get_rs cir = reg_field RS_SHIFT RS_MASK cir"
definition get_rt :: "u32 \<Rightarrow> nat" where "get_rt cir = reg_field RT_SHIFT RT_MASK cir"
definition get_rd :: "u32 \<Rightarrow> nat" where "get_rd cir = reg_field RD_SHIFT RD_MASK cir"
definition get_sh :: "u32 \<Rightarrow> u8" where "get_sh cir = ucast (field SH_SHIFT SH_MASK cir)"
definition get_imm16 :: "u32 \<Rightarrow> u16" where "get_imm16 cir = ucast (field IMM16_SHIFT IMM16_MASK cir)"
definition get_imm20 :: "u32 \<Rightarrow> u32" where "get_imm20 cir = field IMM20_SHIFT IMM20_MASK cir"
definition get_imm26 :: "u32 \<Rightarrow> u32" where "get_imm26 cir = field IMM26_SHIFT IMM26_MASK cir"

definition ITP_TYPE_SHIFT_IMM :: "u32 \<Rightarrow> mips \<Rightarrow> (nat \<Rightarrow> u8 \<Rightarrow> u32 \<Rightarrow> 'a) \<Rightarrow> 'a" where
  "ITP_TYPE_SHIFT_IMM cir m impl =
     (let rt = get_rt cir; rd = get_rd cir; sh = get_sh cir; value_rt = regs m rt
      in impl rd sh value_rt)"

definition ITP_TYPE_SHIFT_REG :: "u32 \<Rightarrow> mips \<Rightarrow> (nat \<Rightarrow> u32 \<Rightarrow> u32 \<Rightarrow> 'a) \<Rightarrow> 'a" where
  "ITP_TYPE_SHIFT_REG cir m impl =
     (let rs = get_rs cir; rt = get_rt cir; rd = get_rd cir;
          value_rs = regs m rs; value_rt = regs m rt
      in impl rd value_rs value_rt)"

definition ITP_TYPE_JR :: "u32 \<Rightarrow> mips \<Rightarrow> (u32 \<Rightarrow> 'a) \<Rightarrow> 'a" where
  "ITP_TYPE_JR cir m impl = (let rs = get_rs cir; value_rs = regs m rs in impl value_rs)"

definition ITP_TYPE_JALR :: "u32 \<Rightarrow> mips \<Rightarrow> (nat \<Rightarrow> u32 \<Rightarrow> 'a) \<Rightarrow> 'a" where
  "ITP_TYPE_JALR cir m impl =
     (let rs = get_rs cir; rd = get_rd cir; value_rs = regs m rs in impl rd value_rs)"

definition ITP_TYPE_MF :: "u32 \<Rightarrow> mips \<Rightarrow> (nat \<Rightarrow> 'a) \<Rightarrow> 'a" where
  "ITP_TYPE_MF cir m impl = (let rd = get_rd cir in impl rd)"

definition ITP_TYPE_MT :: "u32 \<Rightarrow> mips \<Rightarrow> (u32 \<Rightarrow> 'a) \<Rightarrow> 'a" where
  "ITP_TYPE_MT cir m impl = (let rs = get_rs cir; value_rs = regs m rs in impl value_rs)"

definition ITP_TYPE_SYSCALL ::
  "u32 \<Rightarrow> mips \<Rightarrow> (u32 \<Rightarrow> u32 \<Rightarrow> u32 \<Rightarrow> u32 \<Rightarrow> u32 \<Rightarrow> u32 \<Rightarrow> 'a) \<Rightarrow> 'a" where
  "ITP_TYPE_SYSCALL cir m impl =
     (let imm20 = get_imm20 cir; v0 = regs m MIPS_R_V0;
          a0 = regs m MIPS_R_A0; a1 = regs m MIPS_R_A1;
          a2 = regs m MIPS_R_A2; a3 = regs m MIPS_R_A3
      in impl imm20 v0 a0 a1 a2 a3)"

definition ITP_TYPE_BRK ::
  "u32 \<Rightarrow> mips \<Rightarrow> (u32 \<Rightarrow> u32 \<Rightarrow> u32 \<Rightarrow> u32 \<Rightarrow> u32 \<Rightarrow> u32 \<Rightarrow> 'a) \<Rightarrow> 'a" where
  "ITP_TYPE_BRK cir m impl =
     (let imm20 = get_imm20 cir; v0 = regs m MIPS_R_V0;
          a0 = regs m MIPS_R_A0; a1 = regs m MIPS_R_A1;
          a2 = regs m MIPS_R_A2; a3 = regs m MIPS_R_A3
      in impl imm20 v0 a0 a1 a2 a3)"

definition ITP_TYPE_MULT_DIV :: "u32 \<Rightarrow> mips \<Rightarrow> (u32 \<Rightarrow> u32 \<Rightarrow> 'a) \<Rightarrow> 'a" where
  "ITP_TYPE_MULT_DIV cir m impl =
     (let rs = get_rs cir; rt = get_rt cir; value_rs = regs m rs; value_rt = regs m rt
      in impl value_rs value_rt)"

definition ITP_TYPE_ALU_REG :: "u32 \<Rightarrow> mips \<Rightarrow> (nat \<Rightarrow> u32 \<Rightarrow> u32 \<Rightarrow> 'a) \<Rightarrow> 'a" where
  "ITP_TYPE_ALU_REG cir m impl =
     (let rs = get_rs cir; rt = get_rt cir; rd = get_rd cir;
          value_rs = regs m rs; value_rt = regs m rt
      in impl rd value_rs value_rt)"

definition ITP_TYPE_BRANCH_GENERIC :: "u32 \<Rightarrow> mips \<Rightarrow> (u32 \<Rightarrow> u16 \<Rightarrow> 'a) \<Rightarrow> 'a" where
  "ITP_TYPE_BRANCH_GENERIC cir m impl =
     (let rs = get_rs cir; imm16 = get_imm16 cir; value_rs = regs m rs in impl value_rs imm16)"

definition ITP_TYPE_J_JAL :: "u32 \<Rightarrow> mips \<Rightarrow> (u32 \<Rightarrow> 'a) \<Rightarrow> 'a" where
  "ITP_TYPE_J_JAL cir m impl = (let imm26 = get_imm26 cir in impl imm26)"

definition ITP_TYPE_BRANCH_EQ_NE :: "u32 \<Rightarrow> mips \<Rightarrow> (u32 \<Rightarrow> u32 \<Rightarrow> u16 \<Rightarrow> 'a) \<Rightarrow> 'a" where
  "ITP_TYPE_BRANCH_EQ_NE cir m impl =
     (let rs = get_rs cir; rt = get_rt cir; imm16 = get_imm16 cir;
          value_rs = regs m rs; value_rt = regs m rt
      in impl value_rs value_rt imm16)"

definition ITP_TYPE_ALU_IMM :: "u32 \<Rightarrow> mips \<Rightarrow> (nat \<Rightarrow> u32 \<Rightarrow> u16 \<Rightarrow> 'a) \<Rightarrow> 'a" where
  "ITP_TYPE_ALU_IMM cir m impl =
     (let rs = get_rs cir; rt = get_rt cir; imm16 = get_imm16 cir; value_rs = regs m rs
      in impl rt value_rs imm16)"

definition ITP_TYPE_LUI_IMM :: "u32 \<Rightarrow> mips \<Rightarrow> (nat \<Rightarrow> u16 \<Rightarrow> 'a) \<Rightarrow> 'a" where
  "ITP_TYPE_LUI_IMM cir m impl = (let rt = get_rt cir; imm16 = get_imm16 cir in impl rt imm16)"

definition ITP_TYPE_LOAD_IMM :: "u32 \<Rightarrow> mips \<Rightarrow> (nat \<Rightarrow> u32 \<Rightarrow> u16 \<Rightarrow> 'a) \<Rightarrow> 'a" where
  "ITP_TYPE_LOAD_IMM cir m impl =
     (let rs = get_rs cir; rt = get_rt cir; imm16 = get_imm16 cir; value_rs = regs m rs
      in impl rt value_rs imm16)"

definition ITP_TYPE_STORE_IMM :: "u32 \<Rightarrow> mips \<Rightarrow> (nat \<Rightarrow> u32 \<Rightarrow> u32 \<Rightarrow> u16 \<Rightarrow> 'a) \<Rightarrow> 'a" where
  "ITP_TYPE_STORE_IMM cir m impl =
     (let rs = get_rs cir; rt = get_rt cir; imm16 = get_imm16 cir;
          value_rs = regs m rs; value_rt = regs m rt
      in impl rt value_rs value_rt imm16)"

definition ITP_TYPE_RDHWR :: "u32 \<Rightarrow> mips \<Rightarrow> (nat \<Rightarrow> nat \<Rightarrow> 'a) \<Rightarrow> 'a" where
  "ITP_TYPE_RDHWR cir m impl = (let rt = get_rt cir; rd = get_rd cir in impl rt rd)"

lemmas itp_type_defs =
  ITP_TYPE_SHIFT_IMM_def ITP_TYPE_SHIFT_REG_def ITP_TYPE_JR_def ITP_TYPE_JALR_def
  ITP_TYPE_MF_def ITP_TYPE_MT_def ITP_TYPE_SYSCALL_def ITP_TYPE_BRK_def ITP_TYPE_MULT_DIV_def
  ITP_TYPE_ALU_REG_def ITP_TYPE_BRANCH_GENERIC_def ITP_TYPE_J_JAL_def
  ITP_TYPE_BRANCH_EQ_NE_def ITP_TYPE_ALU_IMM_def ITP_TYPE_LUI_IMM_def ITP_TYPE_LOAD_IMM_def
  ITP_TYPE_STORE_IMM_def ITP_TYPE_RDHWR_def

section \<open>Shifts, moves and jumps through registers\<close>

definition ITP_SLL_IMPL :: "nat \<Rightarrow> u8 \<Rightarrow> u32 \<Rightarrow> mips \<Rightarrow> mips" where [impl_simps]:
  "ITP_SLL_IMPL rd sh value_rt = set_reg rd (push_bit (unat sh) value_rt)"

definition ITP_SRL_IMPL :: "nat \<Rightarrow> u8 \<Rightarrow> u32 \<Rightarrow> mips \<Rightarrow> mips" where [impl_simps]:
  "ITP_SRL_IMPL rd sh value_rt = set_reg rd (drop_bit (unat sh) value_rt)"

definition ITP_SRA_IMPL :: "nat \<Rightarrow> u8 \<Rightarrow> u32 \<Rightarrow> mips \<Rightarrow> mips" where [impl_simps]:
  "ITP_SRA_IMPL rd sh value_rt = set_reg rd (signed_drop_bit (unat sh) value_rt)"

definition ITP_SLLV_IMPL :: "nat \<Rightarrow> u32 \<Rightarrow> u32 \<Rightarrow> mips \<Rightarrow> mips" where [impl_simps]:
  "ITP_SLLV_IMPL rd value_rs value_rt = set_reg rd (push_bit (unat (value_rs AND 0x1f)) value_rt)"

definition ITP_SRLV_IMPL :: "nat \<Rightarrow> u32 \<Rightarrow> u32 \<Rightarrow> mips \<Rightarrow> mips" where [impl_simps]:
  "ITP_SRLV_IMPL rd value_rs value_rt = set_reg rd (drop_bit (unat (value_rs AND 0x1f)) value_rt)"

definition ITP_SRAV_IMPL :: "nat \<Rightarrow> u32 \<Rightarrow> u32 \<Rightarrow> mips \<Rightarrow> mips" where [impl_simps]:
  "ITP_SRAV_IMPL rd value_rs value_rt =
     set_reg rd (signed_drop_bit (unat (value_rs AND 0x1f)) value_rt)"

definition ITP_JR_IMPL :: "u32 \<Rightarrow> mips \<Rightarrow> mips" where [impl_simps]:
  "ITP_JR_IMPL value_rs m = set_reg MIPS_R_NNPC value_rs (m\<lparr>branched := True\<rparr>)"

definition ITP_JALR_IMPL :: "nat \<Rightarrow> u32 \<Rightarrow> mips \<Rightarrow> mips" where [impl_simps]:
  "ITP_JALR_IMPL rd value_rs m =
     (let m = m\<lparr>branched := True\<rparr>;
          m = set_reg rd (regs m MIPS_R_PC + 8) m
      in set_reg MIPS_R_NNPC value_rs m)"

definition ITP_MFHI_IMPL :: "nat \<Rightarrow> mips \<Rightarrow> mips" where [impl_simps]:
  "ITP_MFHI_IMPL rd m = set_reg rd (regs m MIPS_R_HI) m"

definition ITP_MFLO_IMPL :: "nat \<Rightarrow> mips \<Rightarrow> mips" where [impl_simps]:
  "ITP_MFLO_IMPL rd m = set_reg rd (regs m MIPS_R_LO) m"

definition ITP_MTHI_IMPL :: "u32 \<Rightarrow> mips \<Rightarrow> mips" where [impl_simps]:
  "ITP_MTHI_IMPL value_rs = set_reg MIPS_R_HI value_rs"

definition ITP_MTLO_IMPL :: "u32 \<Rightarrow> mips \<Rightarrow> mips" where [impl_simps]:
  "ITP_MTLO_IMPL value_rs = set_reg MIPS_R_LO value_rs"

section \<open>Multiplication and division\<close>

definition set_hi_lo :: "u32 \<Rightarrow> u32 \<Rightarrow> mips \<Rightarrow> mips" where [impl_simps]:
  "set_hi_lo hi lo m = set_reg MIPS_R_HI hi (set_reg MIPS_R_LO lo m)"

definition ITP_MULT_IMPL :: "u32 \<Rightarrow> u32 \<Rightarrow> mips \<Rightarrow> mips" where [impl_simps]:
  "ITP_MULT_IMPL value_rs value_rt =
     (let a = scast value_rs :: u64; b = scast value_rt :: u64; res = a * b
      in set_hi_lo (ucast (drop_bit 32 res)) (ucast (drop_bit 0 res)))"

definition ITP_MULTU_IMPL :: "u32 \<Rightarrow> u32 \<Rightarrow> mips \<Rightarrow> mips" where [impl_simps]:
  "ITP_MULTU_IMPL value_rs value_rt =
     (let a = ucast value_rs :: u64; b = ucast value_rt :: u64; res = a * b
      in set_hi_lo (ucast (drop_bit 32 res)) (ucast (drop_bit 0 res)))"

definition ITP_DIV_IMPL :: "u32 \<Rightarrow> u32 \<Rightarrow> mips \<Rightarrow> mips" where [impl_simps]:
  "ITP_DIV_IMPL value_rs value_rt =
     (if value_rt = 0 then
        set_hi_lo value_rs (if sint value_rs > 0 then -1 else 1)
      else if sint value_rt = -1 \<and> sint value_rs = -0x80000000 then
        set_hi_lo 0 (-0x80000000)
      else set_hi_lo (value_rs mod value_rt) (value_rs div value_rt))"

definition ITP_DIVU_IMPL :: "u32 \<Rightarrow> u32 \<Rightarrow> mips \<Rightarrow> mips" where [impl_simps]:
  "ITP_DIVU_IMPL value_rs value_rt =
     (if value_rt \<noteq> 0 then set_hi_lo (value_rs mod value_rt) (value_rs div value_rt)
      else set_hi_lo value_rs 0xffffffff)"

section \<open>Arithmetic and logic on registers\<close>

text \<open>\<open>U32MAX\<close> and \<open>S32MIN\<close> at the 64-bit type of the comparisons they are used in.\<close>

definition U32MAX :: u64 where "U32MAX = 0xffffffff"
definition S32MIN :: u64 where "S32MIN = -2147483648"

definition ITP_ADD_IMPL :: "nat \<Rightarrow> u32 \<Rightarrow> u32 \<Rightarrow> mips \<Rightarrow> mips" where [impl_simps]:
  "ITP_ADD_IMPL rd value_rs value_rt m =
     (let a = ucast value_rs :: u64; b = ucast value_rt :: u64; res = a + b
      in if res > U32MAX then m else set_reg rd (ucast res) m)"

definition ITP_ADDU_IMPL :: "nat \<Rightarrow> u32 \<Rightarrow> u32 \<Rightarrow> mips \<Rightarrow> mips" where [impl_simps]:
  "ITP_ADDU_IMPL rd value_rs value_rt = set_reg rd (value_rs + value_rt)"

definition ITP_SUB_IMPL :: "nat \<Rightarrow> u32 \<Rightarrow> u32 \<Rightarrow> mips \<Rightarrow> mips" where [impl_simps]:
  "ITP_SUB_IMPL rd value_rs value_rt m =
     (let a = ucast value_rs :: u64; b = ucast value_rt :: u64; res = a - b
      in if sint res < sint S32MIN then m else set_reg rd (ucast res) m)"

definition ITP_SUBU_IMPL :: "nat \<Rightarrow> u32 \<Rightarrow> u32 \<Rightarrow> mips \<Rightarrow> mips" where [impl_simps]:
  "ITP_SUBU_IMPL rd value_rs value_rt = set_reg rd (value_rs - value_rt)"

definition ITP_SLT_IMPL :: "nat \<Rightarrow> u32 \<Rightarrow> u32 \<Rightarrow> mips \<Rightarrow> mips" where [impl_simps]:
  "ITP_SLT_IMPL rd value_rs value_rt =
     set_reg rd (of_bool (sint value_rs < sint value_rt))"

definition ITP_SLTU_IMPL :: "nat \<Rightarrow> u32 \<Rightarrow> u32 \<Rightarrow> mips \<Rightarrow> mips" where [impl_simps]:
  "ITP_SLTU_IMPL rd value_rs value_rt = set_reg rd (of_bool (value_rs < value_rt))"

definition ITP_AND_IMPL :: "nat \<Rightarrow> u32 \<Rightarrow> u32 \<Rightarrow> mips \<Rightarrow> mips" where [impl_simps]:
  "ITP_AND_IMPL rd value_rs value_rt = set_reg rd (value_rs AND value_rt)"

definition ITP_OR_IMPL :: "nat \<Rightarrow> u32 \<Rightarrow> u32 \<Rightarrow> mips \<Rightarrow> mips" where [impl_simps]:
  "ITP_OR_IMPL rd value_rs value_rt = set_reg rd (value_rs OR value_rt)"

definition ITP_XOR_IMPL :: "nat \<Rightarrow> u32 \<Rightarrow> u32 \<Rightarrow> mips \<Rightarrow> mips" where [impl_simps]:
  "ITP_XOR_IMPL rd value_rs value_rt = set_reg rd (value_rs XOR value_rt)"

definition ITP_NOR_IMPL :: "nat \<Rightarrow> u32 \<Rightarrow> u32 \<Rightarrow> mips \<Rightarrow> mips" where [impl_simps]:
  "ITP_NOR_IMPL rd value_rs value_rt = set_reg rd (NOT (value_rs OR value_rt))"

section \<open>Branches and jumps\<close>

definition BRANCH :: "u16 \<Rightarrow> mips \<Rightarrow> mips" where
  "BRANCH imm16 m =
     (let m = m\<lparr>branched := True\<rparr>
      in set_reg MIPS_R_NNPC (regs m MIPS_R_PC + push_bit 2 (scast imm16) + 4) m)"

definition NOT_BRANCH :: "mips \<Rightarrow> mips" where
  "NOT_BRANCH m =
     (let m = m\<lparr>branched := False\<rparr> in set_reg MIPS_R_NNPC (regs m MIPS_R_PC + 8) m)"

definition ITP_BLTZ_IMPL :: "u32 \<Rightarrow> u16 \<Rightarrow> mips \<Rightarrow> mips" where [impl_simps]:
  "ITP_BLTZ_IMPL value_rs imm16 = (if sint value_rs < 0 then BRANCH imm16 else NOT_BRANCH)"

definition ITP_BGEZ_IMPL :: "u32 \<Rightarrow> u16 \<Rightarrow> mips \<Rightarrow> mips" where [impl_simps]:
  "ITP_BGEZ_IMPL value_rs imm16 = (if sint value_rs \<ge> 0 then BRANCH imm16 else NOT_BRANCH)"

definition ITP_BLEZ_IMPL :: "u32 \<Rightarrow> u16 \<Rightarrow> mips \<Rightarrow> mips" where [impl_simps]:
  "ITP_BLEZ_IMPL value_rs imm16 = (if sint value_rs \<le> 0 then BRANCH imm16 else NOT_BRANCH)"

definition ITP_BGTZ_IMPL :: "u32 \<Rightarrow> u16 \<Rightarrow> mips \<Rightarrow> mips" where [impl_simps]:
  "ITP_BGTZ_IMPL value_rs imm16 = (if sint value_rs > 0 then BRANCH imm16 else NOT_BRANCH)"

definition ITP_BLTZAL_IMPL :: "u32 \<Rightarrow> u16 \<Rightarrow> mips \<Rightarrow> mips" where [impl_simps]:
  "ITP_BLTZAL_IMPL value_rs imm16 m =
     (let m = set_reg MIPS_R_RA (regs m MIPS_R_PC + 8) m
      in if sint value_rs < 0 then BRANCH imm16 m else NOT_BRANCH m)"

definition ITP_BGEZAL_IMPL :: "u32 \<Rightarrow> u16 \<Rightarrow> mips \<Rightarrow> mips" where [impl_simps]:
  "ITP_BGEZAL_IMPL value_rs imm16 m =
     (let m = set_reg MIPS_R_RA (regs m MIPS_R_PC + 8) m
      in if sint value_rs \<ge> 0 then BRANCH imm16 m else NOT_BRANCH m)"

definition ITP_J_IMPL :: "u32 \<Rightarrow> mips \<Rightarrow> mips" where [impl_simps]:
  "ITP_J_IMPL imm26 m =
     (let m = m\<lparr>branched := True\<rparr>
      in set_reg MIPS_R_NNPC ((regs m MIPS_R_PC AND 0xf0000000) OR push_bit 2 imm26) m)"

definition ITP_JAL_IMPL :: "u32 \<Rightarrow> mips \<Rightarrow> mips" where [impl_simps]:
  "ITP_JAL_IMPL imm26 m =
     (let m = m\<lparr>branched := True\<rparr>;
          m = set_reg MIPS_R_RA (regs m MIPS_R_PC + 8) m
      in set_reg MIPS_R_NNPC ((regs m MIPS_R_PC AND 0xf0000000) OR push_bit 2 imm26) m)"

definition ITP_BEQ_IMPL :: "u32 \<Rightarrow> u32 \<Rightarrow> u16 \<Rightarrow> mips \<Rightarrow> mips" where [impl_simps]:
  "ITP_BEQ_IMPL value_rs value_rt imm16 =
     (if value_rs = value_rt then BRANCH imm16 else NOT_BRANCH)"

definition ITP_BNE_IMPL :: "u32 \<Rightarrow> u32 \<Rightarrow> u16 \<Rightarrow> mips \<Rightarrow> mips" where [impl_simps]:
  "ITP_BNE_IMPL value_rs value_rt imm16 =
     (if value_rs \<noteq> value_rt then BRANCH imm16 else NOT_BRANCH)"

section \<open>Arithmetic and logic with an immediate\<close>

definition ITP_ADDI_IMPL :: "nat \<Rightarrow> u32 \<Rightarrow> u16 \<Rightarrow> mips \<Rightarrow> mips" where [impl_simps]:
  "ITP_ADDI_IMPL rt value_rs imm16 m =
     (let a = ucast value_rs :: u64; b = scast imm16 :: u64; res = a + b
      in if sint res > sint U32MAX then m else set_reg rt (ucast res) m)"

definition ITP_ADDIU_IMPL :: "nat \<Rightarrow> u32 \<Rightarrow> u16 \<Rightarrow> mips \<Rightarrow> mips" where [impl_simps]:
  "ITP_ADDIU_IMPL rt value_rs imm16 = set_reg rt (value_rs + scast imm16)"

definition ITP_SLTI_IMPL :: "nat \<Rightarrow> u32 \<Rightarrow> u16 \<Rightarrow> mips \<Rightarrow> mips" where [impl_simps]:
  "ITP_SLTI_IMPL rt value_rs imm16 = set_reg rt (of_bool (sint value_rs < sint imm16))"

definition ITP_SLTIU_IMPL :: "nat \<Rightarrow> u32 \<Rightarrow> u16 \<Rightarrow> mips \<Rightarrow> mips" where [impl_simps]:
  "ITP_SLTIU_IMPL rt value_rs imm16 = set_reg rt (of_bool (value_rs < scast imm16))"

definition ITP_ANDI_IMPL :: "nat \<Rightarrow> u32 \<Rightarrow> u16 \<Rightarrow> mips \<Rightarrow> mips" where [impl_simps]:
  "ITP_ANDI_IMPL rt value_rs imm16 = set_reg rt (value_rs AND ucast imm16)"

definition ITP_ORI_IMPL :: "nat \<Rightarrow> u32 \<Rightarrow> u16 \<Rightarrow> mips \<Rightarrow> mips" where [impl_simps]:
  "ITP_ORI_IMPL rt value_rs imm16 = set_reg rt (value_rs OR ucast imm16)"

definition ITP_XORI_IMPL :: "nat \<Rightarrow> u32 \<Rightarrow> u16 \<Rightarrow> mips \<Rightarrow> mips" where [impl_simps]:
  "ITP_XORI_IMPL rt value_rs imm16 = set_reg rt (value_rs XOR ucast imm16)"

definition ITP_LUI_IMPL :: "nat \<Rightarrow> u16 \<Rightarrow> mips \<Rightarrow> mips" where [impl_simps]:
  "ITP_LUI_IMPL rt imm16 = set_reg rt (push_bit 16 (ucast imm16))"

definition ITP_RDHWR_IMPL :: "nat \<Rightarrow> nat \<Rightarrow> mips \<Rightarrow> mips" where [impl_simps]:
  "ITP_RDHWR_IMPL rt rd m =
     (if rd = 0 then set_reg rt 0 m
      else if rd = 2 then set_reg rt 0 m
      else if rd = 3 then set_reg rt 1 m
      else if rd = 29 then set_reg rt (user_local_ptr m) m
      else set_reg rt 0 m)"

section \<open>Loads and stores\<close>

definition LOAD_COMPUTE_ADDRESS :: "u16 \<Rightarrow> u32 \<Rightarrow> u32" where
  "LOAD_COMPUTE_ADDRESS imm16 value_rs = scast imm16 + value_rs"

definition ITP_LB_IMPL :: "nat \<Rightarrow> u32 \<Rightarrow> u16 \<Rightarrow> 'h machine \<Rightarrow> 'h machine result" where [impl_simps]:
  "ITP_LB_IMPL rt value_rs imm16 s =
     (let address = LOAD_COMPUTE_ADDRESS imm16 value_rs
      in bindR (memory_read_u8 (gmem s) address) (\<lambda>read. Inr (put_reg rt (scast read) s)))"

definition ITP_LH_IMPL :: "nat \<Rightarrow> u32 \<Rightarrow> u16 \<Rightarrow> 'h machine \<Rightarrow> 'h machine result" where [impl_simps]:
  "ITP_LH_IMPL rt value_rs imm16 s =
     (let address = LOAD_COMPUTE_ADDRESS imm16 value_rs
      in bindR (memory_read_u16 (gmem s) address) (\<lambda>read. Inr (put_reg rt (scast read) s)))"

definition ITP_LW_IMPL :: "nat \<Rightarrow> u32 \<Rightarrow> u16 \<Rightarrow> 'h machine \<Rightarrow> 'h machine result" where [impl_simps]:
  "ITP_LW_IMPL rt value_rs imm16 s =
     (let address = LOAD_COMPUTE_ADDRESS imm16 value_rs
      in bindR (memory_read_u32 (gmem s) address) (\<lambda>read. Inr (put_reg rt read s)))"

definition ITP_LBU_IMPL :: "nat \<Rightarrow> u32 \<Rightarrow> u16 \<Rightarrow> 'h machine \<Rightarrow> 'h machine result" where [impl_simps]:
  "ITP_LBU_IMPL rt value_rs imm16 s =
     (let address = LOAD_COMPUTE_ADDRESS imm16 value_rs
      in bindR (memory_read_u8 (gmem s) address) (\<lambda>read. Inr (put_reg rt (ucast read AND 0xff) s)))"

definition ITP_LHU_IMPL :: "nat \<Rightarrow> u32 \<Rightarrow> u16 \<Rightarrow> 'h machine \<Rightarrow> 'h machine result" where [impl_simps]:
  "ITP_LHU_IMPL rt value_rs imm16 s =
     (let address = LOAD_COMPUTE_ADDRESS imm16 value_rs
      in bindR (memory_read_u16 (gmem s) address) (\<lambda>read. Inr (put_reg rt (ucast read) s)))"

definition ITP_LWR_IMPL :: "nat \<Rightarrow> u32 \<Rightarrow> u16 \<Rightarrow> 'h machine \<Rightarrow> 'h machine result" where [impl_simps]:
  "ITP_LWR_IMPL rt value_rs imm16 s =
     (let address = LOAD_COMPUTE_ADDRESS imm16 value_rs;
          shift = push_bit 3 (address AND 3);
          msk = drop_bit (unat shift) 0xffffffff
      in bindR (memory_read_u32 (gmem s) (address AND NOT 3)) (\<lambda>read.
           Inr (put_reg rt ((get_reg rt s AND NOT msk) OR drop_bit (unat shift) read) s)))"

definition ITP_LWL_IMPL :: "nat \<Rightarrow> u32 \<Rightarrow> u16 \<Rightarrow> 'h machine \<Rightarrow> 'h machine result" where [impl_simps]:
  "ITP_LWL_IMPL rt value_rs imm16 s =
     (let address = LOAD_COMPUTE_ADDRESS imm16 value_rs;
          shift = push_bit 3 (address AND 3);
          msk = push_bit (unat (24 - shift)) 0xffffffff
      in bindR (memory_read_u32 (gmem s) (address AND NOT 3)) (\<lambda>read.
           Inr (put_reg rt ((get_reg rt s AND NOT msk) OR push_bit (unat (24 - shift)) read) s)))"

definition STORE_COMPUTE_ADDRESS :: "u16 \<Rightarrow> u32 \<Rightarrow> u32" where
  "STORE_COMPUTE_ADDRESS imm16 value_rs = scast imm16 + value_rs"

definition ITP_SB_IMPL :: "u32 \<Rightarrow> u32 \<Rightarrow> u16 \<Rightarrow> 'h machine \<Rightarrow> 'h machine result" where [impl_simps]:
  "ITP_SB_IMPL value_rs value_rt imm16 =
     upd_mem (\<lambda>mem. memory_write_u8 mem (STORE_COMPUTE_ADDRESS imm16 value_rs) (ucast value_rt))"

definition ITP_SH_IMPL :: "u32 \<Rightarrow> u32 \<Rightarrow> u16 \<Rightarrow> 'h machine \<Rightarrow> 'h machine result" where [impl_simps]:
  "ITP_SH_IMPL value_rs value_rt imm16 =
     upd_mem (\<lambda>mem. memory_write_u16 mem (STORE_COMPUTE_ADDRESS imm16 value_rs) (ucast value_rt))"

definition ITP_SW_IMPL :: "u32 \<Rightarrow> u32 \<Rightarrow> u16 \<Rightarrow> 'h machine \<Rightarrow> 'h machine result" where [impl_simps]:
  "ITP_SW_IMPL value_rs value_rt imm16 =
     upd_mem (\<lambda>mem. memory_write_u32 mem (STORE_COMPUTE_ADDRESS imm16 value_rs) value_rt)"

definition ITP_SWL_IMPL :: "u32 \<Rightarrow> u32 \<Rightarrow> u16 \<Rightarrow> 'h machine \<Rightarrow> 'h machine result" where [impl_simps]:
  "ITP_SWL_IMPL value_rs value_rt imm16 =
     upd_mem (\<lambda>mem. memory_write_u32 mem (STORE_COMPUTE_ADDRESS imm16 value_rs) value_rt)"

definition ITP_SWR_IMPL :: "u32 \<Rightarrow> u32 \<Rightarrow> u16 \<Rightarrow> 'h machine \<Rightarrow> 'h machine result" where [impl_simps]:
  "ITP_SWR_IMPL value_rs value_rt imm16 =
     upd_mem (\<lambda>mem. memory_write_u32 mem (STORE_COMPUTE_ADDRESS imm16 value_rs) value_rt)"

definition ITP_LL_IMPL :: "nat \<Rightarrow> u32 \<Rightarrow> u16 \<Rightarrow> 'h machine \<Rightarrow> 'h machine result" where [impl_simps]:
  "ITP_LL_IMPL rt value_rs imm16 = ITP_LW_IMPL rt value_rs imm16"

definition ITP_SC_IMPL :: "nat \<Rightarrow> u32 \<Rightarrow> u32 \<Rightarrow> u16 \<Rightarrow> 'h machine \<Rightarrow> 'h machine result" where [impl_simps]:
  "ITP_SC_IMPL rt value_rs value_rt imm16 s =
     bindR (ITP_SW_IMPL value_rs value_rt imm16 s) (\<lambda>s. Inr (put_reg rt 1 s))"

section \<open>Traps\<close>

definition ITP_BRK_IMPL :: "'h machine \<Rightarrow> 'h machine result" where [impl_simps]:
  "ITP_BRK_IMPL s = Inl IllegalBrk"

definition ITP_SPECIAL_IMPL :: "'h machine \<Rightarrow> 'h machine result" where [impl_simps]:
  "ITP_SPECIAL_IMPL s = Inr s"

definition ITP_SYSCALL_IMPL ::
  "'h os \<Rightarrow> u32 \<Rightarrow> u32 \<Rightarrow> u32 \<Rightarrow> u32 \<Rightarrow> u32 \<Rightarrow> 'h machine \<Rightarrow> 'h machine result" where
  "ITP_SYSCALL_IMPL os v0 a0 a1 a2 a3 s =
     (if v0 = NR_exit then mips_syscall_exit s a0
      else if v0 = NR_read then mips_syscall_read os s a0 a1 a2
      else if v0 = NR_write then mips_syscall_write os s a0 a1 a2
      else if v0 = NR_open then mips_syscall_open os s a0 a1 a2
      else if v0 = NR_close then mips_syscall_close os s a0
      else if v0 = NR_lseek then mips_syscall_lseek os s a0 a1 a2
      else if v0 = NR_ioctl then mips_syscall_ioctl os s a0 a1 a2
      else if v0 = NR_writev then mips_syscall_writev os s a0 a1 a2
      else if v0 = NR_brk then mips_syscall_brk os s a0
      else if v0 = NR_mmap2 then mips_syscall_mmap2 os s a1
      else if v0 = NR_munmap then mips_syscall_munmap s
      else if v0 = NR_mprotect then mips_syscall_mprotect s
      else if v0 = NR_clock_gettime64 then mips_syscall_clock_gettime64 os s a0 a1
      else if v0 = NR_exit_group then mips_syscall_exit_group s a0
      else if v0 = NR_set_tid_address then mips_syscall_tid_addr s a0
      else if v0 = NR_set_thread_area then mips_syscall_set_thread_area s a0
      else Inl (UnhandledSyscall v0))"

end
