(* ===== verification/Decode.thy ===== *)
theory Decode
  imports Instructions
begin

text \<open>
  The instruction lists of \<open>src/mips.h\<close>: each \<open>X(type, formatter, impl, opcode, name)\<close> row is
  a constructor \<open>I_name\<close>, an entry \<open>(opcode, I_name)\<close> of its list, and an equation of
  \<open>interpret\<close>, which is the code the interpreters generate for the row: the operand
  extraction followed by the body. The formatter is used by the disassembling build only.
\<close>

section \<open>Mnemonics\<close>

datatype mnemonic =
    I_blez | I_bgtz | I_j | I_jal | I_beq | I_bne | I_addi | I_addiu | I_slti | I_sltiu |
  I_andi | I_ori | I_xori | I_lui | I_lb | I_lh | I_lwl | I_lw | I_lbu | I_lhu | I_lwr |
  I_ll | I_sb | I_sh | I_swl | I_sw | I_sc | I_swr | I_rdhwr | I_brk | I_sll | I_srl | I_sra
  | I_sllv | I_srlv | I_srav | I_jr | I_jalr | I_syscall | I_special | I_mfhi | I_mflo |
  I_mthi | I_mtlo | I_mult | I_multu | I_div | I_divu | I_add | I_addu | I_sub | I_subu |
  I_slt | I_sltu | I_and | I_or | I_xor | I_nor | I_bltz | I_bgez | I_bltzal | I_bgezal

section \<open>The three instruction lists\<close>

definition INSTRUCTIONS_PRIMARY :: "(u32 \<times> mnemonic) list" where
  "INSTRUCTIONS_PRIMARY =
    [(BLEZ_OP, I_blez), (BGTZ_OP, I_bgtz), (J_OP, I_j), (JAL_OP, I_jal), (BEQ_OP, I_beq),
     (BNE_OP, I_bne), (ADDI_OP, I_addi), (ADDIU_OP, I_addiu), (SLTI_OP, I_slti),
     (SLTIU_OP, I_sltiu), (ANDI_OP, I_andi), (ORI_OP, I_ori), (XORI_OP, I_xori),
     (LUI_OP, I_lui), (LB_OP, I_lb), (LH_OP, I_lh), (LWL_OP, I_lwl), (LW_OP, I_lw),
     (LBU_OP, I_lbu), (LHU_OP, I_lhu), (LWR_OP, I_lwr), (LL_OP, I_ll), (SB_OP, I_sb),
     (SH_OP, I_sh), (SWL_OP, I_swl), (SW_OP, I_sw), (SC_OP, I_sc), (SWR_OP, I_swr),
     (RDHWR_OP, I_rdhwr)]"

definition INSTRUCTIONS_SECONDARY :: "(u32 \<times> mnemonic) list" where
  "INSTRUCTIONS_SECONDARY =
    [(BRK_FN, I_brk), (SLL_FN, I_sll), (SRL_FN, I_srl), (SRA_FN, I_sra), (SLLV_FN, I_sllv),
     (SRLV_FN, I_srlv), (SRAV_FN, I_srav), (JR_FN, I_jr), (JALR_FN, I_jalr),
     (SYSCALL_FN, I_syscall), (SPECIAL_FN, I_special), (MFHI_FN, I_mfhi), (MFLO_FN, I_mflo),
     (MTHI_FN, I_mthi), (MTLO_FN, I_mtlo), (MULT_FN, I_mult), (MULTU_FN, I_multu),
     (DIV_FN, I_div), (DIVU_FN, I_divu), (ADD_FN, I_add), (ADDU_FN, I_addu),
     (SUB_FN, I_sub), (SUBU_FN, I_subu), (SLT_FN, I_slt), (SLTU_FN, I_sltu),
     (AND_FN, I_and), (OR_FN, I_or), (XOR_FN, I_xor), (NOR_FN, I_nor)]"

definition INSTRUCTIONS_BRANCH :: "(u32 \<times> mnemonic) list" where
  "INSTRUCTIONS_BRANCH =
    [(BLTZ_RT, I_bltz), (BGEZ_RT, I_bgez), (BLTZAL_RT, I_bltzal), (BGEZAL_RT, I_bgezal)]"

section \<open>What a row executes\<close>

definition on_cpu :: "(mips \<Rightarrow> mips) \<Rightarrow> 'h machine \<Rightarrow> 'h machine result" where
  "on_cpu f s = Inr (upd_cpu f s)"

primrec interpret_instr :: "'h os \<Rightarrow> mnemonic \<Rightarrow> u32 \<Rightarrow> 'h machine \<Rightarrow> 'h machine result" where
  "interpret_instr os I_blez cir s =
     ITP_TYPE_BRANCH_GENERIC cir (cpu s) (\<lambda>value_rs imm16. on_cpu (ITP_BLEZ_IMPL value_rs imm16) s)"
| "interpret_instr os I_bgtz cir s =
     ITP_TYPE_BRANCH_GENERIC cir (cpu s) (\<lambda>value_rs imm16. on_cpu (ITP_BGTZ_IMPL value_rs imm16) s)"
| "interpret_instr os I_j cir s =
     ITP_TYPE_J_JAL cir (cpu s) (\<lambda>imm26. on_cpu (ITP_J_IMPL imm26) s)"
| "interpret_instr os I_jal cir s =
     ITP_TYPE_J_JAL cir (cpu s) (\<lambda>imm26. on_cpu (ITP_JAL_IMPL imm26) s)"
| "interpret_instr os I_beq cir s =
     ITP_TYPE_BRANCH_EQ_NE cir (cpu s) (\<lambda>value_rs value_rt imm16. on_cpu (ITP_BEQ_IMPL value_rs value_rt imm16) s)"
| "interpret_instr os I_bne cir s =
     ITP_TYPE_BRANCH_EQ_NE cir (cpu s) (\<lambda>value_rs value_rt imm16. on_cpu (ITP_BNE_IMPL value_rs value_rt imm16) s)"
| "interpret_instr os I_addi cir s =
     ITP_TYPE_ALU_IMM cir (cpu s) (\<lambda>rt value_rs imm16. on_cpu (ITP_ADDI_IMPL rt value_rs imm16) s)"
| "interpret_instr os I_addiu cir s =
     ITP_TYPE_ALU_IMM cir (cpu s) (\<lambda>rt value_rs imm16. on_cpu (ITP_ADDIU_IMPL rt value_rs imm16) s)"
| "interpret_instr os I_slti cir s =
     ITP_TYPE_ALU_IMM cir (cpu s) (\<lambda>rt value_rs imm16. on_cpu (ITP_SLTI_IMPL rt value_rs imm16) s)"
| "interpret_instr os I_sltiu cir s =
     ITP_TYPE_ALU_IMM cir (cpu s) (\<lambda>rt value_rs imm16. on_cpu (ITP_SLTIU_IMPL rt value_rs imm16) s)"
| "interpret_instr os I_andi cir s =
     ITP_TYPE_ALU_IMM cir (cpu s) (\<lambda>rt value_rs imm16. on_cpu (ITP_ANDI_IMPL rt value_rs imm16) s)"
| "interpret_instr os I_ori cir s =
     ITP_TYPE_ALU_IMM cir (cpu s) (\<lambda>rt value_rs imm16. on_cpu (ITP_ORI_IMPL rt value_rs imm16) s)"
| "interpret_instr os I_xori cir s =
     ITP_TYPE_ALU_IMM cir (cpu s) (\<lambda>rt value_rs imm16. on_cpu (ITP_XORI_IMPL rt value_rs imm16) s)"
| "interpret_instr os I_lui cir s =
     ITP_TYPE_LUI_IMM cir (cpu s) (\<lambda>rt imm16. on_cpu (ITP_LUI_IMPL rt imm16) s)"
| "interpret_instr os I_lb cir s =
     ITP_TYPE_LOAD_IMM cir (cpu s) (\<lambda>rt value_rs imm16. ITP_LB_IMPL rt value_rs imm16 s)"
| "interpret_instr os I_lh cir s =
     ITP_TYPE_LOAD_IMM cir (cpu s) (\<lambda>rt value_rs imm16. ITP_LH_IMPL rt value_rs imm16 s)"
| "interpret_instr os I_lwl cir s =
     ITP_TYPE_LOAD_IMM cir (cpu s) (\<lambda>rt value_rs imm16. ITP_LWL_IMPL rt value_rs imm16 s)"
| "interpret_instr os I_lw cir s =
     ITP_TYPE_LOAD_IMM cir (cpu s) (\<lambda>rt value_rs imm16. ITP_LW_IMPL rt value_rs imm16 s)"
| "interpret_instr os I_lbu cir s =
     ITP_TYPE_LOAD_IMM cir (cpu s) (\<lambda>rt value_rs imm16. ITP_LBU_IMPL rt value_rs imm16 s)"
| "interpret_instr os I_lhu cir s =
     ITP_TYPE_LOAD_IMM cir (cpu s) (\<lambda>rt value_rs imm16. ITP_LHU_IMPL rt value_rs imm16 s)"
| "interpret_instr os I_lwr cir s =
     ITP_TYPE_LOAD_IMM cir (cpu s) (\<lambda>rt value_rs imm16. ITP_LWR_IMPL rt value_rs imm16 s)"
| "interpret_instr os I_ll cir s =
     ITP_TYPE_LOAD_IMM cir (cpu s) (\<lambda>rt value_rs imm16. ITP_LL_IMPL rt value_rs imm16 s)"
| "interpret_instr os I_sb cir s =
     ITP_TYPE_STORE_IMM cir (cpu s) (\<lambda>rt value_rs value_rt imm16. ITP_SB_IMPL value_rs value_rt imm16 s)"
| "interpret_instr os I_sh cir s =
     ITP_TYPE_STORE_IMM cir (cpu s) (\<lambda>rt value_rs value_rt imm16. ITP_SH_IMPL value_rs value_rt imm16 s)"
| "interpret_instr os I_swl cir s =
     ITP_TYPE_STORE_IMM cir (cpu s) (\<lambda>rt value_rs value_rt imm16. ITP_SWL_IMPL value_rs value_rt imm16 s)"
| "interpret_instr os I_sw cir s =
     ITP_TYPE_STORE_IMM cir (cpu s) (\<lambda>rt value_rs value_rt imm16. ITP_SW_IMPL value_rs value_rt imm16 s)"
| "interpret_instr os I_sc cir s =
     ITP_TYPE_STORE_IMM cir (cpu s) (\<lambda>rt value_rs value_rt imm16. ITP_SC_IMPL rt value_rs value_rt imm16 s)"
| "interpret_instr os I_swr cir s =
     ITP_TYPE_STORE_IMM cir (cpu s) (\<lambda>rt value_rs value_rt imm16. ITP_SWR_IMPL value_rs value_rt imm16 s)"
| "interpret_instr os I_rdhwr cir s =
     ITP_TYPE_RDHWR cir (cpu s) (\<lambda>rt rd. on_cpu (ITP_RDHWR_IMPL rt rd) s)"
| "interpret_instr os I_brk cir s =
     ITP_TYPE_BRK cir (cpu s) (\<lambda>imm20 v0 a0 a1 a2 a3. ITP_BRK_IMPL s)"
| "interpret_instr os I_sll cir s =
     ITP_TYPE_SHIFT_IMM cir (cpu s) (\<lambda>rd sh value_rt. on_cpu (ITP_SLL_IMPL rd sh value_rt) s)"
| "interpret_instr os I_srl cir s =
     ITP_TYPE_SHIFT_IMM cir (cpu s) (\<lambda>rd sh value_rt. on_cpu (ITP_SRL_IMPL rd sh value_rt) s)"
| "interpret_instr os I_sra cir s =
     ITP_TYPE_SHIFT_IMM cir (cpu s) (\<lambda>rd sh value_rt. on_cpu (ITP_SRA_IMPL rd sh value_rt) s)"
| "interpret_instr os I_sllv cir s =
     ITP_TYPE_SHIFT_REG cir (cpu s) (\<lambda>rd value_rs value_rt. on_cpu (ITP_SLLV_IMPL rd value_rs value_rt) s)"
| "interpret_instr os I_srlv cir s =
     ITP_TYPE_SHIFT_REG cir (cpu s) (\<lambda>rd value_rs value_rt. on_cpu (ITP_SRLV_IMPL rd value_rs value_rt) s)"
| "interpret_instr os I_srav cir s =
     ITP_TYPE_SHIFT_REG cir (cpu s) (\<lambda>rd value_rs value_rt. on_cpu (ITP_SRAV_IMPL rd value_rs value_rt) s)"
| "interpret_instr os I_jr cir s =
     ITP_TYPE_JR cir (cpu s) (\<lambda>value_rs. on_cpu (ITP_JR_IMPL value_rs) s)"
| "interpret_instr os I_jalr cir s =
     ITP_TYPE_JALR cir (cpu s) (\<lambda>rd value_rs. on_cpu (ITP_JALR_IMPL rd value_rs) s)"
| "interpret_instr os I_syscall cir s =
     ITP_TYPE_SYSCALL cir (cpu s) (\<lambda>imm20 v0 a0 a1 a2 a3. ITP_SYSCALL_IMPL os v0 a0 a1 a2 a3 s)"
| "interpret_instr os I_special cir s =
     ITP_TYPE_SYSCALL cir (cpu s) (\<lambda>imm20 v0 a0 a1 a2 a3. ITP_SPECIAL_IMPL s)"
| "interpret_instr os I_mfhi cir s =
     ITP_TYPE_MF cir (cpu s) (\<lambda>rd. on_cpu (ITP_MFHI_IMPL rd) s)"
| "interpret_instr os I_mflo cir s =
     ITP_TYPE_MF cir (cpu s) (\<lambda>rd. on_cpu (ITP_MFLO_IMPL rd) s)"
| "interpret_instr os I_mthi cir s =
     ITP_TYPE_MT cir (cpu s) (\<lambda>value_rs. on_cpu (ITP_MTHI_IMPL value_rs) s)"
| "interpret_instr os I_mtlo cir s =
     ITP_TYPE_MT cir (cpu s) (\<lambda>value_rs. on_cpu (ITP_MTLO_IMPL value_rs) s)"
| "interpret_instr os I_mult cir s =
     ITP_TYPE_MULT_DIV cir (cpu s) (\<lambda>value_rs value_rt. on_cpu (ITP_MULT_IMPL value_rs value_rt) s)"
| "interpret_instr os I_multu cir s =
     ITP_TYPE_MULT_DIV cir (cpu s) (\<lambda>value_rs value_rt. on_cpu (ITP_MULTU_IMPL value_rs value_rt) s)"
| "interpret_instr os I_div cir s =
     ITP_TYPE_MULT_DIV cir (cpu s) (\<lambda>value_rs value_rt. on_cpu (ITP_DIV_IMPL value_rs value_rt) s)"
| "interpret_instr os I_divu cir s =
     ITP_TYPE_MULT_DIV cir (cpu s) (\<lambda>value_rs value_rt. on_cpu (ITP_DIVU_IMPL value_rs value_rt) s)"
| "interpret_instr os I_add cir s =
     ITP_TYPE_ALU_REG cir (cpu s) (\<lambda>rd value_rs value_rt. on_cpu (ITP_ADD_IMPL rd value_rs value_rt) s)"
| "interpret_instr os I_addu cir s =
     ITP_TYPE_ALU_REG cir (cpu s) (\<lambda>rd value_rs value_rt. on_cpu (ITP_ADDU_IMPL rd value_rs value_rt) s)"
| "interpret_instr os I_sub cir s =
     ITP_TYPE_ALU_REG cir (cpu s) (\<lambda>rd value_rs value_rt. on_cpu (ITP_SUB_IMPL rd value_rs value_rt) s)"
| "interpret_instr os I_subu cir s =
     ITP_TYPE_ALU_REG cir (cpu s) (\<lambda>rd value_rs value_rt. on_cpu (ITP_SUBU_IMPL rd value_rs value_rt) s)"
| "interpret_instr os I_slt cir s =
     ITP_TYPE_ALU_REG cir (cpu s) (\<lambda>rd value_rs value_rt. on_cpu (ITP_SLT_IMPL rd value_rs value_rt) s)"
| "interpret_instr os I_sltu cir s =
     ITP_TYPE_ALU_REG cir (cpu s) (\<lambda>rd value_rs value_rt. on_cpu (ITP_SLTU_IMPL rd value_rs value_rt) s)"
| "interpret_instr os I_and cir s =
     ITP_TYPE_ALU_REG cir (cpu s) (\<lambda>rd value_rs value_rt. on_cpu (ITP_AND_IMPL rd value_rs value_rt) s)"
| "interpret_instr os I_or cir s =
     ITP_TYPE_ALU_REG cir (cpu s) (\<lambda>rd value_rs value_rt. on_cpu (ITP_OR_IMPL rd value_rs value_rt) s)"
| "interpret_instr os I_xor cir s =
     ITP_TYPE_ALU_REG cir (cpu s) (\<lambda>rd value_rs value_rt. on_cpu (ITP_XOR_IMPL rd value_rs value_rt) s)"
| "interpret_instr os I_nor cir s =
     ITP_TYPE_ALU_REG cir (cpu s) (\<lambda>rd value_rs value_rt. on_cpu (ITP_NOR_IMPL rd value_rs value_rt) s)"
| "interpret_instr os I_bltz cir s =
     ITP_TYPE_BRANCH_GENERIC cir (cpu s) (\<lambda>value_rs imm16. on_cpu (ITP_BLTZ_IMPL value_rs imm16) s)"
| "interpret_instr os I_bgez cir s =
     ITP_TYPE_BRANCH_GENERIC cir (cpu s) (\<lambda>value_rs imm16. on_cpu (ITP_BGEZ_IMPL value_rs imm16) s)"
| "interpret_instr os I_bltzal cir s =
     ITP_TYPE_BRANCH_GENERIC cir (cpu s) (\<lambda>value_rs imm16. on_cpu (ITP_BLTZAL_IMPL value_rs imm16) s)"
| "interpret_instr os I_bgezal cir s =
     ITP_TYPE_BRANCH_GENERIC cir (cpu s) (\<lambda>value_rs imm16. on_cpu (ITP_BGEZAL_IMPL value_rs imm16) s)"

end
