(* ===== verification/Frame.thy ===== *)
theory Frame
  imports Decode
begin

text \<open>
  What an instruction can change. A state update is inert when it commutes with every effect
  that an instruction other than a branch can have; the locale \<open>inert\<close> shows that such an
  instruction then commutes with the update itself. It is interpreted on writes of the three
  program counters, which only branches read or write, and on writes of the \<open>branched\<close> flag.
  The last section gives the effects of branches, and what only system calls can change.
\<close>

section \<open>Operand fields are register numbers\<close>

lemma reg_fields_less: "get_rs cir < 32" "get_rt cir < 32" "get_rd cir < 32"
  by (simp_all add: get_rs_def get_rt_def get_rd_def reg_field_def field_less field_consts)

lemma reg_fields_neq [simp]:
  "32 \<le> j \<Longrightarrow> get_rs cir \<noteq> j" "32 \<le> j \<Longrightarrow> get_rt cir \<noteq> j" "32 \<le> j \<Longrightarrow> get_rd cir \<noteq> j"
  "32 \<le> j \<Longrightarrow> j \<noteq> get_rs cir" "32 \<le> j \<Longrightarrow> j \<noteq> get_rt cir" "32 \<le> j \<Longrightarrow> j \<noteq> get_rd cir"
  using reg_fields_less [of cir] by auto

section \<open>Machine updates\<close>

lemma put_reg_gmem: "(put_reg j v s)\<lparr>gmem := m\<rparr> = put_reg j v (s\<lparr>gmem := m\<rparr>)"
  and put_reg_hstate: "(put_reg j v s)\<lparr>hstate := h\<rparr> = put_reg j v (s\<lparr>hstate := h\<rparr>)"
  by (simp_all add: put_reg_def upd_cpu_def)

lemma put_reg_commute: "i \<noteq> j \<Longrightarrow> put_reg i x (put_reg j v s) = put_reg j v (put_reg i x s)"
  by (simp add: put_reg_def upd_cpu_def set_reg_commute)

lemma put_reg_same [simp]: "put_reg i x (put_reg i y s) = put_reg i x s"
  by (simp add: put_reg_def upd_cpu_def)

lemma get_put_reg [simp]: "get_reg i (put_reg j v s) = (if i = j then v else get_reg i s)"
  by (simp add: get_reg_def)

lemma get_reg_updates [simp]:
  "get_reg i (s\<lparr>gmem := m\<rparr>) = get_reg i s" "get_reg i (s\<lparr>hstate := h\<rparr>) = get_reg i s"
  by (simp_all add: get_reg_def)

text \<open>The image of a result under a state update.\<close>

definition mapR :: "('a \<Rightarrow> 'b) \<Rightarrow> 'a result \<Rightarrow> 'b result" where
  "mapR f x = bindR x (\<lambda>a. Inr (f a))"

lemma mapR_simps [simp]: "mapR f (Inl e) = Inl e" "mapR f (Inr a) = Inr (f a)"
  by (simp_all add: mapR_def)

lemma mapR_bindR: "mapR f (bindR x g) = bindR x (\<lambda>a. mapR f (g a))"
  by (simp add: mapR_def bindR_assoc)

lemma bindR_mapR: "bindR (mapR f x) g = bindR x (\<lambda>a. g (f a))"
  by (cases x) simp_all

lemma mapR_mapR: "mapR f (mapR g x) = mapR (\<lambda>a. f (g a)) x"
  by (cases x) simp_all

lemma mapR_eq_Inr: "mapR f x = Inr b \<longleftrightarrow> (\<exists>a. x = Inr a \<and> b = f a)"
  by (cases x) auto

lemma mapR_eq_Inl: "mapR f x = Inl e \<longleftrightarrow> x = Inl e"
  by (cases x) simp_all

section \<open>Straight-line instructions\<close>

text \<open>The instructions that \<open>src/blocked.c\<close> does not give a plain \<open>LABEL\<close>: branches and jumps.\<close>

definition jumps :: "mnemonic set" where
  "jumps = {I_jr, I_jalr, I_bltz, I_bgez, I_blez, I_bgtz, I_bltzal, I_bgezal, I_j, I_jal,
     I_beq, I_bne}"

text \<open>The loads, the stores and the traps act on the machine; all others on the processor alone.\<close>

definition machine_instrs :: "mnemonic set" where
  "machine_instrs = {I_lb, I_lh, I_lwl, I_lw, I_lbu, I_lhu, I_lwr, I_ll, I_sb, I_sh, I_swl, I_sw,
     I_sc, I_swr, I_brk, I_syscall, I_special}"

text \<open>An instruction on the processor alone is a sequence of register writes.\<close>

lemma on_cpu_put_reg:
  "on_cpu (set_reg i x) s = Inr (put_reg i x s)"
  "on_cpu (\<lambda>m. m) s = Inr s"
  "on_cpu (set_hi_lo hi lo) s = Inr (put_reg 32 hi (put_reg 33 lo s))"
  "on_cpu (ITP_MFHI_IMPL r) s = Inr (put_reg r (regs (cpu s) 32) s)"
  "on_cpu (ITP_MFLO_IMPL r) s = Inr (put_reg r (regs (cpu s) 33) s)"
  by (simp_all add: on_cpu_def put_reg_def upd_cpu_def impl_simps)

lemma on_cpu_add_sub:
  "on_cpu (ITP_ADD_IMPL r a b) s =
     Inr (if (ucast a :: u64) + ucast b > U32MAX then s
          else put_reg r (ucast ((ucast a :: u64) + ucast b)) s)"
  "on_cpu (ITP_SUB_IMPL r a b) s =
     Inr (if sint ((ucast a :: u64) - ucast b) < sint S32MIN then s
          else put_reg r (ucast ((ucast a :: u64) - ucast b)) s)"
  "on_cpu (ITP_ADDI_IMPL r a imm16) s =
     Inr (if sint ((ucast a :: u64) + scast imm16) > sint U32MAX then s
          else put_reg r (ucast ((ucast a :: u64) + scast imm16)) s)"
  by (simp_all add: on_cpu_def put_reg_def upd_cpu_def ITP_ADD_IMPL_def ITP_SUB_IMPL_def
      ITP_ADDI_IMPL_def Let_def)

lemma on_cpu_rdhwr:
  "on_cpu (ITP_RDHWR_IMPL rt rd) s =
     Inr (put_reg rt (if rd = 3 then 1 else if rd = 29 then user_local_ptr (cpu s) else 0) s)"
  by (simp add: on_cpu_def put_reg_def upd_cpu_def ITP_RDHWR_IMPL_def)

lemmas on_cpu_simps = on_cpu_put_reg on_cpu_add_sub on_cpu_rdhwr

text \<open>The bodies that are a register write, or two, whatever the processor state.\<close>

lemmas write_impls =
  ITP_SLL_IMPL_def ITP_SRL_IMPL_def ITP_SRA_IMPL_def ITP_SLLV_IMPL_def ITP_SRLV_IMPL_def
  ITP_SRAV_IMPL_def ITP_MTHI_IMPL_def ITP_MTLO_IMPL_def ITP_MULT_IMPL_def ITP_MULTU_IMPL_def
  ITP_DIV_IMPL_def ITP_DIVU_IMPL_def ITP_ADDU_IMPL_def ITP_SUBU_IMPL_def ITP_SLT_IMPL_def
  ITP_SLTU_IMPL_def ITP_AND_IMPL_def ITP_OR_IMPL_def ITP_XOR_IMPL_def ITP_NOR_IMPL_def
  ITP_ADDIU_IMPL_def ITP_SLTI_IMPL_def ITP_SLTIU_IMPL_def ITP_ANDI_IMPL_def ITP_ORI_IMPL_def
  ITP_XORI_IMPL_def ITP_LUI_IMPL_def

section \<open>Inert updates\<close>

text \<open>
  The effects of a straight-line instruction: writes of the registers below
  \<open>MIPS_R_PC\<close>, of the memory, of the host state and of the processor's other fields.
\<close>

locale inert =
  fixes U :: "'h machine \<Rightarrow> 'h machine"
  assumes U_put: "i < 34 \<Longrightarrow> put_reg i x (U s) = U (put_reg i x s)"
    and U_get: "i < 34 \<Longrightarrow> regs (cpu (U s)) i = regs (cpu s) i"
    and U_gmem: "gmem (U s) = gmem s"
    and U_hstate: "hstate (U s) = hstate s"
    and U_local: "user_local_ptr (cpu (U s)) = user_local_ptr (cpu s)"
    and U_set_gmem: "(U s)\<lparr>gmem := m\<rparr> = U (s\<lparr>gmem := m\<rparr>)"
    and U_set_hstate: "(U s)\<lparr>hstate := h\<rparr> = U (s\<lparr>hstate := h\<rparr>)"
    and U_set_local: "upd_cpu (\<lambda>m. m\<lparr>user_local_ptr := v\<rparr>) (U s) = U (upd_cpu (\<lambda>m. m\<lparr>user_local_ptr := v\<rparr>) s)"
    and U_set_tid: "upd_cpu (\<lambda>m. m\<lparr>tidptr := v\<rparr>) (U s) = U (upd_cpu (\<lambda>m. m\<lparr>tidptr := v\<rparr>) s)"
    and U_set_status: "upd_cpu (\<lambda>m. m\<lparr>status := v, halted := True\<rparr>) (U s) =
      U (upd_cpu (\<lambda>m. m\<lparr>status := v, halted := True\<rparr>) s)"
begin

lemma U_put_low:
  "put_reg 2 x (U s) = U (put_reg 2 x s)" "put_reg 4 x (U s) = U (put_reg 4 x s)"
  "put_reg 7 x (U s) = U (put_reg 7 x s)" "put_reg 32 x (U s) = U (put_reg 32 x s)"
  "put_reg 33 x (U s) = U (put_reg 33 x s)"
  "put_reg (get_rt cir) x (U s) = U (put_reg (get_rt cir) x s)"
  "put_reg (get_rd cir) x (U s) = U (put_reg (get_rd cir) x s)"
  using reg_fields_less [of cir] by (simp_all add: U_put)

lemma U_get_low:
  "regs (cpu (U s)) 2 = regs (cpu s) 2" "regs (cpu (U s)) 4 = regs (cpu s) 4"
  "regs (cpu (U s)) 5 = regs (cpu s) 5" "regs (cpu (U s)) 6 = regs (cpu s) 6"
  "regs (cpu (U s)) 7 = regs (cpu s) 7" "regs (cpu (U s)) 29 = regs (cpu s) 29"
  "regs (cpu (U s)) 32 = regs (cpu s) 32" "regs (cpu (U s)) 33 = regs (cpu s) 33"
  "regs (cpu (U s)) (get_rs cir) = regs (cpu s) (get_rs cir)"
  "regs (cpu (U s)) (get_rt cir) = regs (cpu s) (get_rt cir)"
  using reg_fields_less [of cir] by (simp_all add: U_get)

lemma upd_mem_U: "upd_mem f (U s) = mapR U (upd_mem f s)"
  by (cases "f (gmem s)") (simp_all add: upd_mem_def U_gmem U_set_gmem)

lemmas U_push = U_put_low U_get_low U_gmem U_hstate U_local U_set_gmem U_set_hstate U_set_local
  U_set_tid U_set_status upd_mem_U bindR_mapR mapR_bindR

lemma writev_loop_U:
  "writev_loop os fd ptr cnt c tot (U s) =
     mapR (\<lambda>(t, s'). (t, U s')) (writev_loop os fd ptr cnt c tot s)"
proof (induction os fd ptr cnt c tot s rule: writev_loop.induct)
  case (1 os fd ptr cnt c tot s)
  then show ?case
    by (subst (1 2) writev_loop.simps)
       (auto simp: mapR_bindR U_gmem U_hstate U_set_hstate split: prod.splits intro!: bindR_cong)
qed

lemma syscall_exit_U: "mips_syscall_exit (U s) a0 = mapR U (mips_syscall_exit s a0)"
  by (simp add: mips_syscall_exit_def U_push get_reg_def Let_def split_def)

lemma syscall_exit_group_U: "mips_syscall_exit_group (U s) a0 = mapR U (mips_syscall_exit_group s a0)"
  by (simp add: mips_syscall_exit_group_def U_push get_reg_def Let_def split_def)

lemma syscall_set_thread_area_U: "mips_syscall_set_thread_area (U s) a0 = mapR U (mips_syscall_set_thread_area s a0)"
  by (simp add: mips_syscall_set_thread_area_def U_push get_reg_def Let_def split_def)

lemma syscall_tid_addr_U: "mips_syscall_tid_addr (U s) a0 = mapR U (mips_syscall_tid_addr s a0)"
  by (simp add: mips_syscall_tid_addr_def U_push get_reg_def Let_def split_def)

lemma syscall_read_U: "mips_syscall_read os (U s) a0 a1 a2 = mapR U (mips_syscall_read os s a0 a1 a2)"
  by (simp add: mips_syscall_read_def U_push get_reg_def Let_def split_def)

lemma syscall_write_U: "mips_syscall_write os (U s) a0 a1 a2 = mapR U (mips_syscall_write os s a0 a1 a2)"
  by (simp add: mips_syscall_write_def U_push get_reg_def Let_def split_def)

lemma syscall_open_U: "mips_syscall_open os (U s) a0 a1 a2 = mapR U (mips_syscall_open os s a0 a1 a2)"
  by (auto simp: mips_syscall_open_def U_push Let_def split_def intro!: bindR_cong)

lemma syscall_close_U: "mips_syscall_close os (U s) a0 = mapR U (mips_syscall_close os s a0)"
  by (simp add: mips_syscall_close_def U_push get_reg_def Let_def split_def)

lemma syscall_lseek_U: "mips_syscall_lseek os (U s) a0 a1 a2 = mapR U (mips_syscall_lseek os s a0 a1 a2)"
  by (simp add: mips_syscall_lseek_def U_push get_reg_def Let_def split_def)

lemma syscall_ioctl_U: "mips_syscall_ioctl os (U s) a0 a1 a2 = mapR U (mips_syscall_ioctl os s a0 a1 a2)"
  by (simp add: mips_syscall_ioctl_def U_push get_reg_def Let_def split_def split: option.split prod.split)

lemma syscall_writev_U: "mips_syscall_writev os (U s) a0 a1 a2 = mapR U (mips_syscall_writev os s a0 a1 a2)"
  by (simp add: mips_syscall_writev_def U_push writev_loop_U get_reg_def Let_def split_def)

lemma syscall_brk_U: "mips_syscall_brk os (U s) a0 = mapR U (mips_syscall_brk os s a0)"
  by (simp add: mips_syscall_brk_def U_push get_reg_def Let_def split_def)

lemma syscall_mmap2_U: "mips_syscall_mmap2 os (U s) a0 = mapR U (mips_syscall_mmap2 os s a0)"
  by (simp add: mips_syscall_mmap2_def U_push get_reg_def Let_def split_def)

lemma syscall_munmap_U: "mips_syscall_munmap (U s) = mapR U (mips_syscall_munmap s)"
  by (simp add: mips_syscall_munmap_def U_push get_reg_def Let_def split_def)

lemma syscall_mprotect_U: "mips_syscall_mprotect (U s) = mapR U (mips_syscall_mprotect s)"
  by (simp add: mips_syscall_mprotect_def U_push get_reg_def Let_def split_def)

lemma syscall_clock_gettime64_U: "mips_syscall_clock_gettime64 os (U s) a0 a1 = mapR U (mips_syscall_clock_gettime64 os s a0 a1)"
  by (simp add: mips_syscall_clock_gettime64_def U_push get_reg_def Let_def split_def split: option.split prod.split)

lemmas syscall_U =
  syscall_exit_U syscall_exit_group_U syscall_set_thread_area_U syscall_tid_addr_U
  syscall_read_U syscall_write_U syscall_open_U syscall_close_U syscall_lseek_U syscall_ioctl_U
  syscall_writev_U syscall_brk_U syscall_mmap2_U syscall_munmap_U syscall_mprotect_U
  syscall_clock_gettime64_U

lemma ITP_SYSCALL_U:
  "ITP_SYSCALL_IMPL os v0 a0 a1 a2 a3 (U s) = mapR U (ITP_SYSCALL_IMPL os v0 a0 a1 a2 a3 s)"
  by (simp add: ITP_SYSCALL_IMPL_def syscall_U)

lemma machine_instr_U:
  assumes "i \<in> machine_instrs"
  shows "interpret_instr os i cir (U s) = mapR U (interpret_instr os i cir s)"
  using assms unfolding machine_instrs_def
  by (elim insertE)
     (simp_all add: itp_type_defs impl_simps Let_def get_reg_def U_push ITP_SYSCALL_U)

lemma cpu_instr_U:
  assumes "i \<notin> jumps" "i \<notin> machine_instrs"
  shows "interpret_instr os i cir (U s) = mapR U (interpret_instr os i cir s)"
  by (cases i)
     (use assms in \<open>simp_all add: jumps_def machine_instrs_def itp_type_defs write_impls Let_def
        on_cpu_simps U_push\<close>)

lemma straight_U:
  "i \<notin> jumps \<Longrightarrow> interpret_instr os i cir (U s) = mapR U (interpret_instr os i cir s)"
  by (cases "i \<in> machine_instrs") (simp_all add: machine_instr_U cpu_instr_U)

lemma straight_fixpoint:
  assumes "i \<notin> jumps" "interpret_instr os i cir s = Inr s'" "U s = s"
  shows "U s' = s'"
  using straight_U [OF assms(1), of os cir s] assms(2,3) by simp

end

lemma inert_put_reg: "34 \<le> j \<Longrightarrow> inert (put_reg j v)"
  by unfold_locales
     (auto simp: put_reg_def upd_cpu_def set_reg_def fun_upd_twist)

definition set_branched :: "bool \<Rightarrow> 'h machine \<Rightarrow> 'h machine" where
  "set_branched b = upd_cpu (\<lambda>m. m\<lparr>branched := b\<rparr>)"

interpretation pc: inert "put_reg MIPS_R_PC v" for v by (rule inert_put_reg) simp
interpretation npc: inert "put_reg MIPS_R_NPC v" for v by (rule inert_put_reg) simp
interpretation nnpc: inert "put_reg MIPS_R_NNPC v" for v by (rule inert_put_reg) simp
interpretation taken: inert "set_branched b" for b
  by unfold_locales (auto simp: set_branched_def put_reg_def upd_cpu_def set_reg_def)

definition set_halted :: "'h machine \<Rightarrow> 'h machine" where
  "set_halted = upd_cpu (\<lambda>m. m\<lparr>halted := True\<rparr>)"

interpretation stopped: inert set_halted
  by unfold_locales (auto simp: set_halted_def put_reg_def upd_cpu_def set_reg_def)

lemma put_reg_id [simp]: "put_reg j (get_reg j s) s = s"
  by (simp add: put_reg_def upd_cpu_def set_reg_def get_reg_def)

text \<open>A straight-line instruction keeps every register from \<open>MIPS_R_PC\<close> on, and \<open>branched\<close>.\<close>

lemma straight_keeps_high:
  assumes "i \<notin> jumps" "interpret_instr os i cir s = Inr s'" "34 \<le> j"
  shows "get_reg j s' = get_reg j s"
  using inert.straight_fixpoint [OF inert_put_reg [OF assms(3)] assms(1,2), of "get_reg j s"]
  by (metis get_put_reg put_reg_id)

lemma straight_keeps_branched:
  assumes "i \<notin> jumps" "interpret_instr os i cir s = Inr s'"
  shows "branched (cpu s') = branched (cpu s)"
proof -
  have "set_branched (branched (cpu s)) s' = s'"
    by (rule taken.straight_fixpoint [OF assms]) (simp add: set_branched_def upd_cpu_def)
  then have "branched (cpu (set_branched (branched (cpu s)) s')) = branched (cpu s')" by simp
  then show ?thesis by (simp add: set_branched_def)
qed

section \<open>Branches\<close>

text \<open>
  Where a direct branch at \<open>pc\<close> goes, by the flag it leaves in \<open>branched\<close>.
\<close>

definition branch_target :: "mnemonic \<Rightarrow> u32 \<Rightarrow> u32 \<Rightarrow> bool \<Rightarrow> u32" where
  "branch_target i cir pc b =
     (if i \<in> {I_j, I_jal} then (pc AND 0xf0000000) OR push_bit 2 (get_imm26 cir)
      else if b then pc + push_bit 2 (scast (get_imm16 cir)) + 4 else pc + 8)"

lemmas branch_defs = jumps_def itp_type_defs impl_simps BRANCH_def NOT_BRANCH_def Let_def
  on_cpu_def upd_cpu_def put_reg_def get_reg_def

lemma branch_total: "i \<in> jumps \<Longrightarrow> \<exists>s'. interpret_instr os i cir s = Inr s'"
  unfolding jumps_def by (elim insertE) (simp_all add: itp_type_defs on_cpu_def)

lemma branch_npc:
  "i \<in> jumps \<Longrightarrow> interpret_instr os i cir (put_reg MIPS_R_NPC x s) =
     mapR (put_reg MIPS_R_NPC x) (interpret_instr os i cir s)"
  unfolding jumps_def
  by (elim insertE) (simp_all add: branch_defs set_reg_commute [of _ 35])

lemma branch_nnpc:
  "i \<in> jumps \<Longrightarrow> interpret_instr os i cir (put_reg MIPS_R_NNPC x s) = interpret_instr os i cir s"
  unfolding jumps_def
  by (elim insertE) (simp_all add: branch_defs set_reg_commute [of _ 36])

text \<open>A branch changes a register below 32, \<open>MIPS_R_NNPC\<close> and \<open>branched\<close>, and nothing else.\<close>

lemma branch_effect:
  assumes "i \<in> jumps" "interpret_instr os i cir s = Inr s'"
  shows "gmem s' = gmem s \<and> hstate s' = hstate s \<and> status (cpu s') = status (cpu s) \<and>
    halted (cpu s') = halted (cpu s) \<and> get_reg MIPS_R_PC s' = get_reg MIPS_R_PC s"
  using assms unfolding jumps_def
  by (elim insertE) (auto simp: branch_defs split: if_splits)

lemma branch_keeps_high:
  assumes "i \<in> jumps" "interpret_instr os i cir s = Inr s'" "32 \<le> j" "j \<noteq> MIPS_R_NNPC"
  shows "get_reg j s' = get_reg j s"
  using assms unfolding jumps_def
  by (elim insertE) (auto simp: branch_defs)

lemma direct_branch_target:
  assumes "i \<in> jumps - {I_jr, I_jalr}" "interpret_instr os i cir s = Inr s'"
  shows "get_reg MIPS_R_NNPC s' =
    branch_target i cir (get_reg MIPS_R_PC s) (branched (cpu s'))"
  using assms unfolding jumps_def
  by (elim DiffE insertE) (auto simp: branch_defs branch_target_def)

text \<open>No instruction clears \<open>halted\<close>.\<close>

lemma halted_stays:
  assumes "interpret_instr os i cir s = Inr s'" "halted (cpu s)"
  shows "halted (cpu s')"
proof (cases "i \<in> jumps")
  case True
  with assms show ?thesis by (simp add: branch_effect)
next
  case False
  have "set_halted s' = s'"
    by (rule stopped.straight_fixpoint [OF False assms(1)]) (simp add: assms(2) set_halted_def upd_cpu_def)
  then have "halted (cpu (set_halted s')) = halted (cpu s')" by simp
  then show ?thesis by (simp add: set_halted_def)
qed

section \<open>What only a system call can change\<close>

lemma upd_mem_keeps:
  "upd_mem f s = Inr s' \<Longrightarrow> cpu s' = cpu s" "upd_mem f s = Inr s' \<Longrightarrow> hstate s' = hstate s"
  by (auto elim: upd_mem_InrE)

lemma no_syscall_keeps:
  assumes "interpret_instr os i cir s = Inr s'" "i \<noteq> I_syscall"
  shows "hstate s' = hstate s \<and> status (cpu s') = status (cpu s) \<and>
    halted (cpu s') = halted (cpu s)"
proof (cases "i \<in> jumps")
  case True
  with assms show ?thesis by (simp add: branch_effect)
next
  case False
  with assms show ?thesis
    by (cases i)
       (auto simp: jumps_def itp_type_defs write_impls on_cpu_simps Let_def impl_simps
          upd_mem_keeps split: if_splits elim!: bindR_InrE)
qed

end
