(* ===== verification/Examples.thy ===== *)
theory Examples
  imports Memory_Spec Frame
begin

text \<open>
  The concrete host and machines that the witnesses of the properties use: a host without a
  state whose calls succeed and do nothing, and a machine with zero registers and one page of
  memory at address 0.
\<close>

definition demo_os :: "unit os" where
  "demo_os = \<lparr>os_calloc = (\<lambda>_ _. True), os_malloc = (\<lambda>_. True),
     os_read = (\<lambda>h fd n. (ucast n, replicate (unat n) 0, h)),
     os_write = (\<lambda>h fd bs. (of_nat (length bs), h)),
     os_open = (\<lambda>h name flags mode. (3, h)), os_close = (\<lambda>h fd. (0, h)),
     os_lseek = (\<lambda>h fd off whence. (off, h)), os_winsize = (\<lambda>h fd. (None, h)),
     os_clock = (\<lambda>h id. (Some (0, 0), h))\<rparr>"

lemma demo_os_simps [simp]:
  "os_calloc demo_os t e" "os_malloc demo_os n"
  "os_write demo_os h fd bs = (of_nat (length bs), h)"
  by (simp_all add: demo_os_def)

definition demo_machine :: "page \<Rightarrow> unit machine" where
  "demo_machine pg = \<lparr>cpu = zero_mips, gmem = one_page pg, hstate = ()\<rparr>"

lemma demo_machine_simps [simp]:
  "cpu (demo_machine pg) = zero_mips" "gmem (demo_machine pg) = one_page pg"
  "get_reg i (demo_machine pg) = 0" "regs zero_mips i = 0" "\<not> halted zero_mips"
  by (simp_all add: demo_machine_def get_reg_def zero_mips_def)

lemma one_page_read: "unat a \<le> 4092 \<Longrightarrow> \<exists>w. memory_read_u32 (one_page pg) a = Inr w"
  by (simp add: memory_read_u32_def load_bytes_eq one_page_flat in_page_def unat_page_offset)

text \<open>A page with the given 32-bit words from address 0 on.\<close>

definition words_page :: "u32 list \<Rightarrow> page" where
  "words_page ws = (\<lambda>x. if unat x div 4 < length ws
     then bytes_le 4 (ws ! (unat x div 4)) ! (unat x mod 4) else 0)"

lemma words_page_read:
  assumes "n < length ws" "length ws \<le> 1024"
  shows "memory_read_u32 (one_page (words_page ws)) (of_nat (4 * n)) = Inr (ws ! n)"
proof -
  let ?a = "of_nat (4 * n) :: u32"
  have "4 * n < 2 ^ 32" using assms by simp
  then have a: "unat ?a = 4 * n" by (simp only: unat_of_nat) simp
  have "byte_at (one_page (words_page ws)) (?a + of_nat k) = bytes_le 4 (ws ! n) ! k" if "k < 4" for k
  proof -
    have "unat ?a + 4 \<le> 2 ^ 32" unfolding a using assms by simp
    from unat_add_below [OF this that] have u: "unat (?a + of_nat k) = 4 * n + k" unfolding a .
    then have "unat (page_offset (?a + of_nat k)) = 4 * n + k"
      using that assms by (simp add: unat_page_offset)
    moreover have "(4 * n + k) div 4 = n" "(4 * n + k) mod 4 = k" using that by simp_all
    ultimately show ?thesis using u that assms by (simp add: one_page_flat words_page_def)
  qed
  then have "map (\<lambda>k. byte_at (one_page (words_page ws)) (?a + of_nat k)) [0..<4] = bytes_le 4 (ws ! n)"
    by (intro nth_equalityI) simp_all
  moreover have "mapped (one_page (words_page ws)) ?a" "in_page ?a 4"
    using a assms by (simp_all add: one_page_flat in_page_def unat_page_offset)
  ultimately show ?thesis
    by (simp add: memory_read_u32_def load_bytes_eq word_le_bytes_le)
qed

end
