(* ===== verification/Instruction_Spec.thy ===== *)
theory Instruction_Spec
  imports Examples
begin

text \<open>
  The properties of the instruction bodies of \<open>src/instructions.h\<close>: what the arithmetic
  computes over the integers, what the loads and stores do to memory, where branches go, and
  what an instruction leaves alone. The arithmetic properties state what the code does, also
  where MIPS32 asks for something else.
\<close>

section \<open>Words as integers\<close>

lemma uint_u32_less: "uint (x :: u32) < 2 ^ 32"
  using uint_bounded [of x] by simp

lemma sint_u32_bounds: "- (2 ^ 31) \<le> sint (x :: u32)" "sint (x :: u32) < 2 ^ 31"
  using sint_ge [of x] sint_lt [of x] by simp_all

lemma uint_ucast_u64: "uint (ucast (x :: u32) :: u64) = uint x"
proof -
  have "uint x < 2 ^ 64" using uint_u32_less [of x] by simp
  then show ?thesis by (simp add: unsigned_ucast_eq take_bit_int_eq_self)
qed

lemma uint_mult_u64: "uint ((ucast a :: u64) * ucast b) = uint (a :: u32) * uint (b :: u32)"
proof -
  have "uint a * uint b < 2 ^ 32 * 2 ^ 32"
    by (rule mult_strict_mono) (use uint_u32_less [of a] uint_u32_less [of b] in simp_all)
  then show ?thesis by (simp add: uint_word_ariths uint_ucast_u64)
qed

lemma uint_drop_bit: "uint (drop_bit n (v :: 'a::len word)) = uint v div 2 ^ n"
proof -
  have "uint (drop_bit n v) = drop_bit n (uint v)"
    by (simp add: unsigned_drop_bit_eq take_bit_int_eq_self uint_lt2p)
  then show ?thesis by (simp only: drop_bit_eq_div)
qed

lemma uint_push_bit: "uint (push_bit n (v :: u32)) = uint v * 2 ^ n mod 2 ^ 32"
proof -
  have "uint (push_bit n v) = take_bit 32 (push_bit n (uint v))" by (simp add: unsigned_push_bit_eq)
  then show ?thesis by (simp only: push_bit_eq_mult take_bit_eq_mod)
qed

lemma sint_signed_drop_bit: "sint (signed_drop_bit n (v :: u32)) = sint v div 2 ^ n"
  unfolding sint_signed_drop_bit_eq by (rule drop_bit_eq_div)

lemma u64_halves:
  fixes r :: u64
  shows "uint (ucast r :: u32) = uint r mod 2 ^ 32"
    and "uint (drop_bit 32 r) mod 2 ^ 32 = uint r div 2 ^ 32"
proof -
  show "uint (ucast r :: u32) = uint r mod 2 ^ 32"
    by (simp add: unsigned_ucast_eq take_bit_eq_mod)
  have b: "0 \<le> uint r" "uint r \<le> 2 ^ 64 - 1" using uint_bounded [of r] by simp_all
  have "uint (drop_bit 32 r) = uint r div 2 ^ 32"
    by (rule uint_drop_bit)
  moreover have "uint r div 2 ^ 32 \<le> (2 ^ 64 - 1) div 2 ^ 32"
    by (rule zdiv_mono1 [OF b(2)]) simp
  ultimately show "uint (drop_bit 32 r) mod 2 ^ 32 = uint r div 2 ^ 32"
    using b(1) by (simp add: mod_pos_pos_trivial pos_imp_zdiv_nonneg_iff)
qed

lemma sint_scast_u64: "sint (scast (x :: u32) :: u64) = sint x"
  using sint_u32_bounds [of x] by (simp add: signed_scast_eq signed_take_bit_int_eq_self)

lemma sint_mult_u64: "sint ((scast a :: u64) * scast b) = sint (a :: u32) * sint (b :: u32)"
proof -
  have "\<bar>sint a\<bar> \<le> 2 ^ 31" "\<bar>sint b\<bar> \<le> 2 ^ 31"
    using sint_u32_bounds [of a] sint_u32_bounds [of b] by (simp_all add: abs_le_iff)
  then have "\<bar>sint a\<bar> * \<bar>sint b\<bar> \<le> 2 ^ 31 * 2 ^ 31" by (intro mult_mono) simp_all
  then have "- (2 ^ 62) \<le> sint a * sint b" "sint a * sint b \<le> 2 ^ 62"
    by (simp_all add: abs_mult [symmetric] abs_le_iff)
  then show ?thesis
    by (simp add: sint_word_ariths sint_scast_u64 signed_take_bit_int_eq_self)
qed

lemma sint_top_bit:
  "sint (x :: u32) = uint x - 2 ^ 32 * of_bool (odd (uint x div 2 ^ 31))"
  "sint (r :: u64) = uint r - 2 ^ 64 * of_bool (odd (uint r div 2 ^ 63))"
  using uint_bounded [of x] uint_bounded [of r]
  by (simp_all add: sint_uint signed_take_bit_eq_take_bit_minus take_bit_int_eq_self
      bit_iff_odd_drop_bit drop_bit_eq_div)

lemma s64_halves:
  fixes r :: u64
  shows "sint (ucast (drop_bit 32 r) :: u32) * 2 ^ 32 + uint (ucast r :: u32) = sint r"
proof -
  have "uint r div 2 ^ 32 div 2 ^ 31 = uint r div 2 ^ 63" by (simp flip: zdiv_zmult2_eq)
  moreover have "uint r div 2 ^ 32 * 2 ^ 32 + uint r mod 2 ^ 32 = uint r" by (rule div_mult_mod_eq)
  ultimately show ?thesis
    unfolding sint_top_bit u64_halves by (simp add: algebra_simps)
qed

text \<open>\<open>mult\<close> and \<open>multu\<close> leave the exact 64-bit product in \<open>HI\<close> and \<open>LO\<close>.\<close>

lemma mult_product:
  "sint (regs (ITP_MULT_IMPL a b m) MIPS_R_HI) * 2 ^ 32 + uint (regs (ITP_MULT_IMPL a b m) MIPS_R_LO) =
     sint a * sint b \<and>
   uint (regs (ITP_MULTU_IMPL a b m) MIPS_R_HI) * 2 ^ 32 + uint (regs (ITP_MULTU_IMPL a b m) MIPS_R_LO) =
     uint a * uint b"
proof
  let ?s = "(scast a :: u64) * scast b" and ?u = "(ucast a :: u64) * ucast b"
  have s: "regs (ITP_MULT_IMPL a b m) MIPS_R_HI = ucast (drop_bit 32 ?s)"
    "regs (ITP_MULT_IMPL a b m) MIPS_R_LO = ucast ?s"
    by (simp_all add: ITP_MULT_IMPL_def set_hi_lo_def Let_def)
  show "sint (regs (ITP_MULT_IMPL a b m) MIPS_R_HI) * 2 ^ 32 +
      uint (regs (ITP_MULT_IMPL a b m) MIPS_R_LO) = sint a * sint b"
    unfolding s s64_halves sint_mult_u64 ..
  have u: "regs (ITP_MULTU_IMPL a b m) MIPS_R_HI = ucast (drop_bit 32 ?u)"
    "regs (ITP_MULTU_IMPL a b m) MIPS_R_LO = ucast ?u"
    by (simp_all add: ITP_MULTU_IMPL_def set_hi_lo_def Let_def)
  show "uint (regs (ITP_MULTU_IMPL a b m) MIPS_R_HI) * 2 ^ 32 +
      uint (regs (ITP_MULTU_IMPL a b m) MIPS_R_LO) = uint a * uint b"
    unfolding u u64_halves uint_mult_u64 by (rule div_mult_mod_eq)
qed

lemma sint_nonneg: "0 \<le> sint (x :: u32) \<Longrightarrow> sint x = uint x"
  using uint_u32_less [of x] unfolding sint_top_bit by (auto simp: of_bool_def split: if_splits)

lemma sint_small: "uint (x :: u32) < 2 ^ 31 \<Longrightarrow> sint x = uint x"
  using uint_bounded [of x] unfolding sint_top_bit by (simp add: div_pos_pos_trivial)

text \<open>C40: signed division of a non-negative by a positive operand leaves quotient and remainder;
  the code divides the unsigned values, so no more holds for the other signs.\<close>

theorem div_signed:
  assumes "0 \<le> sint a" "0 < sint b"
  shows "sint (regs (ITP_DIV_IMPL a b m) MIPS_R_LO) = sint a div sint b \<and>
    sint (regs (ITP_DIV_IMPL a b m) MIPS_R_HI) = sint a mod sint b"
proof -
  have b: "b \<noteq> 0" "sint b \<noteq> -1" using assms(2) by auto
  have eq: "sint a = uint a" "sint b = uint b" using assms by (simp_all add: sint_nonneg)
  have small: "uint a < 2 ^ 31" using sint_u32_bounds(2) [of a] eq(1) by simp
  have q: "uint (a div b) = uint a div uint b" "uint (a mod b) = uint a mod uint b"
    by (simp_all add: uint_div_distrib uint_mod_distrib)
  have "uint a div uint b \<le> uint a" "uint a mod uint b \<le> uint a"
    using assms eq zdiv_mono2 [of "uint a" 1 "uint b"] by (simp_all add: zmod_le_nonneg_dividend)
  with q small have "sint (a div b) = uint (a div b)" "sint (a mod b) = uint (a mod b)"
    by (simp_all add: sint_small)
  with b q eq show ?thesis by (simp add: ITP_DIV_IMPL_def set_hi_lo_def)
qed

lemma div_signed_witness: "sint (regs (ITP_DIV_IMPL 7 2 zero_mips) MIPS_R_LO) = 3"
proof -
  have "0 \<le> sint (7 :: u32)" "0 < sint (2 :: u32)" by simp_all
  from div_signed [OF this, of zero_mips] show ?thesis by simp
qed

text \<open>The arithmetic right shift is the signed division by a power of two, rounded down, the
  logical one the unsigned division, the left shift the product modulo \<open>2 ^ 32\<close>; \<open>divu\<close> leaves
  quotient and remainder, and all ones with the dividend when the divisor is 0.\<close>

lemma shift_divide:
  "sint (regs (ITP_SRA_IMPL rd sh v m) rd) = sint v div 2 ^ unat sh \<and>
   uint (regs (ITP_SRL_IMPL rd sh v m) rd) = uint v div 2 ^ unat sh \<and>
   uint (regs (ITP_SLL_IMPL rd sh v m) rd) = uint v * 2 ^ unat sh mod 2 ^ 32 \<and>
   uint (regs (ITP_DIVU_IMPL a b m) MIPS_R_LO) = (if b = 0 then 2 ^ 32 - 1 else uint a div uint b) \<and>
   uint (regs (ITP_DIVU_IMPL a b m) MIPS_R_HI) = uint a mod uint b"
  by (simp add: ITP_SRA_IMPL_def ITP_SRL_IMPL_def ITP_SLL_IMPL_def sint_signed_drop_bit
      uint_drop_bit uint_push_bit ITP_DIVU_IMPL_def set_hi_lo_def uint_div_distrib uint_mod_distrib)

lemma u64_low:
  "(ucast (x + y :: u64) :: u32) = ucast x + ucast y"
  "(ucast (x - y :: u64) :: u32) = ucast x - ucast y"
  by (simp_all add: word_uint_eq_iff uint_word_ariths u64_halves mod_simps mod_mod_cancel)

lemma u64_low_id:
  "(ucast (ucast (a :: u32) :: u64) :: u32) = a" "(ucast (scast (i :: u16) :: u64) :: u32) = scast i"
  by (auto intro!: bit_word_eqI simp: bit_simps)

lemma sint_ucast_u64: "sint (ucast (a :: u32) :: u64) = uint a"
proof -
  have "uint a div 2 ^ 63 = 0" using uint_u32_less [of a] uint_bounded [of a] by simp
  then show ?thesis by (simp add: sint_top_bit uint_ucast_u64)
qed

lemma sint_scast_u16: "sint (scast (i :: u16) :: u64) = sint i"
  using sint_ge [of i] sint_lt [of i] by (simp add: signed_scast_eq signed_take_bit_int_eq_self)

lemma sint_u64_sum: "sint ((ucast (a :: u32) :: u64) + scast (i :: u16)) = uint a + sint i"
proof -
  have "- 32768 \<le> sint i" "sint i < 32768" using sint_ge [of i] sint_lt [of i] by simp_all
  moreover have "uint a < 4294967296" using uint_u32_less [of a] by simp
  ultimately have "- 9223372036854775808 \<le> uint a + sint i" "uint a + sint i < 9223372036854775808"
    using uint_ge_0 [of a] by linarith+
  then show ?thesis
    by (simp add: sint_word_ariths sint_ucast_u64 sint_scast_u16 signed_take_bit_int_eq_self)
qed

lemma sint_u64_diff: "sint ((ucast (a :: u32) :: u64) - ucast (b :: u32)) = uint a - uint b"
proof -
  have "uint a < 4294967296" "uint b < 4294967296"
    using uint_u32_less [of a] uint_u32_less [of b] by simp_all
  then have "- 9223372036854775808 \<le> uint a - uint b" "uint a - uint b < 9223372036854775808"
    using uint_ge_0 [of a] uint_ge_0 [of b] by linarith+
  then show ?thesis by (simp add: sint_word_ariths sint_ucast_u64 signed_take_bit_int_eq_self)
qed

text \<open>C39: \<open>add\<close> and \<open>addi\<close> write the sum unless it exceeds the unsigned range, \<open>sub\<close> the
  difference unless it is below the signed range, both over the unsigned values of the
  registers: the code's condition, which is not the signed overflow of the instruction set.\<close>

theorem add_trap:
  "ITP_ADD_IMPL rd a b m = (if uint a + uint b < 2 ^ 32 then set_reg rd (a + b) m else m) \<and>
   ITP_ADDI_IMPL rd a i m = (if uint a + sint i < 2 ^ 32 then set_reg rd (a + scast i) m else m) \<and>
   ITP_SUB_IMPL rd a b m = (if - (2 ^ 31) \<le> uint a - uint b then set_reg rd (a - b) m else m)"
proof (intro conjI)
  have u64: "uint x < 2 ^ 64" for x :: u64 using uint_bounded [of x] by simp
  have "uint ((ucast a :: u64) + ucast b) = uint a + uint b"
    using uint_u32_less [of a] uint_u32_less [of b]
    by (simp add: uint_word_ariths uint_ucast_u64)
  then show "ITP_ADD_IMPL rd a b m = (if uint a + uint b < 2 ^ 32 then set_reg rd (a + b) m else m)"
    by (auto simp: ITP_ADD_IMPL_def Let_def U32MAX_def word_less_def u64_low u64_low_id)
  show "ITP_ADDI_IMPL rd a i m = (if uint a + sint i < 2 ^ 32 then set_reg rd (a + scast i) m else m)"
    by (auto simp: ITP_ADDI_IMPL_def Let_def U32MAX_def sint_u64_sum u64_low u64_low_id)
  show "ITP_SUB_IMPL rd a b m = (if - (2 ^ 31) \<le> uint a - uint b then set_reg rd (a - b) m else m)"
    by (auto simp: ITP_SUB_IMPL_def Let_def S32MIN_def sint_u64_diff u64_low u64_low_id)
qed

section \<open>Unaligned words\<close>

lemma word_offset:
  fixes a :: u32
  shows "a AND 3 = of_nat (unat a mod 4)" and "a AND NOT 3 = a - of_nat (unat a mod 4)"
proof -
  have "a AND 3 = take_bit 2 a" by (simp add: take_bit_eq_mask mask_eq_exp_minus_1)
  also have "\<dots> = of_nat (unat a mod 4)"
    by (simp add: word_unat_eq_iff unat_of_nat take_bit_eq_mod unat_mod_distrib)
  finally show low: "a AND 3 = of_nat (unat a mod 4)" .
  have "a AND NOT 3 = a - (a AND 3)"
  proof -
    have "(a AND 3) + (a AND NOT 3) = (a AND 3) OR (a AND NOT 3)"
      by (rule disjunctive_add) (auto simp only: bit_simps)
    also have "\<dots> = a" by (auto intro!: bit_word_eqI simp only: bit_simps possible_bit_word)
    finally show ?thesis by (simp add: algebra_simps)
  qed
  with low show "a AND NOT 3 = a - of_nat (unat a mod 4)" by simp
qed

lemma word_offset_3:
  fixes a :: u32
  shows "unat (a + 3) mod 4 = (if unat a mod 4 = 0 then 3 else unat a mod 4 - 1)"
proof -
  have "unat (a + 3) mod 4 = (unat a + 3) mod 4"
    by (simp add: unat_word_ariths mod_mod_cancel)
  also have "\<dots> = (unat a mod 4 + 3) mod 4" by (simp add: mod_simps)
  also have "\<dots> = (if unat a mod 4 = 0 then 3 else unat a mod 4 - 1)"
  proof -
    have "unat a mod 4 < 4" by simp
    then consider "unat a mod 4 = 0" | "unat a mod 4 = 1" | "unat a mod 4 = 2" | "unat a mod 4 = 3"
      by linarith
    then show ?thesis by cases simp_all
  qed
  finally show ?thesis .
qed

text \<open>The two merges, over the offset of the address in its word.\<close>

definition lwl_merge :: "nat \<Rightarrow> u32 \<Rightarrow> u32 \<Rightarrow> u32" where
  "lwl_merge k old w = (old AND NOT (push_bit (24 - 8 * k) 0xffffffff)) OR push_bit (24 - 8 * k) w"

definition lwr_merge :: "nat \<Rightarrow> u32 \<Rightarrow> u32 \<Rightarrow> u32" where
  "lwr_merge k old w = (old AND NOT (drop_bit (8 * k) 0xffffffff)) OR drop_bit (8 * k) w"

lemma bit_merges:
  assumes "i < 32"
  shows "bit (lwl_merge k old w) i = (if 24 - 8 * k \<le> i then bit w (i - (24 - 8 * k)) else bit old i)"
    and "bit (lwr_merge k old w) i = (if i + 8 * k < 32 then bit w (i + 8 * k) else bit old i)"
proof -
  have ones: "(0xffffffff :: u32) = -1" by simp
  have "\<not> i + 8 * k < 32 \<Longrightarrow> \<not> bit w (i + 8 * k)" by (simp add: impossible_bit)
  with assms show "bit (lwr_merge k old w) i = (if i + 8 * k < 32 then bit w (i + 8 * k) else bit old i)"
    unfolding lwr_merge_def ones by (auto simp: bit_simps add.commute)
  from assms show "bit (lwl_merge k old w) i = (if 24 - 8 * k \<le> i then bit w (i - (24 - 8 * k)) else bit old i)"
    unfolding lwl_merge_def ones by (auto simp: bit_simps)
qed

lemma offset_shift:
  assumes "k < 4"
  shows "unat (push_bit 3 (of_nat k :: u32)) = 8 * k" "unat (24 - push_bit 3 (of_nat k :: u32)) = 24 - 8 * k"
proof -
  have "k \<in> {0, 1, 2, 3}" using assms by auto
  then show "unat (push_bit 3 (of_nat k :: u32)) = 8 * k"
    "unat (24 - push_bit 3 (of_nat k :: u32)) = 24 - 8 * k" by auto
qed

lemma LWL_merge:
  "ITP_LWL_IMPL rt v i s =
     (let a = LOAD_COMPUTE_ADDRESS i v; k = unat a mod 4
      in bindR (memory_read_u32 (gmem s) (a - of_nat k)) (\<lambda>w.
           Inr (put_reg rt (lwl_merge k (get_reg rt s) w) s)))"
  unfolding ITP_LWL_IMPL_def Let_def word_offset lwl_merge_def
  by (simp only: offset_shift mod_less_divisor zero_less_numeral)

lemma LWR_merge:
  "ITP_LWR_IMPL rt v i s =
     (let a = LOAD_COMPUTE_ADDRESS i v; k = unat a mod 4
      in bindR (memory_read_u32 (gmem s) (a - of_nat k)) (\<lambda>w.
           Inr (put_reg rt (lwr_merge k (get_reg rt s) w) s)))"
  unfolding ITP_LWR_IMPL_def Let_def word_offset lwr_merge_def
  by (simp only: offset_shift mod_less_divisor zero_less_numeral)

text \<open>The bits of the unaligned word from those of the two aligned words around it.\<close>

lemma unaligned_bits:
  fixes B :: "u32 \<Rightarrow> u8"
  assumes "k < 4" "1 \<le> k" "i < 32"
    and "\<And>j. j < 32 \<Longrightarrow> bit l j = bit (B (a - of_nat k + of_nat (j div 8))) (j mod 8)"
    and "\<And>j. j < 32 \<Longrightarrow> bit h j = bit (B (a + 3 - of_nat (k - 1) + of_nat (j div 8))) (j mod 8)"
  shows "bit (lwr_merge k (lwl_merge (k - 1) old h) l) i = bit (B (a + of_nat (i div 8))) (i mod 8)"
proof (cases "i + 8 * k < 32")
  case True
  have "(i + 8 * k) div 8 = i div 8 + k" "(i + 8 * k) mod 8 = i mod 8" by simp_all
  with True assms(3,4) show ?thesis by (simp add: bit_merges)
next
  case False
  define j where "j = i - (32 - 8 * k)"
  have j: "24 - 8 * (k - 1) \<le> i" "i - (24 - 8 * (k - 1)) = j" "j < 32" "i + 8 * k = j + 32"
    using False assms(1-3) by (auto simp: j_def)
  have "(j + 32) div 8 = j div 8 + 4" "(j + 32) mod 8 = j mod 8" by presburger+
  with j(4) have "(i + 8 * k) div 8 = j div 8 + 4" "(i + 8 * k) mod 8 = j mod 8" by simp_all
  then have d: "i div 8 + k = j div 8 + 4" "i mod 8 = j mod 8" by simp_all
  then have "of_nat (i div 8) + of_nat k = (of_nat (j div 8) + 4 :: u32)"
    by (metis of_nat_add of_nat_numeral)
  moreover have "(of_nat (k - 1) :: u32) = of_nat k - 1" using assms(2) by (simp add: of_nat_diff)
  ultimately have eqs: "of_nat (i div 8) = (of_nat (j div 8) + 4 - of_nat k :: u32)"
    "(of_nat (k - 1) :: u32) = of_nat k - 1" by (simp_all only: eq_diff_eq)
  have "a + 3 - of_nat (k - 1) + of_nat (j div 8) = a + of_nat (i div 8)"
    by (simp only: eqs) simp
  with assms(5) [OF j(3)] have "bit h j = bit (B (a + of_nat (i div 8))) (i mod 8)"
    using d(2) by (simp only:)
  with False j(1,2) assms(3) show ?thesis by (simp only: bit_merges if_True if_False)
qed

text \<open>C19: the pair \<open>lwl\<close> at \<open>a + 3\<close>, \<open>lwr\<close> at \<open>a\<close> loads the word at any address \<open>a\<close>, aligned
  or not, across pages too, and changes nothing but its target register.\<close>

theorem unaligned_load:
  assumes "LOAD_COMPUTE_ADDRESS i1 v1 = a + 3" "LOAD_COMPUTE_ADDRESS i0 v0 = a"
    and "ITP_LWL_IMPL rt v1 i1 s = Inr s1" "ITP_LWR_IMPL rt v0 i0 s1 = Inr s2"
  shows "s2 = put_reg rt (get_reg rt s2) s \<and>
    (\<forall>i < 32. bit (get_reg rt s2) i = bit (byte_at (gmem s) (a + of_nat (i div 8))) (i mod 8))"
proof -
  let ?k = "unat a mod 4" and ?m = "unat (a + 3) mod 4"
  obtain h where h: "memory_read_u32 (gmem s) (a + 3 - of_nat ?m) = Inr h"
    and s1: "s1 = put_reg rt (lwl_merge ?m (get_reg rt s) h) s"
    using assms(3) unfolding LWL_merge assms(1) Let_def by (auto elim: bindR_InrE)
  obtain l where l: "memory_read_u32 (gmem s) (a - of_nat ?k) = Inr l"
    and s2: "s2 = put_reg rt (lwr_merge ?k (lwl_merge ?m (get_reg rt s) h) l) s"
    using assms(4) unfolding LWR_merge assms(2) Let_def s1 by (auto elim: bindR_InrE)
  have "bit (lwr_merge ?k (lwl_merge ?m (get_reg rt s) h) l) i =
      bit (byte_at (gmem s) (a + of_nat (i div 8))) (i mod 8)" if "i < 32" for i
  proof (cases "?k = 0")
    case True
    with l that show ?thesis by (simp add: bit_merges read_u32_iff)
  next
    case False
    then have m: "?m = ?k - 1" by (simp add: word_offset_3)
    show ?thesis unfolding m
      by (rule unaligned_bits) (use False that h l m in \<open>simp_all add: read_u32_iff\<close>)
  qed
  then show ?thesis by (simp add: s2)
qed

lemma unaligned_load_witness:
  "\<exists>s1 s2. ITP_LWL_IMPL 2 0 4 (demo_machine ucast) = Inr s1 \<and> ITP_LWR_IMPL 2 0 1 s1 = Inr s2 \<and>
     bit (get_reg 2 s2) 9"
proof -
  let ?s = "demo_machine ucast"
  have a: "LOAD_COMPUTE_ADDRESS 4 0 = 1 + 3" "LOAD_COMPUTE_ADDRESS 1 0 = 1"
    by (simp_all add: LOAD_COMPUTE_ADDRESS_def)
  obtain h l where "memory_read_u32 (one_page ucast) 4 = Inr h" "memory_read_u32 (one_page ucast) 0 = Inr l"
    using one_page_read [of 4 ucast] one_page_read [of 0 ucast] by auto
  then obtain s1 s2 where s: "ITP_LWL_IMPL 2 0 4 ?s = Inr s1" "ITP_LWR_IMPL 2 0 1 s1 = Inr s2"
    by (simp add: LWL_merge LWR_merge a Let_def)
  from unaligned_load [OF a s] have "bit (get_reg 2 s2) 9 = bit (byte_at (one_page ucast) 2) 1"
    by auto
  also have "\<dots>" by (simp add: one_page_flat page_offset_def)
  finally show ?thesis using s by blast
qed

section \<open>Stores and loads\<close>

lemma upd_mem_bindR:
  "bindR (upd_mem f s) g = bindR (f (gmem s)) (\<lambda>m. g (s\<lparr>gmem := m\<rparr>))"
  by (simp add: upd_mem_def bindR_assoc)

text \<open>A store followed by the load of its width from the same address sign- or zero-extends
  the low part of the stored register.\<close>

lemma store_then_load:
  "bindR (ITP_SB_IMPL b v i s) (ITP_LB_IMPL rt b i) =
     bindR (ITP_SB_IMPL b v i s) (\<lambda>s. Inr (put_reg rt (signed_take_bit 7 v) s)) \<and>
   bindR (ITP_SB_IMPL b v i s) (ITP_LBU_IMPL rt b i) =
     bindR (ITP_SB_IMPL b v i s) (\<lambda>s. Inr (put_reg rt (take_bit 8 v) s)) \<and>
   bindR (ITP_SH_IMPL b v i s) (ITP_LH_IMPL rt b i) =
     bindR (ITP_SH_IMPL b v i s) (\<lambda>s. Inr (put_reg rt (signed_take_bit 15 v) s)) \<and>
   bindR (ITP_SH_IMPL b v i s) (ITP_LHU_IMPL rt b i) =
     bindR (ITP_SH_IMPL b v i s) (\<lambda>s. Inr (put_reg rt (take_bit 16 v) s)) \<and>
   bindR (ITP_SW_IMPL b v i s) (ITP_LW_IMPL rt b i) =
     bindR (ITP_SW_IMPL b v i s) (\<lambda>s. Inr (put_reg rt v s))"
proof (intro conjI)
  have ext: "(scast (ucast v :: u8) :: u32) = signed_take_bit 7 v"
    "(ucast (ucast v :: u8) AND 0xff :: u32) = take_bit 8 v"
    "(scast (ucast v :: u16) :: u32) = signed_take_bit 15 v"
    "(ucast (ucast v :: u16) :: u32) = take_bit 16 v"
  proof -
    have ff: "(0xff :: u32) = mask 8" by (simp add: mask_eq_exp_minus_1)
    show "(ucast (ucast v :: u8) AND 0xff :: u32) = take_bit 8 v"
      unfolding ff by (auto intro!: bit_word_eqI simp: bit_simps)
  qed (auto intro!: bit_word_eqI simp: bit_simps min_def)
  note defs = upd_mem_bindR STORE_COMPUTE_ADDRESS_def LOAD_COMPUTE_ADDRESS_def Let_def
  show "bindR (ITP_SB_IMPL b v i s) (ITP_LB_IMPL rt b i) =
     bindR (ITP_SB_IMPL b v i s) (\<lambda>s. Inr (put_reg rt (signed_take_bit 7 v) s))"
    unfolding ITP_SB_IMPL_def ITP_LB_IMPL_def
    by (auto simp: defs ext dest: memory_write_read_u8 intro!: bindR_cong)
  show "bindR (ITP_SB_IMPL b v i s) (ITP_LBU_IMPL rt b i) =
     bindR (ITP_SB_IMPL b v i s) (\<lambda>s. Inr (put_reg rt (take_bit 8 v) s))"
    unfolding ITP_SB_IMPL_def ITP_LBU_IMPL_def
    by (auto simp: defs ext dest: memory_write_read_u8 intro!: bindR_cong)
  show "bindR (ITP_SH_IMPL b v i s) (ITP_LH_IMPL rt b i) =
     bindR (ITP_SH_IMPL b v i s) (\<lambda>s. Inr (put_reg rt (signed_take_bit 15 v) s))"
    unfolding ITP_SH_IMPL_def ITP_LH_IMPL_def
    by (auto simp: defs ext dest: memory_write_read_u16 intro!: bindR_cong)
  show "bindR (ITP_SH_IMPL b v i s) (ITP_LHU_IMPL rt b i) =
     bindR (ITP_SH_IMPL b v i s) (\<lambda>s. Inr (put_reg rt (take_bit 16 v) s))"
    unfolding ITP_SH_IMPL_def ITP_LHU_IMPL_def
    by (auto simp: defs ext dest: memory_write_read_u16 intro!: bindR_cong)
  show "bindR (ITP_SW_IMPL b v i s) (ITP_LW_IMPL rt b i) =
     bindR (ITP_SW_IMPL b v i s) (\<lambda>s. Inr (put_reg rt v s))"
    unfolding ITP_SW_IMPL_def ITP_LW_IMPL_def
    by (auto simp: defs dest: memory_write_read_u32 intro!: bindR_cong)
qed

section \<open>What an instruction changes\<close>

text \<open>C35: no instruction writes past \<open>MIPS_R_NNPC\<close> in the register file, so none writes
  outside its array.\<close>

theorem register_file_safe:
  assumes "interpret_instr os i cir s = Inr s'" "37 \<le> j"
  shows "get_reg j s' = get_reg j s"
  using assms branch_keeps_high [of i os cir s s' j] straight_keeps_high [of i os cir s s' j]
  by (cases "i \<in> jumps") simp_all

lemma register_file_safe_witness:
  "\<exists>s'. interpret_instr demo_os I_addiu 0x24420005 (demo_machine (\<lambda>_. 0)) = Inr s' \<and> get_reg 38 s' = 0"
proof -
  obtain s' where s': "interpret_instr demo_os I_addiu 0x24420005 (demo_machine (\<lambda>_. 0)) = Inr s'"
    by (simp add: itp_type_defs on_cpu_def)
  from register_file_safe [OF s', of 38] s' show ?thesis by simp
qed

text \<open>Only \<open>syscall\<close> changes the exit status, the halted flag or the host's state, and no
  instruction clears the flag.\<close>

lemma only_syscall_exits:
  assumes "interpret_instr os i cir s = Inr s'"
  shows "(halted (cpu s) \<longrightarrow> halted (cpu s')) \<and>
    (i \<noteq> I_syscall \<longrightarrow> hstate s' = hstate s \<and> status (cpu s') = status (cpu s) \<and>
       halted (cpu s') = halted (cpu s))"
  using halted_stays [OF assms] no_syscall_keeps [OF assms] by blast

lemma only_syscall_exits_witness:
  "\<exists>s'. interpret_instr demo_os I_addiu 0x24420005 (demo_machine (\<lambda>_. 0)) = Inr s' \<and> \<not> halted (cpu s')"
proof -
  obtain s' where s': "interpret_instr demo_os I_addiu 0x24420005 (demo_machine (\<lambda>_. 0)) = Inr s'"
    by (simp add: itp_type_defs on_cpu_def)
  from only_syscall_exits [OF s'] s' show ?thesis by simp
qed

text \<open>C34: an instruction that is not a branch neither reads nor writes the three program
  counters: running it commutes with setting any of them.\<close>

theorem straight_position_independent:
  assumes "i \<notin> jumps" "MIPS_R_PC \<le> j"
  shows "interpret_instr os i cir (put_reg j v s) = mapR (put_reg j v) (interpret_instr os i cir s)"
  by (rule inert.straight_U [OF inert_put_reg assms(1)]) (use assms(2) in simp)

lemma straight_position_independent_witness:
  "interpret_instr demo_os I_lw 0x8c430000 (put_reg MIPS_R_PC 64 (demo_machine (\<lambda>_. 0))) =
   mapR (put_reg MIPS_R_PC 64) (interpret_instr demo_os I_lw 0x8c430000 (demo_machine (\<lambda>_. 0)))"
proof -
  have "I_lw \<notin> jumps" by (simp add: jumps_def)
  then show ?thesis by (rule straight_position_independent) simp
qed

text \<open>A direct branch never faults, sends the delayed program counter to its target when it
  sets \<open>branched\<close> and past the delay slot when it clears it, and touches neither memory nor
  host.\<close>

lemma direct_branch_outcome:
  assumes "i \<in> jumps" "i \<noteq> I_jr" "i \<noteq> I_jalr"
  shows "\<exists>s'. interpret_instr os i cir s = Inr s' \<and>
    get_reg MIPS_R_NNPC s' = branch_target i cir (get_reg MIPS_R_PC s) (branched (cpu s')) \<and>
    gmem s' = gmem s \<and> hstate s' = hstate s"
  using branch_total [OF assms(1), of os cir s] branch_effect [OF assms(1)]
    direct_branch_target [of i os cir s] assms by blast

lemma direct_branch_outcome_witness:
  "\<exists>s'. interpret_instr demo_os I_beq 0x10000003 (demo_machine (\<lambda>_. 0)) = Inr s' \<and>
     gmem s' = one_page (\<lambda>_. 0)"
proof -
  have "I_beq \<in> jumps" "I_beq \<noteq> I_jr" "I_beq \<noteq> I_jalr" by (simp_all add: jumps_def)
  from direct_branch_outcome [OF this, of demo_os _ "demo_machine (\<lambda>_. 0)"] show ?thesis by fastforce
qed

end
