(* ===== verification/Syscall_Spec.thy ===== *)
theory Syscall_Spec
  imports Examples
begin

text \<open>
  The properties of the system calls of \<open>src/syscalls.h\<close> that manage memory and names: what
  \<open>mmap2\<close> and \<open>brk\<close> add to the address space, and the string that \<open>open\<close> hands to the host.
\<close>

section \<open>Lemmas\<close>

lemma heap_end_flat [simp]:
  "mapped (m\<lparr>mmap_heap_end := e\<rparr>) x = mapped m x" "byte_at (m\<lparr>mmap_heap_end := e\<rparr>) x = byte_at m x"
  "mapped_range (m\<lparr>mmap_heap_end := e\<rparr>) a sz = mapped_range m a sz"
  "mapped (m\<lparr>brk_heap_end := e\<rparr>) x = mapped m x" "byte_at (m\<lparr>brk_heap_end := e\<rparr>) x = byte_at m x"
  "mapped_range (m\<lparr>brk_heap_end := e\<rparr>) a sz = mapped_range m a sz"
  by (simp_all add: mapped_def byte_at_def page_at_def mapped_range_def)

lemma unmapped_byte: "\<not> mapped mem x \<Longrightarrow> byte_at mem x = 0"
  by (simp add: byte_at_def mapped_def)

lemma read_u8_eq:
  "memory_read_u8 mem a = (if mapped mem a then Inr (byte_at mem a) else Inl SegFault)"
proof -
  have "in_page a 1" using page_offset_less [of a] by (simp add: in_page_def)
  then show ?thesis by (simp add: memory_read_u8_def load_bytes_eq word_le_def)
qed

definition mmap_length :: "u32 \<Rightarrow> u32" where
  "mmap_length len = (len + 0xfff) AND NOT 0xfff"

section \<open>Properties\<close>

text \<open>C33: \<open>mmap2\<close> returns the end of its heap; the rounded length from there on is mapped and zero,
  all other bytes keep their value, and the next call starts after it. The end of the new space
  modulo \<open>2 ^ 32\<close> is at most \<open>USER_TOP\<close>: the space is below it unless it wraps around.\<close>

theorem mmap2_outcome:
  assumes "mips_syscall_mmap2 os s len = Inr s'"
  shows "let t = mmap_heap_end (gmem s); n = mmap_length len
    in get_reg MIPS_R_V0 s' = t \<and> get_reg MIPS_R_A3 s' = 0 \<and>
      (unat t + unat n) mod 2 ^ 32 \<le> unat USER_TOP \<and>
      mmap_heap_end (gmem s') = t + n \<and> mapped_range (gmem s') t n \<and>
      (mapped (gmem s) x \<longrightarrow> mapped (gmem s') x) \<and>
      byte_at (gmem s') x = (if unat (x - t) < unat n then 0 else byte_at (gmem s) x)"
proof -
  define t n where t_def: "t = mmap_heap_end (gmem s)" and n_def: "n = mmap_length len"
  from assms obtain m1 m2 where le: "t + n \<le> USER_TOP"
    and m1: "memory_allocate (os_calloc os) (gmem s) t n = Inr m1"
    and m2: "memory_set m1 (mmap_heap_end m1) n 0 = Inr m2"
    and s': "s' = put_reg MIPS_R_A3 0 (put_reg MIPS_R_V0 t
      (s\<lparr>gmem := m2\<lparr>mmap_heap_end := mmap_heap_end m2 + n\<rparr>\<rparr>))"
    by (auto simp: mips_syscall_mmap2_def t_def n_def mmap_length_def Let_def
        elim!: bindR_InrE upd_mem_InrE split: if_splits)
  note a = memory_allocate_flat [OF m1]
  have "mmap_heap_end m1 = t" using a(3) by (simp add: heap_bounds_def t_def)
  note m2 = m2 [unfolded this]
  have "mmap_heap_end m2 = t" using memory_set_InrD(4) [OF m2] a(3)
    by (simp add: heap_bounds_def t_def)
  moreover have "(unat t + unat n) mod 2 ^ 32 \<le> unat USER_TOP"
    using le by (simp add: word_le_nat_alt unat_word_ariths)
  ultimately show ?thesis
    using s' memory_set_InrD [OF m2] a
    unfolding Let_def t_def [symmetric] n_def [symmetric] by (auto simp: put_reg_gmem)
qed

lemma demo_fields [simp]:
  "mmap_heap_end (one_page pg) = 0" "brk_heap_end (one_page pg) = 0" "hstate (demo_machine pg) = ()"
  by (simp_all add: one_page_def empty_memory_def demo_machine_def)

lemma demo_allocate: "\<exists>mem'. memory_allocate (os_calloc demo_os) mem a sz = Inr mem'"
  by (rule memory_allocate_total) simp

lemma mmap2_outcome_witness:
  "\<exists>s'. mips_syscall_mmap2 demo_os (demo_machine (\<lambda>_. 7)) 5 = Inr s' \<and>
     get_reg MIPS_R_V0 s' = 0 \<and> mmap_heap_end (gmem s') = 4096 \<and> byte_at (gmem s') 9 = 0"
proof -
  let ?m = "one_page (\<lambda>_. 7)"
  obtain fd off where r: "memory_read_u32 ?m 16 = Inr fd" "memory_read_u32 ?m 20 = Inr off"
    using one_page_read [of 16] one_page_read [of 20] by fastforce
  obtain m1 where m1: "memory_allocate (os_calloc demo_os) ?m 0 4096 = Inr m1"
    using demo_allocate by blast
  have "mapped_range m1 0 4096"
    using allocated_range [OF m1] by (simp add: mapped_range_def)
  then obtain m2 where m2: "memory_set m1 0 4096 0 = Inr m2"
    using memory_copy_write_result [of 4096 "replicate 4096 0" m1 0]
    by (auto simp: memory_set_eq_copy)
  have "mmap_heap_end m1 = 0" using memory_allocate_flat(3) [OF m1] by (simp add: heap_bounds_def)
  with r m1 m2 obtain s' where s': "mips_syscall_mmap2 demo_os (demo_machine (\<lambda>_. 7)) 5 = Inr s'"
    by (simp add: mips_syscall_mmap2_def upd_mem_def USER_TOP_def)
  from mmap2_outcome [OF this, of 9] s' show ?thesis by (simp add: mmap_length_def)
qed

text \<open>\<open>brk\<close> returns the larger of the old end and its argument, the new end of the heap; the
  space between is mapped, no byte changes, and bytes of new pages are zero.\<close>

lemma brk_outcome:
  assumes "mips_syscall_brk os s b = Inr s'"
  shows "let e = brk_heap_end (gmem s)
    in get_reg MIPS_R_V0 s' = max e b \<and> brk_heap_end (gmem s') = max e b \<and>
      (e \<le> x \<and> x < b \<longrightarrow> mapped (gmem s') x) \<and> (mapped (gmem s) x \<longrightarrow> mapped (gmem s') x) \<and>
      byte_at (gmem s') x = (if mapped (gmem s) x then byte_at (gmem s) x else 0)"
proof (cases "b > brk_heap_end (gmem s)")
  case True
  define e where "e = brk_heap_end (gmem s)"
  from True assms obtain m where m: "memory_allocate (os_calloc os) (gmem s) e (b - e) = Inr m"
    and s': "s' = put_reg MIPS_R_V0 b (s\<lparr>gmem := m\<lparr>brk_heap_end := b\<rparr>\<rparr>)"
    by (auto simp: mips_syscall_brk_def e_def Let_def elim!: bindR_InrE)
  note a = memory_allocate_flat [OF m]
  have "mapped m x" if "e \<le> x" "x < b"
  proof -
    have "x \<le> b - 1" using that(2) by (simp add: word_le_nat_alt word_less_nat_alt unat_sub_if')
    with that(1) have "page_no e \<le> page_no x" "page_no x \<le> page_no (b - 1)"
      by (simp_all add: page_no_def div_le_mono word_le_nat_alt)
    with a(1) [of x] show ?thesis by (simp add: algebra_simps)
  qed
  with True s' a show ?thesis by (auto simp: unmapped_byte e_def Let_def)
next
  case False
  with assms have s': "s' = put_reg MIPS_R_V0 (brk_heap_end (gmem s)) (s\<lparr>gmem := gmem s\<rparr>)"
    by (simp add: mips_syscall_brk_def)
  have "\<not> (brk_heap_end (gmem s) \<le> x \<and> x < b)" using False by auto
  with False s' show ?thesis by (auto simp: max_def unmapped_byte Let_def)
qed

lemma brk_outcome_witness:
  "\<exists>s'. mips_syscall_brk demo_os (demo_machine (\<lambda>_. 7)) 0x2000 = Inr s' \<and>
     get_reg MIPS_R_V0 s' = 0x2000 \<and> mapped (gmem s') 0x1800 \<and> byte_at (gmem s') 9 = 7"
proof -
  obtain m where "memory_allocate (os_calloc demo_os) (one_page (\<lambda>_. 7)) 0 0x2000 = Inr m"
    using demo_allocate by blast
  then obtain s' where s': "mips_syscall_brk demo_os (demo_machine (\<lambda>_. 7)) 0x2000 = Inr s'"
    by (simp add: mips_syscall_brk_def)
  from brk_outcome [OF this, of 9] brk_outcome [OF this, of "0x1800"] s' show ?thesis
    by (simp add: one_page_flat max_def)
qed

section \<open>Names\<close>

lemma name_length_InrD:
  assumes "name_length fuel mem name sz = Inr n"
  shows "\<exists>k < fuel. n = sz + of_nat k + 1 \<and> byte_at mem (name + sz + of_nat k) = 0 \<and>
    (\<forall>j < k. byte_at mem (name + sz + of_nat j) \<noteq> 0) \<and>
    (\<forall>j \<le> k. mapped mem (name + sz + of_nat j))"
  using assms
proof (induction fuel arbitrary: sz)
  case 0
  then show ?case by (simp add: name_length.simps)
next
  case (Suc fuel)
  then have m: "mapped mem (name + sz)"
    by (simp add: name_length.simps [of "Suc fuel"] read_u8_eq split: if_splits)
  show ?case
  proof (cases "byte_at mem (name + sz) = 0")
    case True
    with Suc.prems m show ?thesis
      by (intro exI [of _ 0]) (simp add: name_length.simps [of "Suc fuel"] read_u8_eq)
  next
    case False
    with Suc.prems m have "name_length fuel mem name (sz + 1) = Inr n"
      by (simp add: name_length.simps [of "Suc fuel"] read_u8_eq)
    from Suc.IH [OF this] obtain k where k: "k < fuel" "n = sz + 1 + of_nat k + 1"
      "byte_at mem (name + (sz + 1) + of_nat k) = 0"
      "\<forall>j < k. byte_at mem (name + (sz + 1) + of_nat j) \<noteq> 0"
      "\<forall>j \<le> k. mapped mem (name + (sz + 1) + of_nat j)" by blast
    have shift: "name + sz + of_nat (Suc j) = name + (sz + 1) + of_nat j" for j by simp
    have "byte_at mem (name + sz + of_nat j) \<noteq> 0" if "j < Suc k" for j
      using that k(4) False by (cases j) (simp_all only: shift of_nat_0 add_0_right, simp_all)
    moreover have "mapped mem (name + sz + of_nat j)" if "j \<le> Suc k" for j
      using that k(5) m by (cases j) (simp_all only: shift of_nat_0 add_0_right, simp_all)
    moreover have "byte_at mem (name + sz + of_nat (Suc k)) = 0" using k(3) by (simp only: shift)
    ultimately show ?thesis using k(1,2) by (intro exI [of _ "Suc k"]) simp
  qed
qed

text \<open>The fuel of the scan is enough: it runs out only when no byte of the address space ends it.\<close>

lemma name_length_diverges:
  assumes "name_length fuel mem name sz = Inl Diverges" "k < fuel"
  shows "mapped mem (name + sz + of_nat k) \<and> byte_at mem (name + sz + of_nat k) \<noteq> 0"
  using assms
proof (induction fuel arbitrary: sz k)
  case (Suc fuel)
  from Suc.prems(1) have first: "mapped mem (name + sz)" "byte_at mem (name + sz) \<noteq> 0"
    and rest: "name_length fuel mem name (sz + 1) = Inl Diverges"
    by (auto simp: name_length.simps [of "Suc fuel"] read_u8_eq split: if_splits)
  show ?case
  proof (cases k)
    case (Suc j)
    with Suc.IH [OF rest, of j] Suc.prems(2) show ?thesis by (simp add: algebra_simps)
  qed (use first in simp)
qed simp

lemma name_fuel_enough:
  assumes "name_length (2 ^ 32) mem name 0 = Inl Diverges"
  shows "mapped mem x \<and> byte_at mem x \<noteq> 0"
proof -
  have "unat (x - name) < 2 ^ 32" using unat_u32_less [of "x - name"] by simp
  from name_length_diverges [OF assms this] show ?thesis by simp
qed

text \<open>The scan for the end of a name stops inside any address space with an unmapped byte.\<close>

lemma name_length_bound:
  assumes "\<forall>j \<le> k. mapped mem (name + of_nat j)" "\<not> mapped mem (z :: u32)" "k < 2 ^ 32"
  shows "unat (of_nat k + 1 :: u32) = Suc k"
proof -
  have "unat (z - name) < 2 ^ 32" using unat_u32_less [of "z - name"] by simp
  moreover have "name + of_nat (unat (z - name)) = z" by simp
  ultimately have "k < unat (z - name)" using assms(1,2) by (metis not_le_imp_less)
  then have "Suc k < 2 ^ 32" using unat_u32_less [of "z - name"] by simp
  then show ?thesis by (simp add: unat_word_ariths unat_of_nat)
qed

text \<open>\<open>open\<close> hands the host the guest's string up to and with its first NUL, the mode only
  when \<open>O_CREAT\<close> is given, and returns what the host returns.\<close>

lemma open_name:
  assumes "mips_syscall_open os s name flags mode = Inr s'" "\<not> mapped (gmem s) z"
  shows "\<exists>k fd h. byte_at (gmem s) (name + of_nat k) = 0 \<and>
    (\<forall>j < k. byte_at (gmem s) (name + of_nat j) \<noteq> 0) \<and>
    os_open os (hstate s) (map (\<lambda>j. byte_at (gmem s) (name + of_nat j)) [0..<Suc k]) flags
      (if flags AND O_CREAT \<noteq> 0 then Some (mode AND 0x1ff) else None) = (fd, h) \<and>
    s' = put_reg MIPS_R_V0 fd (s\<lparr>hstate := h\<rparr>)"
proof -
  from assms(1) obtain n buffer where n: "name_length (2 ^ 32) (gmem s) name 0 = Inr n"
    and buffer: "memory_copy_read (gmem s) name n = Inr buffer"
    and s': "(let (fd, h) = (if flags AND O_CREAT \<noteq> 0
           then os_open os (hstate s) buffer flags (Some (mode AND 0x1ff))
           else os_open os (hstate s) buffer flags None)
         in Inr (put_reg MIPS_R_V0 fd (s\<lparr>hstate := h\<rparr>))) = (Inr s' :: 'a machine result)"
    unfolding mips_syscall_open_def by (auto elim!: bindR_InrE split: if_splits)
  from name_length_InrD [OF n] obtain k where k: "k < 2 ^ 32" "n = of_nat k + 1"
    "byte_at (gmem s) (name + of_nat k) = 0" "\<forall>j < k. byte_at (gmem s) (name + of_nat j) \<noteq> 0"
    "\<forall>j \<le> k. mapped (gmem s) (name + of_nat j)" by auto
  have "unat n = Suc k" unfolding k(2) by (rule name_length_bound [OF k(5) assms(2) k(1)])
  with buffer have "buffer = map (\<lambda>j. byte_at (gmem s) (name + of_nat j)) [0..<Suc k]"
    by (simp add: memory_copy_read_eq del: upt_Suc split: if_splits)
  with s' k(3,4) show ?thesis
    by (intro exI [of _ k]) (auto split: prod.splits if_splits)
qed

lemma open_name_witness:
  "\<exists>s'. mips_syscall_open demo_os (demo_machine (\<lambda>_. 0)) 8 0 0 = Inr s' \<and> get_reg MIPS_R_V0 s' = 3"
proof -
  have "name_length (2 ^ 32) (one_page (\<lambda>_. 0)) 8 0 = Inr 1"
    by (subst name_length.simps) (simp add: read_u8_eq one_page_flat)
  moreover have "mapped_range (one_page (\<lambda>_. 0)) 8 1" by (simp add: mapped_range_def one_page_flat)
  ultimately obtain s' where s': "mips_syscall_open demo_os (demo_machine (\<lambda>_. 0)) 8 0 0 = Inr s'"
    by (simp add: mips_syscall_open_def memory_copy_read_eq demo_os_def)
  have "\<not> mapped (gmem (demo_machine (\<lambda>_. 0))) 0x1000" by (simp add: one_page_flat)
  from open_name [OF s' this] s' show ?thesis by (auto simp: demo_os_def)
qed

end
