(* ===== verification/Switch.thy ===== *)
theory Switch
  imports Decode
begin

text \<open>
  The switch interpreter of \<open>src/switch.c\<close>, the base line of the repository, and what the
  other interpreters are compared with: outcomes, and the fetch-execute interface
  \<open>fetch_execute\<close>, a locale whose laws the switch and the computed-goto loop both satisfy.
  A run takes the number of turns it may use; \<open>None\<close> says that it needs more.
\<close>

section \<open>The loop\<close>

text \<open>The nested \<open>switch\<close> statements: a \<open>case\<close> per row of the three lists.\<close>

definition switch_decode :: "u32 \<Rightarrow> u32 \<Rightarrow> mnemonic result" where
  "switch_decode pc cir =
     (case map_of INSTRUCTIONS_PRIMARY (field OP_SHIFT OP_MASK cir) of
        Some i \<Rightarrow> Inr i
      | None \<Rightarrow>
          if field OP_SHIFT OP_MASK cir = 0x0 then
            (case map_of INSTRUCTIONS_SECONDARY (field FN_SHIFT FN_MASK cir) of
               Some i \<Rightarrow> Inr i
             | None \<Rightarrow> Inl (UnknownSecondary pc cir))
          else if field OP_SHIFT OP_MASK cir = 0x1 then
            (case map_of INSTRUCTIONS_BRANCH (field RT_SHIFT RT_MASK cir) of
               Some i \<Rightarrow> Inr i
             | None \<Rightarrow> Inl (UnknownBranch pc cir))
          else Inl (UnknownPrimary pc cir))"

definition fetch :: "'h machine \<Rightarrow> u32 result" where
  "fetch s = memory_read_u32 (gmem s) (get_reg MIPS_R_PC s)"

definition switch_body :: "'h os \<Rightarrow> 'h machine \<Rightarrow> 'h machine result" where
  "switch_body os s =
     bindR (fetch s) (\<lambda>cir.
     bindR (switch_decode (get_reg MIPS_R_PC s) cir) (\<lambda>i.
     bindR (interpret_instr os i cir s) (\<lambda>s.
     Inr (upd_cpu INCREMENT_PC s))))"

fun interpreter_switch :: "'h os \<Rightarrow> nat \<Rightarrow> 'h machine \<Rightarrow> 'h machine result option" where
  "interpreter_switch os 0 s = (if halted (cpu s) then Some (Inr s) else None)"
| "interpreter_switch os (Suc fuel) s =
     (if halted (cpu s) then Some (Inr s)
      else case switch_body os s of
             Inl e \<Rightarrow> Some (Inl e)
           | Inr s' \<Rightarrow> interpreter_switch os fuel s')"

section \<open>Outcomes\<close>

text \<open>
  An illegal instruction word is a diagnosed \<open>abort\<close> in the switch interpreter and a jump
  through an empty or absent table entry in the others; two outcomes agree up to that.
\<close>

fun illegal :: "fault \<Rightarrow> bool" where
  "illegal (UnknownPrimary _ _) = True"
| "illegal (UnknownSecondary _ _) = True"
| "illegal (UnknownBranch _ _) = True"
| "illegal NullHandler = True"
| "illegal TableOverrun = True"
| "illegal _ = False"

definition same_outcome :: "'a result \<Rightarrow> 'a result \<Rightarrow> bool" where
  "same_outcome x y \<longleftrightarrow>
     (case x of
        Inl e \<Rightarrow> (case y of Inl f \<Rightarrow> e = f \<or> illegal e \<and> illegal f | Inr _ \<Rightarrow> False)
      | Inr a \<Rightarrow> y = Inr a)"

lemma same_outcome_simps [simp]:
  "same_outcome (Inr a) y \<longleftrightarrow> y = Inr a"
  "same_outcome x (Inr b) \<longleftrightarrow> x = Inr b"
  "same_outcome (Inl e) (Inl f) \<longleftrightarrow> e = f \<or> illegal e \<and> illegal f"
  by (auto simp: same_outcome_def split: sum.splits)

lemma same_outcome_refl [simp, intro]: "same_outcome x x"
  by (cases x) simp_all

lemma same_outcome_sym: "same_outcome x y \<Longrightarrow> same_outcome y x"
  by (cases x; cases y) auto

lemma same_outcome_bindR:
  assumes "same_outcome x y" and "\<And>a. x = Inr a \<Longrightarrow> same_outcome (f a) (g a)"
  shows "same_outcome (bindR x f) (bindR y g)"
  using assms by (cases x; cases y) auto

section \<open>The fetch-execute interface\<close>

text \<open>
  A fetch-execute interpreter: a dispatcher from an address and an instruction word to a
  mnemonic that agrees with the switch, and a fuelled run of the loop over it.
\<close>

definition execute_body ::
  "(u32 \<Rightarrow> u32 \<Rightarrow> mnemonic result) \<Rightarrow> 'h os \<Rightarrow> 'h machine \<Rightarrow> 'h machine result" where
  "execute_body dispatch os s =
     bindR (fetch s) (\<lambda>cir.
     bindR (dispatch (get_reg MIPS_R_PC s) cir) (\<lambda>i.
     bindR (interpret_instr os i cir s) (\<lambda>s.
     Inr (upd_cpu INCREMENT_PC s))))"

locale fetch_execute =
  fixes dispatch :: "u32 \<Rightarrow> u32 \<Rightarrow> mnemonic result"
    and run :: "'h os \<Rightarrow> nat \<Rightarrow> 'h machine \<Rightarrow> 'h machine result option"
  assumes dispatch_agrees: "same_outcome (dispatch pc cir) (switch_decode pc cir)"
    and run_halted: "halted (cpu s) \<Longrightarrow> run os fuel s = Some (Inr s)"
    and run_out: "\<not> halted (cpu s) \<Longrightarrow> run os 0 s = None"
    and run_step: "\<not> halted (cpu s) \<Longrightarrow> run os (Suc fuel) s =
      (case execute_body dispatch os s of Inl e \<Rightarrow> Some (Inl e) | Inr s' \<Rightarrow> run os fuel s')"
begin

lemma body_agrees: "same_outcome (execute_body dispatch os s) (switch_body os s)"
  unfolding execute_body_def switch_body_def
  by (intro same_outcome_bindR same_outcome_refl dispatch_agrees)

lemma run_agrees: "rel_option same_outcome (run os fuel s) (interpreter_switch os fuel s)"
proof (induction fuel arbitrary: s)
  case 0
  then show ?case by (cases "halted (cpu s)") (simp_all add: run_halted run_out)
next
  case (Suc fuel)
  show ?case
  proof (cases "halted (cpu s)")
    case True
    then show ?thesis by (simp add: run_halted)
  next
    case False
    with body_agrees [of os s] Suc.IH show ?thesis
      by (cases "execute_body dispatch os s"; cases "switch_body os s") (auto simp: run_step)
  qed
qed

lemma run_mono:
  assumes "run os fuel s = Some res" and "fuel \<le> fuel'"
  shows "run os fuel' s = Some res"
  using assms
proof (induction fuel arbitrary: s fuel')
  case 0
  then show ?case by (cases "halted (cpu s)") (auto simp: run_halted run_out)
next
  case (Suc fuel)
  show ?case
  proof (cases "halted (cpu s)")
    case True
    with Suc.prems show ?thesis by (simp add: run_halted)
  next
    case False
    from Suc.prems obtain n where n: "fuel' = Suc n" "fuel \<le> n" by (cases fuel') auto
    with False Suc.prems Suc.IH show ?thesis by (auto simp: run_step split: sum.splits)
  qed
qed

text \<open>The result of a run does not depend on the fuel it was given.\<close>

lemma run_unique:
  assumes "run os n s = Some a" "run os m s = Some b"
  shows "a = b"
  using run_mono [OF assms(1), of "max n m"] run_mono [OF assms(2), of "max n m"] by simp

lemma run_invariant:
  assumes "run os fuel s = Some (Inr s')" and "I s"
    and "\<And>s s'. I s \<Longrightarrow> \<not> halted (cpu s) \<Longrightarrow> execute_body dispatch os s = Inr s' \<Longrightarrow> I s'"
  shows "I s' \<and> halted (cpu s')"
  using assms(1,2)
proof (induction fuel arbitrary: s)
  case 0
  then show ?case by (cases "halted (cpu s)") (auto simp: run_halted run_out)
next
  case (Suc fuel)
  then show ?case
    by (cases "halted (cpu s)")
       (auto simp: run_halted run_step split: sum.splits dest: assms(3))
qed

end

lemma interpreter_switch_halted:
  "halted (cpu s) \<Longrightarrow> interpreter_switch os fuel s = Some (Inr s)"
  by (cases fuel) simp_all

interpretation sw: fetch_execute switch_decode interpreter_switch
  by unfold_locales
     (simp_all add: interpreter_switch_halted execute_body_def switch_body_def)

end
