(* ===== verification/Dispatch_Table.thy ===== *)
theory Dispatch_Table
  imports Switch
begin

text \<open>
  The dispatch tables of the threaded interpreters: C arrays of labels or handlers written with
  designated initialisers. Such an array ends after its largest index, and the entries between
  that have no initialiser are \<open>NULL\<close>. \<open>To_secondary\<close> and \<open>To_branch\<close> are the labels that
  dispatch again through the other two tables.
\<close>

datatype label = To_secondary | To_branch | To mnemonic

definition table_entry :: "(u32 \<times> 'a) list \<Rightarrow> u32 \<Rightarrow> 'a result" where
  "table_entry inits i =
     (if list_all (\<lambda>(j, _). j < i) inits then Inl TableOverrun
      else case map_of (rev inits) i of None \<Rightarrow> Inl NullHandler | Some x \<Rightarrow> Inr x)"

definition table_dispatch ::
  "(u32 \<times> label) list \<Rightarrow> (u32 \<times> mnemonic) list \<Rightarrow> (u32 \<times> mnemonic) list \<Rightarrow>
     u32 \<Rightarrow> mnemonic result" where
  "table_dispatch primary secondary branch cir =
     bindR (table_entry primary (field OP_SHIFT OP_MASK cir)) (\<lambda>l.
       case l of
         To_secondary \<Rightarrow> table_entry secondary (field FN_SHIFT FN_MASK cir)
       | To_branch \<Rightarrow> table_entry branch (field RT_SHIFT RT_MASK cir)
       | To i \<Rightarrow> Inr i)"

section \<open>Tables with the same entries as the instruction lists\<close>

text \<open>
  A set of tables matches the instruction lists when no index is initialised twice and the
  initialisers are those of the lists, plus the labels of the two other tables at 0 and 1.
\<close>

definition tables_match ::
  "(u32 \<times> label) list \<Rightarrow> (u32 \<times> mnemonic) list \<Rightarrow> (u32 \<times> mnemonic) list \<Rightarrow> bool" where
  "tables_match primary secondary branch \<longleftrightarrow>
     distinct (map fst primary) \<and> distinct (map fst secondary) \<and> distinct (map fst branch) \<and>
     set primary = set ((0, To_secondary) # (1, To_branch) #
       map (\<lambda>(k, i). (k, To i)) INSTRUCTIONS_PRIMARY) \<and>
     set secondary = set INSTRUCTIONS_SECONDARY \<and>
     set branch = set INSTRUCTIONS_BRANCH"

lemma set_eq_by_list_all:
  "list_all (\<lambda>x. x \<in> set ys) xs \<Longrightarrow> list_all (\<lambda>y. y \<in> set xs) ys \<Longrightarrow> set xs = set ys"
  by (auto simp: list_all_iff)

lemma instruction_lists_distinct:
  "distinct (map fst INSTRUCTIONS_PRIMARY)" "distinct (map fst INSTRUCTIONS_SECONDARY)"
  "distinct (map fst INSTRUCTIONS_BRANCH)" "0 \<notin> fst ` set INSTRUCTIONS_PRIMARY"
  "1 \<notin> fst ` set INSTRUCTIONS_PRIMARY"
  by (simp_all add: INSTRUCTIONS_PRIMARY_def INSTRUCTIONS_SECONDARY_def INSTRUCTIONS_BRANCH_def
      opcode_consts)

lemma table_entry_eq_Inr_iff:
  assumes "distinct (map fst inits)"
  shows "table_entry inits i = Inr x \<longleftrightarrow> (i, x) \<in> set inits"
proof -
  have d: "distinct (map fst (rev inits))" using assms by (simp flip: rev_map)
  show ?thesis
    using map_of_eq_Some_iff [OF d, of i x]
    by (auto simp: table_entry_def list_all_iff split: option.splits)
qed

lemma table_entry_Inl_illegal: "table_entry inits i = Inl e \<Longrightarrow> illegal e"
  by (auto simp: table_entry_def split: if_splits option.splits)

lemma table_entry_cases:
  assumes "distinct (map fst inits)"
  obtains x where "table_entry inits i = Inr x" "(i, x) \<in> set inits"
    | e where "table_entry inits i = Inl e" "illegal e" "i \<notin> fst ` set inits"
proof (cases "table_entry inits i")
  case (Inl e)
  have "i \<notin> fst ` set inits"
  proof
    assume "i \<in> fst ` set inits"
    then obtain x where "(i, x) \<in> set inits" by auto
    with Inl show False by (simp add: table_entry_eq_Inr_iff [OF assms, symmetric])
  qed
  with Inl that(2) show thesis by (simp add: table_entry_Inl_illegal)
next
  case (Inr x)
  with that(1) show thesis by (simp add: table_entry_eq_Inr_iff [OF assms])
qed

lemma map_of_distinct_None: "map_of xs k = None \<longleftrightarrow> k \<notin> fst ` set xs"
  by (simp add: map_of_eq_None_iff)

lemma list_entry_agrees:
  assumes "distinct (map fst inits)" "distinct (map fst rows)" "set inits = set rows" "illegal e"
  shows "same_outcome (table_entry inits k) (case map_of rows k of Some i \<Rightarrow> Inr i | None \<Rightarrow> Inl e)"
proof (cases rule: table_entry_cases [OF assms(1), of k])
  case (1 x)
  then have "map_of rows k = Some x" using assms(2,3) by simp
  with 1 show ?thesis by simp
next
  case (2 f)
  then have "map_of rows k = None" using assms(3) by (simp add: map_of_distinct_None)
  with 2 assms(4) show ?thesis by simp
qed

lemma table_dispatch_agrees:
  assumes "tables_match primary secondary branch"
  shows "same_outcome (table_dispatch primary secondary branch cir) (switch_decode pc cir)"
proof -
  let ?op = "field OP_SHIFT OP_MASK cir"
  note rows = instruction_lists_distinct
  have d: "distinct (map fst primary)"
    and set_primary: "set primary = {(0, To_secondary), (1, To_branch)} \<union>
      (\<lambda>(k, i). (k, To i)) ` set INSTRUCTIONS_PRIMARY"
    using assms by (simp_all add: tables_match_def)
  note sec = list_entry_agrees [of secondary INSTRUCTIONS_SECONDARY]
  note br = list_entry_agrees [of branch INSTRUCTIONS_BRANCH]
  show ?thesis
  proof (cases rule: table_entry_cases [OF d, of ?op])
    case (1 l)
    then consider "?op = 0" "l = To_secondary" | "?op = 1" "l = To_branch"
      | i where "l = To i" "(?op, i) \<in> set INSTRUCTIONS_PRIMARY"
      unfolding set_primary by auto
    then show ?thesis
    proof cases
      case a: 1
      then have "map_of INSTRUCTIONS_PRIMARY ?op = None"
        using rows by (simp add: map_of_distinct_None)
      with 1 a assms rows show ?thesis
        by (simp add: table_dispatch_def switch_decode_def tables_match_def sec)
    next
      case b: 2
      then have "map_of INSTRUCTIONS_PRIMARY ?op = None"
        using rows by (simp add: map_of_distinct_None)
      with 1 b assms rows show ?thesis
        by (simp add: table_dispatch_def switch_decode_def tables_match_def br)
    next
      case c: 3
      with rows have "map_of INSTRUCTIONS_PRIMARY ?op = Some i" by simp
      with 1 c show ?thesis by (simp add: table_dispatch_def switch_decode_def)
    qed
  next
    case (2 e)
    then have "?op \<noteq> 0" "?op \<noteq> 1" and "?op \<notin> fst ` set INSTRUCTIONS_PRIMARY"
      unfolding set_primary by force+
    with 2 show ?thesis
      by (simp add: table_dispatch_def switch_decode_def map_of_distinct_None [THEN iffD2])
  qed
qed

end
