(* ===== verification/Computed_Goto.thy ===== *)
theory Computed_Goto
  imports Dispatch_Table
begin

text \<open>
  The direct-threaded interpreter of \<open>src/computed-goto.c\<close>: \<open>DISPATCH\<close> tests
  \<open>mips->halted\<close>, reads the next instruction and jumps through the tables; each instruction's
  code ends with \<open>INCREMENT_PC\<close> and \<open>DISPATCH\<close>.
\<close>

section \<open>The tables\<close>

definition goto_primary :: "(u32 \<times> label) list" where
  "goto_primary =
    [(0, To_secondary), (1, To_branch), (J_OP, To I_j), (JAL_OP, To I_jal),
     (BEQ_OP, To I_beq), (BNE_OP, To I_bne), (BLEZ_OP, To I_blez), (BGTZ_OP, To I_bgtz),
     (ADDI_OP, To I_addi), (ADDIU_OP, To I_addiu), (SLTI_OP, To I_slti),
     (SLTIU_OP, To I_sltiu), (ANDI_OP, To I_andi), (ORI_OP, To I_ori), (XORI_OP, To I_xori),
     (LUI_OP, To I_lui), (LB_OP, To I_lb), (LH_OP, To I_lh), (LWL_OP, To I_lwl),
     (LW_OP, To I_lw), (LL_OP, To I_ll), (LBU_OP, To I_lbu), (LHU_OP, To I_lhu),
     (LWR_OP, To I_lwr), (SH_OP, To I_sh), (SWL_OP, To I_swl), (SW_OP, To I_sw),
     (SWR_OP, To I_swr), (SB_OP, To I_sb), (SC_OP, To I_sc), (RDHWR_OP, To I_rdhwr)]"

definition goto_secondary :: "(u32 \<times> mnemonic) list" where
  "goto_secondary =
    [(SLL_FN, I_sll), (SRL_FN, I_srl), (SRA_FN, I_sra), (SLLV_FN, I_sllv),
     (SRLV_FN, I_srlv), (SRAV_FN, I_srav), (JR_FN, I_jr), (JALR_FN, I_jalr),
     (SYSCALL_FN, I_syscall), (BRK_FN, I_brk), (MFHI_FN, I_mfhi), (MTHI_FN, I_mthi),
     (MFLO_FN, I_mflo), (MTLO_FN, I_mtlo), (MULT_FN, I_mult), (MULTU_FN, I_multu),
     (DIV_FN, I_div), (DIVU_FN, I_divu), (ADD_FN, I_add), (ADDU_FN, I_addu),
     (SUB_FN, I_sub), (SUBU_FN, I_subu), (AND_FN, I_and), (OR_FN, I_or), (XOR_FN, I_xor),
     (NOR_FN, I_nor), (SLT_FN, I_slt), (SLTU_FN, I_sltu), (SPECIAL_FN, I_special)]"

definition goto_branch :: "(u32 \<times> mnemonic) list" where
  "goto_branch =
    [(BLTZ_RT, I_bltz), (BGEZ_RT, I_bgez), (BLTZAL_RT, I_bltzal), (BGEZAL_RT, I_bgezal)]"

section \<open>The dispatch chain\<close>

definition goto_dispatch :: "u32 \<Rightarrow> mnemonic result" where
  "goto_dispatch cir = table_dispatch goto_primary goto_secondary goto_branch cir"

text \<open>
  \<open>goto_DISPATCH\<close> is the jump to the next instruction's code, \<open>goto_label\<close> that code with the
  \<open>DISPATCH\<close> at its end; the fuel counts the instructions.
\<close>

fun goto_DISPATCH :: "'h os \<Rightarrow> nat \<Rightarrow> 'h machine \<Rightarrow> 'h machine result option"
  and goto_label ::
    "'h os \<Rightarrow> nat \<Rightarrow> mnemonic \<Rightarrow> u32 \<Rightarrow> 'h machine \<Rightarrow> 'h machine result option" where
  "goto_DISPATCH os fuel s =
     (if halted (cpu s) then Some (Inr s)
      else case fuel of
        0 \<Rightarrow> None
      | Suc n \<Rightarrow>
        (case bindR (fetch s) (\<lambda>cir. bindR (goto_dispatch cir) (\<lambda>i. Inr (i, cir))) of
           Inl e \<Rightarrow> Some (Inl e)
         | Inr (i, cir) \<Rightarrow> goto_label os n i cir s))"
| "goto_label os fuel i cir s =
     (case interpret_instr os i cir s of
        Inl e \<Rightarrow> Some (Inl e)
      | Inr s' \<Rightarrow> goto_DISPATCH os fuel (upd_cpu INCREMENT_PC s'))"

declare goto_DISPATCH.simps [simp del] goto_label.simps [simp del]

definition interpreter_computed_goto ::
  "'h os \<Rightarrow> nat \<Rightarrow> 'h machine \<Rightarrow> 'h machine result option" where
  "interpreter_computed_goto os fuel s = goto_DISPATCH os fuel s"

section \<open>It is a fetch-execute interpreter\<close>

lemma goto_tables_match: "tables_match goto_primary goto_secondary goto_branch"
  unfolding tables_match_def
proof (intro conjI)
  show "set goto_primary = set ((0, To_secondary) # (1, To_branch) #
      map (\<lambda>(k, i). (k, To i)) INSTRUCTIONS_PRIMARY)"
    by (rule set_eq_by_list_all) (simp_all add: goto_primary_def INSTRUCTIONS_PRIMARY_def)
  show "set goto_secondary = set INSTRUCTIONS_SECONDARY"
    by (rule set_eq_by_list_all) (simp_all add: goto_secondary_def INSTRUCTIONS_SECONDARY_def)
  show "set goto_branch = set INSTRUCTIONS_BRANCH"
    by (rule set_eq_by_list_all) (simp_all add: goto_branch_def INSTRUCTIONS_BRANCH_def)
qed (simp_all add: goto_primary_def goto_secondary_def goto_branch_def opcode_consts)

lemma goto_dispatch_agrees: "same_outcome (goto_dispatch cir) (switch_decode pc cir)"
  unfolding goto_dispatch_def by (rule table_dispatch_agrees [OF goto_tables_match])

lemma goto_step:
  assumes "\<not> halted (cpu s)"
  shows "interpreter_computed_goto os (Suc fuel) s =
     (case execute_body (\<lambda>_. goto_dispatch) os s of
        Inl e \<Rightarrow> Some (Inl e)
      | Inr s' \<Rightarrow> interpreter_computed_goto os fuel s')"
proof -
  note unfold = interpreter_computed_goto_def goto_DISPATCH.simps [of os "Suc fuel" s]
    execute_body_def goto_label.simps [of os fuel _ _ s]
  show ?thesis
  proof (cases "fetch s")
    case (Inl e)
    with assms show ?thesis by (simp add: unfold)
  next
    case fetched: (Inr cir)
    show ?thesis
    proof (cases "goto_dispatch cir")
      case (Inl e)
      with assms fetched show ?thesis by (simp add: unfold)
    next
      case (Inr i)
      with assms fetched show ?thesis
        by (cases "interpret_instr os i cir s") (simp_all add: unfold)
    qed
  qed
qed

interpretation cg: fetch_execute "\<lambda>_. goto_dispatch" interpreter_computed_goto
proof unfold_locales
  show "same_outcome (goto_dispatch cir) (switch_decode pc cir)" for pc cir
    by (rule goto_dispatch_agrees)
  show "interpreter_computed_goto os fuel s = Some (Inr s)" if "halted (cpu s)"
    for s :: "'h machine" and os fuel
    using that by (simp add: interpreter_computed_goto_def goto_DISPATCH.simps)
  show "interpreter_computed_goto os 0 s = None" if "\<not> halted (cpu s)"
    for s :: "'h machine" and os
    using that by (simp add: interpreter_computed_goto_def goto_DISPATCH.simps)
qed (rule goto_step)

end
