(* ===== verification/Tail_Call.thy ===== *)
theory Tail_Call
  imports Dispatch_Table
begin

text \<open>
  The tail-calling interpreter of \<open>src/tail-call.c\<close>: a handler per instruction, which returns
  at once when the processor has halted, and otherwise executes its body, reads the next
  instruction and calls that instruction's handler. The next instruction is read and looked up
  before the test for \<open>halted\<close>, in the caller: this is the one difference to the switch.
\<close>

section \<open>The tables\<close>

definition tail_primary :: "(u32 \<times> label) list" where
  "tail_primary =
    [(0, To_secondary), (1, To_branch), (J_OP, To I_j), (JAL_OP, To I_jal),
     (BEQ_OP, To I_beq), (BNE_OP, To I_bne), (BLEZ_OP, To I_blez), (BGTZ_OP, To I_bgtz),
     (ADDI_OP, To I_addi), (ADDIU_OP, To I_addiu), (SLTI_OP, To I_slti),
     (SLTIU_OP, To I_sltiu), (ANDI_OP, To I_andi), (ORI_OP, To I_ori), (XORI_OP, To I_xori),
     (LUI_OP, To I_lui), (LB_OP, To I_lb), (LH_OP, To I_lh), (LWL_OP, To I_lwl),
     (LW_OP, To I_lw), (LL_OP, To I_ll), (LBU_OP, To I_lbu), (LHU_OP, To I_lhu),
     (LWR_OP, To I_lwr), (SH_OP, To I_sh), (SWL_OP, To I_swl), (SW_OP, To I_sw),
     (SWR_OP, To I_swr), (SB_OP, To I_sb), (SC_OP, To I_sc), (RDHWR_OP, To I_rdhwr)]"

definition tail_secondary :: "(u32 \<times> mnemonic) list" where
  "tail_secondary =
    [(SLL_FN, I_sll), (SRL_FN, I_srl), (SRA_FN, I_sra), (SLLV_FN, I_sllv),
     (SRLV_FN, I_srlv), (SRAV_FN, I_srav), (JR_FN, I_jr), (JALR_FN, I_jalr),
     (SYSCALL_FN, I_syscall), (BRK_FN, I_brk), (MFHI_FN, I_mfhi), (MTHI_FN, I_mthi),
     (MFLO_FN, I_mflo), (MTLO_FN, I_mtlo), (MULT_FN, I_mult), (MULTU_FN, I_multu),
     (DIV_FN, I_div), (DIVU_FN, I_divu), (ADD_FN, I_add), (ADDU_FN, I_addu),
     (SUB_FN, I_sub), (SUBU_FN, I_subu), (AND_FN, I_and), (OR_FN, I_or), (XOR_FN, I_xor),
     (NOR_FN, I_nor), (SLT_FN, I_slt), (SLTU_FN, I_sltu), (SPECIAL_FN, I_special)]"

definition tail_branch :: "(u32 \<times> mnemonic) list" where
  "tail_branch =
    [(BLTZ_RT, I_bltz), (BGEZ_RT, I_bgez), (BLTZAL_RT, I_bltzal), (BGEZAL_RT, I_bgezal)]"

section \<open>The handlers\<close>

definition tail_dispatch :: "u32 \<Rightarrow> mnemonic result" where
  "tail_dispatch cir = table_dispatch tail_primary tail_secondary tail_branch cir"

text \<open>The read of the next instruction and the choice of its handler.\<close>

definition tail_next :: "'h machine \<Rightarrow> (mnemonic \<times> u32) result" where
  "tail_next s = bindR (fetch s) (\<lambda>cir. bindR (tail_dispatch cir) (\<lambda>i. Inr (i, cir)))"

text \<open>\<open>interpret_name(cir, mips, memory)\<close>; the fuel counts the executed bodies.\<close>

fun tail_handler ::
  "'h os \<Rightarrow> nat \<Rightarrow> mnemonic \<Rightarrow> u32 \<Rightarrow> 'h machine \<Rightarrow> 'h machine result option" where
  "tail_handler os fuel i cir s =
     (if halted (cpu s) then Some (Inr s)
      else case fuel of
        0 \<Rightarrow> None
      | Suc n \<Rightarrow>
        (case interpret_instr os i cir s of
           Inl e \<Rightarrow> Some (Inl e)
         | Inr s' \<Rightarrow>
             let s'' = upd_cpu INCREMENT_PC s'
             in case tail_next s'' of
                  Inl e \<Rightarrow> Some (Inl e)
                | Inr (i', cir') \<Rightarrow> tail_handler os n i' cir' s''))"

declare tail_handler.simps [simp del]

definition interpreter_tail_call :: "'h os \<Rightarrow> nat \<Rightarrow> 'h machine \<Rightarrow> 'h machine result option" where
  "interpreter_tail_call os fuel s =
     (case tail_next s of
        Inl e \<Rightarrow> Some (Inl e)
      | Inr (i, cir) \<Rightarrow> tail_handler os fuel i cir s)"

section \<open>Agreement with the switch\<close>

lemma tail_tables_match: "tables_match tail_primary tail_secondary tail_branch"
  unfolding tables_match_def
proof (intro conjI)
  show "set tail_primary = set ((0, To_secondary) # (1, To_branch) #
      map (\<lambda>(k, i). (k, To i)) INSTRUCTIONS_PRIMARY)"
    by (rule set_eq_by_list_all) (simp_all add: tail_primary_def INSTRUCTIONS_PRIMARY_def)
  show "set tail_secondary = set INSTRUCTIONS_SECONDARY"
    by (rule set_eq_by_list_all) (simp_all add: tail_secondary_def INSTRUCTIONS_SECONDARY_def)
  show "set tail_branch = set INSTRUCTIONS_BRANCH"
    by (rule set_eq_by_list_all) (simp_all add: tail_branch_def INSTRUCTIONS_BRANCH_def)
qed (simp_all add: tail_primary_def tail_secondary_def tail_branch_def opcode_consts)

lemma tail_dispatch_agrees: "same_outcome (tail_dispatch cir) (switch_decode pc cir)"
  unfolding tail_dispatch_def by (rule table_dispatch_agrees [OF tail_tables_match])

text \<open>What the tail-calling interpreter does with the state in which the switch stops.\<close>

definition tail_stop :: "'h machine \<Rightarrow> 'h machine result" where
  "tail_stop s = bindR (tail_next s) (\<lambda>_. Inr s)"

lemma tail_next_Inr:
  assumes "tail_next s = Inr (i, cir)"
  shows "fetch s = Inr cir" "switch_decode (get_reg MIPS_R_PC s) cir = Inr i"
  using assms tail_dispatch_agrees [of cir "get_reg MIPS_R_PC s"]
  by (auto simp: tail_next_def elim!: bindR_InrE)

lemma tail_next_Inl:
  assumes "tail_next s = Inl e"
  shows "\<exists>f. switch_body os s = Inl f \<and> same_outcome (Inl e :: 'h machine result) (Inl f)"
proof (cases "fetch s")
  case (Inl f)
  with assms show ?thesis by (simp add: tail_next_def switch_body_def)
next
  case (Inr cir)
  with assms have "tail_dispatch cir = Inl e"
    by (cases "tail_dispatch cir") (simp_all add: tail_next_def)
  with tail_dispatch_agrees [of cir "get_reg MIPS_R_PC s"] Inr show ?thesis
    by (cases "switch_decode (get_reg MIPS_R_PC s) cir")
       (simp_all add: switch_body_def)
qed

lemma tail_handler_agrees:
  assumes "interpreter_switch os n s = Some res" and "tail_next s = Inr (i, cir)"
  shows "\<exists>t. tail_handler os n i cir s = Some t \<and> same_outcome t (bindR res tail_stop)"
  using assms
proof (induction n arbitrary: s i cir)
  case 0
  then have h: "halted (cpu s)" "res = Inr s" by (simp_all split: if_splits)
  with 0 show ?case by (simp add: tail_handler.simps tail_stop_def)
next
  case (Suc n)
  show ?case
  proof (cases "halted (cpu s)")
    case True
    with Suc.prems show ?thesis by (auto simp: tail_handler.simps tail_stop_def)
  next
    case False
    note dec = tail_next_Inr [OF Suc.prems(2)]
    show ?thesis
    proof (cases "interpret_instr os i cir s")
      case (Inl e)
      with False Suc.prems(1) dec have "res = Inl e" by (simp add: switch_body_def)
      with Inl False show ?thesis by (simp add: tail_handler.simps)
    next
      case (Inr s1)
      let ?s = "upd_cpu INCREMENT_PC s1"
      have rest: "interpreter_switch os n ?s = Some res"
        using False Inr Suc.prems(1) dec by (simp add: switch_body_def)
      show ?thesis
      proof (cases "tail_next ?s")
        case next_ok: (Inr p)
        obtain i' cir' where p: "p = (i', cir')" by (cases p)
        from Suc.IH [OF rest, of i' cir'] next_ok p False Inr show ?thesis
          by (simp add: tail_handler.simps [of os "Suc n"])
      next
        case next_bad: (Inl e)
        have "same_outcome (Inl e) (bindR res tail_stop)"
        proof (cases "halted (cpu ?s)")
          case True
          with rest have "res = Inr ?s" by (simp add: sw.run_halted)
          with next_bad show ?thesis by (simp add: tail_stop_def)
        next
          case running: False
          from tail_next_Inl [OF next_bad, of os] obtain f
            where f: "switch_body os ?s = Inl f" "same_outcome (Inl e :: 'a machine result) (Inl f)"
            by blast
          from rest running f show ?thesis by (cases n) auto
        qed
        with next_bad False Inr show ?thesis by (simp add: tail_handler.simps [of os "Suc n"])
      qed
    qed
  qed
qed

lemma tail_call_agrees:
  assumes "interpreter_switch os n s = Some res"
  shows "\<exists>t. interpreter_tail_call os n s = Some t \<and> same_outcome t (bindR res tail_stop)"
proof (cases "tail_next s")
  case (Inr p)
  then show ?thesis
    using tail_handler_agrees [OF assms] by (cases p) (simp add: interpreter_tail_call_def)
next
  case (Inl e)
  have "same_outcome (Inl e) (bindR res tail_stop)"
  proof (cases "halted (cpu s)")
    case True
    with assms have "res = Inr s" by (simp add: sw.run_halted)
    with Inl show ?thesis by (simp add: tail_stop_def)
  next
    case False
    from tail_next_Inl [OF Inl, of os] obtain f
      where "switch_body os s = Inl f" "same_outcome (Inl e :: 'a machine result) (Inl f)" by blast
    with assms False show ?thesis by (cases n) auto
  qed
  with Inl show ?thesis by (simp add: interpreter_tail_call_def)
qed

lemma tail_handler_sound:
  assumes "tail_handler os n i cir s = Some (Inr s')" and "tail_next s = Inr (i, cir)"
  shows "interpreter_switch os n s = Some (Inr s')"
  using assms
proof (induction n arbitrary: s i cir)
  case 0
  then show ?case by (simp add: tail_handler.simps split: if_splits)
next
  case (Suc n)
  show ?case
  proof (cases "halted (cpu s)")
    case True
    with Suc.prems show ?thesis by (simp add: tail_handler.simps)
  next
    case False
    with Suc.prems obtain s1 i' cir' where s1: "interpret_instr os i cir s = Inr s1"
      and nxt: "tail_next (upd_cpu INCREMENT_PC s1) = Inr (i', cir')"
      and rest: "tail_handler os n i' cir' (upd_cpu INCREMENT_PC s1) = Some (Inr s')"
      by (auto simp: tail_handler.simps [of os "Suc n"] Let_def split: sum.splits)
    from Suc.IH [OF rest nxt] False s1 tail_next_Inr [OF Suc.prems(2)] show ?thesis
      by (simp add: switch_body_def)
  qed
qed

lemma tail_call_sound:
  "interpreter_tail_call os n s = Some (Inr s') \<Longrightarrow> interpreter_switch os n s = Some (Inr s')"
  by (auto simp: interpreter_tail_call_def split: sum.splits intro: tail_handler_sound)

end
