(* ===== verification/Interpreter_Spec.thy ===== *)
theory Interpreter_Spec
  imports Computed_Goto Tail_Call Examples
begin

text \<open>
  The properties of the three fetch-execute interpreters: the threaded ones agree with the
  switch, results do not depend on the fuel, and a branch takes effect after its delay slot.
\<close>

section \<open>A process that exits\<close>

text \<open>\<open>syscall\<close>, \<open>j 0\<close> and a \<open>nop\<close>, entered with \<open>exit(3)\<close> in the argument registers.\<close>

definition exit_code :: "u32 list" where
  "exit_code = [0x0000000c, 0x08000000, 0x00000000]"

definition exit_start :: "unit machine" where
  "exit_start = put_reg MIPS_R_NPC 4 (put_reg MIPS_R_NNPC 8 (put_reg MIPS_R_V0 4001
     (put_reg MIPS_R_A0 3 (demo_machine (words_page exit_code)))))"

definition exit_stop :: "unit machine" where
  "exit_stop = put_reg MIPS_R_PC 4 (put_reg MIPS_R_NPC 8 (put_reg MIPS_R_NNPC 12
     (upd_cpu (\<lambda>m. m\<lparr>status := 3, halted := True\<rparr>) exit_start)))"

lemma exit_start_simps [simp]:
  "get_reg i exit_start = (if i = 35 then 4 else if i = 36 then 8 else if i = 2 then 4001
     else if i = 4 then 3 else 0)"
  "\<not> halted (cpu exit_start)" "gmem exit_start = one_page (words_page exit_code)"
  by (simp_all add: exit_start_def get_reg_def zero_mips_def demo_machine_def)

lemma exit_stop_simps [simp]:
  "halted (cpu exit_stop)" "status (cpu exit_stop) = 3"
  "gmem exit_stop = one_page (words_page exit_code)" "get_reg MIPS_R_PC exit_stop = 4"
  "get_reg 34 exit_stop = 4"
  by (simp_all add: exit_stop_def)

lemma exit_words:
  "memory_read_u32 (one_page (words_page exit_code)) 0 = Inr 0x0000000c"
  "memory_read_u32 (one_page (words_page exit_code)) 4 = Inr 0x08000000"
  "memory_read_u32 (one_page (words_page exit_code)) 8 = Inr 0x00000000"
  using words_page_read [of 0 exit_code] words_page_read [of 1 exit_code]
    words_page_read [of 2 exit_code] by (simp_all add: exit_code_def)

lemma exit_decode:
  "switch_decode pc 0x0000000c = Inr I_syscall" "switch_decode pc 0x08000000 = Inr I_j"
  "switch_decode pc 0 = Inr I_sll"
  by (simp_all add: switch_decode_def INSTRUCTIONS_PRIMARY_def INSTRUCTIONS_SECONDARY_def
      opcode_consts field_def field_consts)

lemma exit_step: "switch_body demo_os exit_start = Inr exit_stop"
  by (simp add: switch_body_def fetch_def exit_words exit_decode itp_type_defs
      ITP_SYSCALL_IMPL_def mips_syscall_exit_def NR_exit_def get_reg_def [symmetric])
     (simp add: exit_stop_def upd_cpu_def put_reg_def set_reg_def INCREMENT_PC_def get_reg_def
      exit_start_def fun_upd_twist)

lemma exit_run: "interpreter_switch demo_os 1 exit_start = Some (Inr exit_stop)"
  by (simp add: exit_step One_nat_def)

section \<open>Properties\<close>

text \<open>C9: with the same fuel, computed goto and the switch end alike: both still running, in the
  same state, or with the same fault, an illegal instruction counting as one fault.\<close>

theorem computed_goto_agrees:
  "rel_option same_outcome (interpreter_computed_goto os fuel s) (interpreter_switch os fuel s)"
  by (rule cg.run_agrees)

text \<open>C10: whatever the switch returns, the tail-call interpreter returns with the same fuel, after
  one more fetch and lookup: on a halted process that lookup can still fault.\<close>

theorem tail_call_complete:
  "case interpreter_switch os n s of
     None \<Rightarrow> True
   | Some res \<Rightarrow> \<exists>t. interpreter_tail_call os n s = Some t \<and> same_outcome t (bindR res tail_stop)"
  by (simp add: tail_call_agrees split: option.split)

text \<open>C11: a state that the tail-call interpreter returns is the one the switch returns.\<close>

theorem tail_call_result:
  assumes "interpreter_tail_call os n s = Some (Inr s')"
  shows "interpreter_switch os n s = Some (Inr s')"
  using assms by (rule tail_call_sound)

lemma tail_call_result_witness:
  "interpreter_tail_call demo_os 1 exit_start = Some (Inr exit_stop) \<and>
   interpreter_switch demo_os 1 exit_start = Some (Inr exit_stop)"
proof -
  have "tail_next exit_stop = Inr (I_j, 0x08000000)"
    using tail_dispatch_agrees [of "0x08000000" 4]
    by (simp add: tail_next_def fetch_def exit_words exit_decode)
  with tail_call_agrees [OF exit_run]
  have t: "interpreter_tail_call demo_os 1 exit_start = Some (Inr exit_stop)"
    by (simp add: tail_stop_def)
  with tail_call_result [OF t] show ?thesis by simp
qed

text \<open>The fuel only bounds the run: the switch, and the computed goto, have one result.\<close>

lemma runs_deterministic:
  "(interpreter_switch os n s = Some a \<and> interpreter_switch os m s = Some b \<longrightarrow> a = b) \<and>
   (interpreter_computed_goto os n s = Some a \<and> interpreter_computed_goto os m s = Some b \<longrightarrow> a = b)"
  by (blast intro: sw.run_unique cg.run_unique)

lemma runs_deterministic_witness:
  "the (interpreter_switch demo_os 7 exit_start) = the (interpreter_switch demo_os 1 exit_start)"
proof -
  have "interpreter_switch demo_os 7 exit_start = Some (Inr exit_stop)"
    by (rule sw.run_mono [OF exit_run]) simp
  with runs_deterministic [of demo_os 1 exit_start "Inr exit_stop" 7 "Inr exit_stop"] exit_run
  show ?thesis by simp
qed

text \<open>C20: the switch's program counters. After an instruction that is not a branch they move on by
  one place; after a direct branch the instruction in the delay slot is next, and the branch's
  target comes after it.\<close>

theorem switch_next_pc:
  assumes "fetch s = Inr cir" "switch_decode (get_reg MIPS_R_PC s) cir = Inr i" "switch_body os s = Inr s'"
  shows "get_reg MIPS_R_PC s' = get_reg MIPS_R_NPC s \<and>
    (i \<notin> jumps \<longrightarrow> get_reg MIPS_R_NPC s' = get_reg MIPS_R_NNPC s \<and>
       get_reg MIPS_R_NNPC s' = get_reg MIPS_R_NNPC s + 4) \<and>
    (i \<in> jumps - {I_jr, I_jalr} \<longrightarrow>
       get_reg MIPS_R_NPC s' = branch_target i cir (get_reg MIPS_R_PC s) (branched (cpu s')))"
proof -
  from assms obtain s1 where s1: "interpret_instr os i cir s = Inr s1"
    and s': "s' = upd_cpu INCREMENT_PC s1"
    by (auto simp: switch_body_def elim: bindR_InrE)
  have pcs: "get_reg MIPS_R_PC s' = get_reg MIPS_R_NPC s1" "get_reg MIPS_R_NPC s' = get_reg MIPS_R_NNPC s1"
    "get_reg MIPS_R_NNPC s' = get_reg MIPS_R_NNPC s1 + 4" "branched (cpu s') = branched (cpu s1)"
    by (simp_all add: s' get_reg_def)
  have npc: "get_reg MIPS_R_NPC s1 = get_reg MIPS_R_NPC s"
    using branch_keeps_high [OF _ s1, of MIPS_R_NPC] straight_keeps_high [OF _ s1, of MIPS_R_NPC]
    by (cases "i \<in> jumps") simp_all
  have "i \<notin> jumps \<Longrightarrow> get_reg MIPS_R_NNPC s1 = get_reg MIPS_R_NNPC s"
    using straight_keeps_high [OF _ s1, of MIPS_R_NNPC] by simp
  with pcs npc direct_branch_target [OF _ s1] show ?thesis by simp
qed

lemma switch_next_pc_witness: "get_reg MIPS_R_PC exit_stop = 4"
proof -
  have "fetch exit_start = Inr 0x0000000c" by (simp add: fetch_def exit_words)
  from switch_next_pc [OF this _ exit_step] show ?thesis by (simp add: exit_decode)
qed

end
