(* ===== verification/Blocked.thy ===== *)
theory Blocked
  imports Dispatch_Table Frame
begin

text \<open>
  The block-caching interpreter of \<open>src/blocked.c\<close>. \<open>decode_block\<close> decodes from the program
  counter up to a branch and its delay slot, into an array of operations that ends with a
  \<open>NULL\<close> handler; decoded blocks are kept in a hash table under their address and chained
  through their two \<open>next\<close> pointers. A block pointer is the address of its block: the table
  holds at most one block per address, and no block is freed before the end. The table is a
  partial map here; \<open>Blocked_Hash\<close> has the hash table.
\<close>

section \<open>State\<close>

text \<open>\<open>op_t\<close>, \<open>block_t\<close> (\<open>next[0]\<close> is \<open>blk_next False\<close>) and the interpreter's locals.\<close>

record op_t =
  op_cir :: u32
  op_op :: "mnemonic option"

record block =
  blk_address :: u32
  blk_size :: u32
  blk_ops :: "op_t list"
  blk_indirect :: bool
  blk_next :: "bool \<Rightarrow> u32 option"

record 'h blocked =
  bmach :: "'h machine"
  blocks :: "u32 \<Rightarrow> block option"
  previous :: "u32 option"

section \<open>The tables and the kinds of label\<close>

definition block_primary :: "(u32 \<times> label) list" where
  "block_primary =
    [(0, To_secondary), (1, To_branch), (J_OP, To I_j), (JAL_OP, To I_jal),
     (BEQ_OP, To I_beq), (BNE_OP, To I_bne), (BLEZ_OP, To I_blez), (BGTZ_OP, To I_bgtz),
     (ADDI_OP, To I_addi), (ADDIU_OP, To I_addiu), (SLTI_OP, To I_slti),
     (SLTIU_OP, To I_sltiu), (ANDI_OP, To I_andi), (ORI_OP, To I_ori), (XORI_OP, To I_xori),
     (LUI_OP, To I_lui), (LB_OP, To I_lb), (LH_OP, To I_lh), (LWL_OP, To I_lwl),
     (LW_OP, To I_lw), (LL_OP, To I_ll), (LBU_OP, To I_lbu), (LHU_OP, To I_lhu),
     (LWR_OP, To I_lwr), (SH_OP, To I_sh), (SWL_OP, To I_swl), (SW_OP, To I_sw),
     (SWR_OP, To I_swr), (SB_OP, To I_sb), (SC_OP, To I_sc), (RDHWR_OP, To I_rdhwr)]"

definition block_secondary :: "(u32 \<times> mnemonic) list" where
  "block_secondary =
    [(SLL_FN, I_sll), (SRL_FN, I_srl), (SRA_FN, I_sra), (SLLV_FN, I_sllv),
     (SRLV_FN, I_srlv), (SRAV_FN, I_srav), (JR_FN, I_jr), (JALR_FN, I_jalr),
     (SYSCALL_FN, I_syscall), (BRK_FN, I_brk), (MFHI_FN, I_mfhi), (MTHI_FN, I_mthi),
     (MFLO_FN, I_mflo), (MTLO_FN, I_mtlo), (MULT_FN, I_mult), (MULTU_FN, I_multu),
     (DIV_FN, I_div), (DIVU_FN, I_divu), (ADD_FN, I_add), (ADDU_FN, I_addu),
     (SUB_FN, I_sub), (SUBU_FN, I_subu), (AND_FN, I_and), (OR_FN, I_or), (XOR_FN, I_xor),
     (NOR_FN, I_nor), (SLT_FN, I_slt), (SLTU_FN, I_sltu), (SPECIAL_FN, I_special)]"

definition block_branch :: "(u32 \<times> mnemonic) list" where
  "block_branch =
    [(BLTZ_RT, I_bltz), (BGEZ_RT, I_bgez), (BLTZAL_RT, I_bltzal), (BGEZAL_RT, I_bgezal)]"

definition block_dispatch :: "u32 \<Rightarrow> mnemonic result" where
  "block_dispatch cir = table_dispatch block_primary block_secondary block_branch cir"

text \<open>
  The label macro of each instruction: \<open>LABEL_BRANCH_INDIRECT\<close>, \<open>LABEL_BRANCH\<close>, and
  \<open>LABEL\<close> for all others.
\<close>

definition LABELS_BRANCH_INDIRECT :: "mnemonic list" where
  "LABELS_BRANCH_INDIRECT = [I_jr, I_jalr]"

definition LABELS_BRANCH :: "mnemonic list" where
  "LABELS_BRANCH =
     [I_bltz, I_bgez, I_blez, I_bgtz, I_bltzal, I_bgezal, I_j, I_jal, I_beq, I_bne]"

definition is_indirect :: "mnemonic \<Rightarrow> bool" where
  "is_indirect i \<longleftrightarrow> i \<in> set LABELS_BRANCH_INDIRECT"

definition is_branch :: "mnemonic \<Rightarrow> bool" where
  "is_branch i \<longleftrightarrow> i \<in> set LABELS_BRANCH_INDIRECT \<or> i \<in> set LABELS_BRANCH"

section \<open>Decoding\<close>

text \<open>
  The dynamic array: a push at full capacity doubles it. Neither \<open>malloc\<close> nor \<open>realloc\<close> is
  checked, so a failed one is a store through \<open>NULL\<close>. An \<open>op_t\<close> has 16 bytes.
\<close>

record darray =
  da_ops :: "op_t list"
  da_size :: u32
  da_capacity :: u32

definition DARRAY_PUSH :: "'h os \<Rightarrow> u32 \<Rightarrow> mnemonic option \<Rightarrow> darray \<Rightarrow> darray result" where
  "DARRAY_PUSH os cir function d =
     bindR (if da_size d = da_capacity d then
              (let capacity = da_capacity d * 2
               in if os_malloc os (16 * unat capacity) then Inr (d\<lparr>da_capacity := capacity\<rparr>)
                  else Inl SegFault)
            else Inr d) (\<lambda>d.
       if da_size d < da_capacity d then
         Inr (d\<lparr>da_ops := da_ops d @ [\<lparr>op_cir = cir, op_op = function\<rparr>],
                da_size := da_size d + 1\<rparr>)
       else Inl HostOverrun)"

text \<open>
  The dispatch chain of \<open>decode_block\<close>, from a \<open>DISPATCH\<close> to \<open>complete\<close>. The fuel bounds
  the number of decoded instructions.
\<close>

fun decode_chain ::
  "'h os \<Rightarrow> nat \<Rightarrow> memory \<Rightarrow> bool \<Rightarrow> u32 \<Rightarrow> bool \<Rightarrow> bool \<Rightarrow> darray \<Rightarrow> (bool \<times> darray) result" where
  "decode_chain os fuel mem hlt pc brd ind d =
     (if fuel = 0 then Inl Diverges
      else bindR (memory_read_u32 mem pc) (\<lambda>cir.
        bindR (block_dispatch cir) (\<lambda>i.
        bindR (DARRAY_PUSH os cir (Some i) d) (\<lambda>d.
          if is_indirect i then decode_chain os (fuel - 1) mem hlt (pc + 4) True True d
          else if is_branch i then decode_chain os (fuel - 1) mem hlt (pc + 4) True ind d
          else if \<not> brd \<and> \<not> hlt then decode_chain os (fuel - 1) mem hlt (pc + 4) brd ind d
          else Inr (ind, d)))))"

declare decode_chain.simps [simp del]

text \<open>
  There are \<open>2 ^ 30\<close> aligned words, and decoding writes no memory: a chain of more than
  \<open>2 ^ 30\<close> words has read the same words with the same outcome before and never completes.
\<close>

definition DECODE_FUEL :: nat where "DECODE_FUEL = 2 ^ 30 + 2"

text \<open>A \<open>block_t\<close> has 96 bytes, 56 of them its hash handle; its \<open>malloc\<close> is not checked either.\<close>

definition decode_block :: "'h os \<Rightarrow> 'h machine \<Rightarrow> block result" where
  "decode_block os s =
     (let pc = get_reg MIPS_R_PC s; capacity = 32 :: u32
      in if \<not> os_malloc os (16 * unat capacity) then Inl SegFault
         else bindR (decode_chain os DECODE_FUEL (gmem s) (halted (cpu s)) pc False False
                \<lparr>da_ops = [], da_size = 0, da_capacity = capacity\<rparr>) (\<lambda>(indirect, d).
           bindR (DARRAY_PUSH os (op_cir (last (da_ops d))) None d) (\<lambda>d.
             if \<not> os_malloc os 96 then Inl SegFault
             else Inr \<lparr>blk_address = pc, blk_size = da_size d, blk_ops = da_ops d,
                    blk_indirect = indirect, blk_next = (\<lambda>_. None)\<rparr>)))"

section \<open>Executing a block\<close>

definition exec_op :: "'h os \<Rightarrow> op_t \<Rightarrow> 'h machine \<Rightarrow> 'h machine result" where
  "exec_op os x s =
     (case op_op x of None \<Rightarrow> Inl NullHandler | Some i \<Rightarrow> interpret_instr os i (op_cir x) s)"

text \<open>
  The loop is over the call \<open>call\<close> of an operation's handler: the state it changes is the machine,
  and the text that is printed too in the disassembling build.
\<close>

fun exec_n :: "(op_t \<Rightarrow> 's \<Rightarrow> 's result) \<Rightarrow> nat \<Rightarrow> op_t list \<Rightarrow> 's \<Rightarrow> (op_t list \<times> 's) result" where
  "exec_n call 0 ops s = Inr (ops, s)"
| "exec_n call (Suc n) [] s = Inl HostOverrun"
| "exec_n call (Suc n) (x # ops) s = bindR (call x s) (exec_n call n ops)"

lemma exec_n_ops: "exec_n call n ops s = Inr (ops', s') \<Longrightarrow> n \<le> length ops \<and> ops' = drop n ops"
  by (induction call n ops s rule: exec_n.induct) (auto elim!: bindR_InrE)

text \<open>The tail \<open>while (ops->op)\<close> of the unrolled loop, eight operations per turn.\<close>

definition UNROLL_SIZE :: nat where "UNROLL_SIZE = 8"

function unrolled_while :: "(op_t \<Rightarrow> 's \<Rightarrow> 's result) \<Rightarrow> op_t list \<Rightarrow> 's \<Rightarrow> 's result" where
  "unrolled_while call ops s =
     (case ops of
        [] \<Rightarrow> Inl HostOverrun
      | x # _ \<Rightarrow>
          if op_op x \<noteq> None
          then bindR (exec_n call UNROLL_SIZE ops s) (\<lambda>(ops', s'). unrolled_while call ops' s')
          else Inr s)"
  by pat_completeness auto
termination
  by (relation "measure (\<lambda>(call, ops, s). length ops)")
     (auto simp: UNROLL_SIZE_def dest!: exec_n_ops)

declare unrolled_while.simps [simp del]

text \<open>
  The \<open>switch\<close> into the loop: \<open>(size - 1) % 8\<close> operations first, and eight for the case 0.
\<close>

definition unrolled_loop :: "(op_t \<Rightarrow> 's \<Rightarrow> 's result) \<Rightarrow> u32 \<Rightarrow> op_t list \<Rightarrow> 's \<Rightarrow> 's result" where
  "unrolled_loop call sz ops s =
     (let k = unat (sz - 1) mod UNROLL_SIZE
      in bindR (exec_n call (if k = 0 then 8 else k) ops s) (\<lambda>(ops', s').
           unrolled_while call ops' s'))"

definition exec_block :: "'h os \<Rightarrow> block \<Rightarrow> 'h machine \<Rightarrow> 'h machine result" where
  "exec_block os blk s =
     (let s = put_reg MIPS_R_PC (get_reg MIPS_R_PC s + 4 * (blk_size blk - 3)) s
      in bindR (unrolled_loop (exec_op os) (blk_size blk) (blk_ops blk) s) (\<lambda>s.
           Inr (put_reg MIPS_R_PC (get_reg MIPS_R_NNPC s) s)))"

section \<open>The loops\<close>

text \<open>Chaining the previous block to the present one, in the direction it has branched.\<close>

definition link_previous :: "u32 \<Rightarrow> 'h blocked \<Rightarrow> (u32 \<times> 'h blocked) result" where
  "link_previous current b =
     (case previous b of
        None \<Rightarrow> Inr (current, b)
      | Some p \<Rightarrow>
          (case blocks b p of
             None \<Rightarrow> Inl SegFault
           | Some pb \<Rightarrow>
               if \<not> blk_indirect pb then
                 Inr (current, b\<lparr>blocks := (blocks b)(p \<mapsto> pb\<lparr>blk_next :=
                   (blk_next pb)(branched (cpu (bmach b)) := Some current)\<rparr>)\<rparr>)
               else Inr (current, b)))"

text \<open>
  The head of the outer loop: find or decode the block at the program counter, and chain the
  previous block to it.
\<close>

definition blocked_enter :: "'h os \<Rightarrow> 'h blocked \<Rightarrow> (u32 \<times> 'h blocked) result" where
  "blocked_enter os b =
     (let pc = get_reg MIPS_R_PC (bmach b)
      in bindR (case blocks b pc of
                  Some blk \<Rightarrow> Inr b
                | None \<Rightarrow> bindR (decode_block os (bmach b)) (\<lambda>blk.
                    Inr (b\<lparr>blocks := (blocks b)(blk_address blk \<mapsto> blk)\<rparr>))) (link_previous pc))"

text \<open>One turn of the inner loop; the result is the next block, \<open>NULL\<close> to leave the loop.\<close>

definition blocked_turn :: "'h os \<Rightarrow> u32 \<Rightarrow> 'h blocked \<Rightarrow> (u32 option \<times> 'h blocked) result" where
  "blocked_turn os current b =
     (case blocks b current of
        None \<Rightarrow> Inl SegFault
      | Some blk \<Rightarrow>
          bindR (exec_block os blk (bmach b)) (\<lambda>s.
            let nxt = blk_next blk (branched (cpu s));
                b = b\<lparr>bmach := s, previous := Some current\<rparr>
            in Inr (if nxt \<noteq> None \<and> \<not> blk_indirect blk \<and> \<not> halted (cpu s) then nxt else None, b)))"

text \<open>The fuel counts the executed blocks.\<close>

function blocked_outer :: "'h os \<Rightarrow> nat \<Rightarrow> 'h blocked \<Rightarrow> 'h blocked result option"
  and blocked_inner :: "'h os \<Rightarrow> nat \<Rightarrow> u32 \<Rightarrow> 'h blocked \<Rightarrow> 'h blocked result option" where
  "blocked_outer os fuel b =
     (if halted (cpu (bmach b)) then Some (Inr b)
      else case blocked_enter os b of
             Inl e \<Rightarrow> Some (Inl e)
           | Inr (current, b') \<Rightarrow> blocked_inner os fuel current b')"
| "blocked_inner os fuel current b =
     (case fuel of
        0 \<Rightarrow> None
      | Suc n \<Rightarrow>
        (case blocked_turn os current b of
           Inl e \<Rightarrow> Some (Inl e)
         | Inr (Some nxt, b') \<Rightarrow> blocked_inner os n nxt b'
         | Inr (None, b') \<Rightarrow> blocked_outer os n b'))"
  by pat_completeness auto
termination
  by (relation "measure (case_sum (\<lambda>(os, fuel, b). 2 * fuel + 1) (\<lambda>(os, fuel, c, b). 2 * fuel))") auto

declare blocked_outer.simps [simp del] blocked_inner.simps [simp del]

definition blocked_init :: "'h machine \<Rightarrow> 'h blocked" where
  "blocked_init s = \<lparr>bmach = s, blocks = Map.empty, previous = None\<rparr>"

text \<open>The blocks are freed at the end; the result of the run is the emulator's state.\<close>

definition interpreter_blocked :: "'h os \<Rightarrow> nat \<Rightarrow> 'h machine \<Rightarrow> 'h machine result option" where
  "interpreter_blocked os fuel s =
     map_option (\<lambda>r. bindR r (\<lambda>b. Inr (bmach b))) (blocked_outer os fuel (blocked_init s))"

end
