(* ===== verification/Blocked_Decode.thy ===== *)
theory Blocked_Decode
  imports Blocked
begin

text \<open>
  What \<open>decode_block\<close> produces: the words from the program counter up to the first branch and
  its delay slot, in an array that ends with the \<open>NULL\<close> handler and never overflows.
\<close>

section \<open>The tables\<close>

lemmas block_tables_def = block_primary_def block_secondary_def block_branch_def

lemma block_primary_set:
  "set block_primary =
    set ((0, To_secondary) # (1, To_branch) # map (\<lambda>(k, i). (k, To i)) INSTRUCTIONS_PRIMARY)"
  by (rule set_eq_by_list_all)
     (simp_all add: block_primary_def INSTRUCTIONS_PRIMARY_def opcode_consts)

lemma block_secondary_set: "set block_secondary = set INSTRUCTIONS_SECONDARY"
  by (rule set_eq_by_list_all)
     (simp_all add: block_secondary_def INSTRUCTIONS_SECONDARY_def opcode_consts)

lemma block_branch_set: "set block_branch = set INSTRUCTIONS_BRANCH"
  by (rule set_eq_by_list_all)
     (simp_all add: block_branch_def INSTRUCTIONS_BRANCH_def opcode_consts)

lemma block_tables_distinct:
  "distinct (map fst block_primary)" "distinct (map fst block_secondary)"
  "distinct (map fst block_branch)"
  by (simp_all add: block_tables_def opcode_consts)

lemma block_tables_match: "tables_match block_primary block_secondary block_branch"
  unfolding tables_match_def
  using block_tables_distinct block_primary_set block_secondary_set block_branch_set by blast

lemma block_dispatch_agrees: "same_outcome (block_dispatch cir) (switch_decode pc cir)"
  unfolding block_dispatch_def by (rule table_dispatch_agrees) (rule block_tables_match)

lemma block_dispatch_Inr: "block_dispatch cir = Inr i \<longleftrightarrow> switch_decode pc cir = Inr i"
  using block_dispatch_agrees [of cir pc]
  by (cases "block_dispatch cir"; cases "switch_decode pc cir") auto

lemma is_branch_jumps: "is_branch i \<longleftrightarrow> i \<in> jumps"
  by (auto simp: is_branch_def jumps_def LABELS_BRANCH_def LABELS_BRANCH_INDIRECT_def)

lemma is_indirect_branch: "is_indirect i \<Longrightarrow> is_branch i"
  by (simp add: is_indirect_def is_branch_def)

section \<open>The dynamic array\<close>

text \<open>The counter is the length, below the capacity or at it; the capacity is \<open>32 * 2 ^ k\<close>.\<close>

definition darray_ok :: "darray \<Rightarrow> bool" where
  "darray_ok d \<longleftrightarrow> unat (da_size d) = length (da_ops d) \<and> da_size d \<le> da_capacity d \<and>
     (\<exists>k. k \<le> 26 \<and> unat (da_capacity d) = 2 ^ (k + 5))"

lemma unat_double: "unat (c :: u32) < 2 ^ 31 \<Longrightarrow> unat (c * 2) = unat c * 2"
  by (simp add: unat_word_ariths)

lemma darray_grow:
  assumes "darray_ok d" "da_size d = da_capacity d" "length (da_ops d) < 2 ^ 31"
  shows "darray_ok (d\<lparr>da_capacity := da_capacity d * 2\<rparr>) \<and> da_size d < da_capacity d * 2"
proof -
  obtain k where k: "k \<le> 26" "unat (da_capacity d) = 2 ^ (k + 5)"
    and len: "unat (da_capacity d) = length (da_ops d)"
    using assms(1,2) by (auto simp: darray_ok_def)
  have "(2 :: nat) ^ (k + 5) < 2 ^ 31" using k(2) len assms(3) by simp
  then have "k + 5 < 31" by (rule power_less_imp_less_exp [rotated]) simp
  moreover have "unat (da_capacity d * 2) = unat (da_capacity d) * 2"
    using len assms(3) by (simp add: unat_double)
  moreover have "(2 :: nat) ^ (6 + k) = 2 ^ (k + 5) * 2" by (simp add: power_add)
  ultimately show ?thesis
    using k(2) assms(1,2)
    by (auto simp: darray_ok_def word_le_nat_alt word_less_nat_alt intro!: exI [of _ "Suc k"])
qed

lemma darray_append:
  assumes "darray_ok d" "da_size d < da_capacity d"
  shows "darray_ok (d\<lparr>da_ops := da_ops d @ [x], da_size := da_size d + 1\<rparr>)"
  using assms unat_Suc_less [OF assms(2)]
  by (simp add: darray_ok_def inc_le)

lemma DARRAY_PUSH_ok:
  assumes "darray_ok d" "length (da_ops d) < 2 ^ 31"
  shows "DARRAY_PUSH os cir f d = Inl SegFault \<or>
    (\<exists>d'. DARRAY_PUSH os cir f d = Inr d' \<and> darray_ok d' \<and>
       da_ops d' = da_ops d @ [\<lparr>op_cir = cir, op_op = f\<rparr>])"
proof (cases "da_size d = da_capacity d")
  case True
  note grow = darray_grow [OF assms(1) True assms(2)]
  with True show ?thesis
    using darray_append [of "d\<lparr>da_capacity := da_capacity d * 2\<rparr>" "\<lparr>op_cir = cir, op_op = f\<rparr>"]
    by (auto simp: DARRAY_PUSH_def Let_def)
next
  case False
  with assms(1) have "da_size d < da_capacity d" by (auto simp: darray_ok_def order_less_le)
  with False show ?thesis
    using darray_append [OF assms(1), of "\<lparr>op_cir = cir, op_op = f\<rparr>"]
    by (auto simp: DARRAY_PUSH_def)
qed

text \<open>The array a decoder starts with.\<close>

lemma darray_start: "darray_ok \<lparr>da_ops = [], da_size = 0, da_capacity = 32\<rparr>"
  by (simp add: darray_ok_def exI [of _ 0])

section \<open>The decoded operations\<close>

text \<open>
  \<open>ops\<close> are the words of memory from \<open>pc\<close> on, each with the handler of its word. Only the
  words at addresses of \<open>T\<close> are compared with memory, all of them when \<open>T\<close> is \<open>UNIV\<close>.
\<close>

primrec decoded :: "u32 set \<Rightarrow> memory \<Rightarrow> u32 \<Rightarrow> op_t list \<Rightarrow> bool" where
  "decoded T mem pc [] = True"
| "decoded T mem pc (x # ops) \<longleftrightarrow>
     (pc \<in> T \<longrightarrow> memory_read_u32 mem pc = Inr (op_cir x)) \<and>
     (\<exists>i. block_dispatch (op_cir x) = Inr i \<and> op_op x = Some i) \<and>
     decoded T mem (pc + 4) ops"

lemma decoded_mono:
  assumes "decoded U mem pc ops" "T \<subseteq> U"
    and "\<And>a. a \<in> T \<Longrightarrow> memory_read_u32 mem a = memory_read_u32 mem0 a"
  shows "decoded T mem0 pc ops"
  using assms by (induction ops arbitrary: pc) (auto simp: subset_iff)

definition op_test :: "(mnemonic \<Rightarrow> bool) \<Rightarrow> op_t \<Rightarrow> bool" where
  "op_test p x \<longleftrightarrow> (\<exists>i. op_op x = Some i \<and> p i)"

definition straight_op :: "op_t \<Rightarrow> bool" where "straight_op = op_test (\<lambda>i. \<not> is_branch i)"
definition branch_op :: "op_t \<Rightarrow> bool" where "branch_op = op_test is_branch"
definition indirect_op :: "op_t \<Rightarrow> bool" where "indirect_op = op_test is_indirect"

lemmas op_test_defs = straight_op_def branch_op_def indirect_op_def op_test_def

text \<open>
  The shape of a run of the decoder: instructions that are not branches, branches (at least
  one unless one was met before), and the delay slot.
\<close>

definition block_shape :: "bool \<Rightarrow> op_t list \<Rightarrow> bool" where
  "block_shape brd ops \<longleftrightarrow>
     (\<exists>xs bs y. ops = xs @ bs @ [y] \<and> list_all straight_op xs \<and> list_all branch_op bs \<and>
        straight_op y \<and> (if brd then xs = [] else bs \<noteq> []))"

lemma block_shape_last: "straight_op y \<Longrightarrow> block_shape True [y]"
  unfolding block_shape_def by (intro exI [of _ "[]"] exI [of _ y]) simp

lemma block_shape_branch:
  assumes "block_shape True ops" "branch_op x"
  shows "block_shape brd (x # ops)"
proof -
  obtain bs y where "ops = bs @ [y]" "list_all branch_op bs" "straight_op y"
    using assms(1) by (auto simp: block_shape_def)
  with assms(2) show ?thesis
    unfolding block_shape_def by (intro exI [of _ "[]"] exI [of _ "x # bs"] exI [of _ y]) simp
qed

lemma block_shape_straight:
  assumes "block_shape False ops" "straight_op x"
  shows "block_shape False (x # ops)"
proof -
  obtain xs bs y where "ops = xs @ bs @ [y]" "list_all straight_op xs" "list_all branch_op bs"
    "straight_op y" "bs \<noteq> []"
    using assms(1) by (auto simp: block_shape_def)
  with assms(2) show ?thesis
    unfolding block_shape_def
    by (intro exI [of _ "x # xs"] exI [of _ bs] exI [of _ y]) simp
qed

lemma decode_chain_Suc:
  assumes "decode_chain os (Suc fuel) mem False pc brd ind d = Inr (ind', d')"
    and "darray_ok d" "length (da_ops d) < 2 ^ 31"
  obtains x d1 where "decoded UNIV mem pc [x]" "da_ops d1 = da_ops d @ [x]" "darray_ok d1"
    "if branch_op x
     then decode_chain os fuel mem False (pc + 4) True (ind \<or> indirect_op x) d1 = Inr (ind', d')
     else if \<not> brd then decode_chain os fuel mem False (pc + 4) False ind d1 = Inr (ind', d')
     else ind' = ind \<and> d' = d1"
proof -
  from assms(1) obtain cir i d1 where cir: "memory_read_u32 mem pc = Inr cir"
    and i: "block_dispatch cir = Inr i" and d1: "DARRAY_PUSH os cir (Some i) d = Inr d1"
    and rest: "(if is_indirect i then decode_chain os (Suc fuel - 1) mem False (pc + 4) True True d1
        else if is_branch i then decode_chain os (Suc fuel - 1) mem False (pc + 4) True ind d1
        else if \<not> brd \<and> \<not> False then decode_chain os (Suc fuel - 1) mem False (pc + 4) brd ind d1
        else Inr (ind, d1)) = Inr (ind', d')"
    unfolding decode_chain.simps [of os "Suc fuel" mem False pc brd ind d]
    by (auto elim!: bindR_InrE)
  show thesis
  proof (rule that)
    show "decoded UNIV mem pc [\<lparr>op_cir = cir, op_op = Some i\<rparr>]" using cir i by simp
    show "da_ops d1 = da_ops d @ [\<lparr>op_cir = cir, op_op = Some i\<rparr>]" "darray_ok d1"
      using DARRAY_PUSH_ok [OF assms(2,3), of os cir "Some i"] d1 by auto
    show "if branch_op \<lparr>op_cir = cir, op_op = Some i\<rparr>
      then decode_chain os fuel mem False (pc + 4) True
        (ind \<or> indirect_op \<lparr>op_cir = cir, op_op = Some i\<rparr>) d1 = Inr (ind', d')
      else if \<not> brd then decode_chain os fuel mem False (pc + 4) False ind d1 = Inr (ind', d')
      else ind' = ind \<and> d' = d1"
      using rest by (auto simp: op_test_defs is_indirect_branch split: if_splits)
  qed
qed

lemma decode_chain_InrD:
  assumes "decode_chain os fuel mem False pc brd ind d = Inr (ind', d')"
    and "darray_ok d" "length (da_ops d) + fuel < 2 ^ 31"
  shows "\<exists>ops. da_ops d' = da_ops d @ ops \<and> length ops \<le> fuel \<and> darray_ok d' \<and>
    decoded UNIV mem pc ops \<and> block_shape brd ops \<and> ind' = (ind \<or> list_ex indirect_op ops)"
  using assms
proof (induction fuel arbitrary: pc brd ind d)
  case 0
  then show ?case by (simp add: decode_chain.simps [of os 0])
next
  case (Suc fuel)
  from Suc.prems have len: "length (da_ops d) < 2 ^ 31" by simp
  obtain x d1 where x: "decoded UNIV mem pc [x]" and d1: "da_ops d1 = da_ops d @ [x]" "darray_ok d1"
    and rest: "if branch_op x
     then decode_chain os fuel mem False (pc + 4) True (ind \<or> indirect_op x) d1 = Inr (ind', d')
     else if \<not> brd then decode_chain os fuel mem False (pc + 4) False ind d1 = Inr (ind', d')
     else ind' = ind \<and> d' = d1"
    by (rule decode_chain_Suc [OF Suc.prems(1,2) len])
  have kind: "branch_op x \<or> straight_op x" "straight_op x \<Longrightarrow> \<not> branch_op x \<and> \<not> indirect_op x"
    using x by (auto simp: op_test_defs is_indirect_branch)
  have len1: "length (da_ops d1) + fuel < 2 ^ 31" using Suc.prems(3) d1(1) by simp
  have combine: ?case if "da_ops d' = da_ops d1 @ ops" "length ops \<le> fuel" "darray_ok d'"
    "decoded UNIV mem (pc + 4) ops" "block_shape brd (x # ops)"
    "ind' = (ind \<or> indirect_op x \<or> list_ex indirect_op ops)" for ops
    using that x d1 by (intro exI [of _ "x # ops"]) auto
  consider "branch_op x" | "straight_op x" "\<not> brd" | "straight_op x" "brd" using kind(1) by blast
  then show ?case
  proof cases
    case 1
    with rest have "decode_chain os fuel mem False (pc + 4) True (ind \<or> indirect_op x) d1 = Inr (ind', d')"
      by simp
    from Suc.IH [OF this d1(2) len1] show ?thesis
      using combine block_shape_branch 1 by auto
  next
    case 2
    with kind(2) rest have "decode_chain os fuel mem False (pc + 4) False ind d1 = Inr (ind', d')"
      by simp
    from Suc.IH [OF this d1(2) len1] show ?thesis
      using combine block_shape_straight 2 kind(2) by auto
  next
    case 3
    with kind(2) rest have "ind' = ind" "d' = d1" by simp_all
    then show ?thesis using combine [of "[]"] block_shape_last 3 kind(2) d1 by auto
  qed
qed

text \<open>A decoded block, with the words of \<open>mem\<close> from \<open>pc\<close> on, as far as they are in \<open>T\<close>.\<close>

definition block_of :: "u32 set \<Rightarrow> memory \<Rightarrow> u32 \<Rightarrow> block \<Rightarrow> bool" where
  "block_of T mem pc blk \<longleftrightarrow>
     (\<exists>ops x. blk_ops blk = ops @ [x] \<and> op_op x = None \<and> decoded T mem pc ops \<and>
        block_shape False ops \<and> length ops < 2 ^ 31 \<and> unat (blk_size blk) = Suc (length ops) \<and>
        blk_indirect blk = list_ex indirect_op ops) \<and>
     blk_address blk = pc"

lemma block_of_mono:
  assumes "block_of U mem pc blk" "T \<subseteq> U"
    and "\<And>a. a \<in> T \<Longrightarrow> memory_read_u32 mem a = memory_read_u32 mem0 a"
  shows "block_of T mem0 pc blk"
  using assms(1) decoded_mono [OF _ assms(2,3)] by (auto simp: block_of_def)

lemma decode_block_InrD:
  assumes "decode_block os s = Inr blk" "\<not> halted (cpu s)"
  shows "block_of UNIV (gmem s) (get_reg MIPS_R_PC s) blk \<and> blk_next blk = (\<lambda>_. None)"
proof -
  obtain d0 where d0: "d0 = \<lparr>da_ops = [], da_size = 0, da_capacity = 32\<rparr>" by blast
  from assms obtain ind d1 d2 where
    chain: "decode_chain os DECODE_FUEL (gmem s) False (get_reg MIPS_R_PC s) False False d0 = Inr (ind, d1)"
    and push: "DARRAY_PUSH os (op_cir (last (da_ops d1))) None d1 = Inr d2"
    and blk: "blk = \<lparr>blk_address = get_reg MIPS_R_PC s, blk_size = da_size d2, blk_ops = da_ops d2,
      blk_indirect = ind, blk_next = (\<lambda>_. None)\<rparr>"
    by (auto simp: decode_block_def d0 Let_def split: if_splits elim!: bindR_InrE)
  have "darray_ok d0" "length (da_ops d0) + DECODE_FUEL < 2 ^ 31"
    by (simp_all add: d0 darray_start DECODE_FUEL_def)
  from decode_chain_InrD [OF chain this] obtain ops where ops: "da_ops d1 = ops"
    "length ops \<le> DECODE_FUEL" "darray_ok d1" "decoded UNIV (gmem s) (get_reg MIPS_R_PC s) ops"
    "block_shape False ops" "ind = list_ex indirect_op ops"
    by (auto simp: d0)
  then have "length (da_ops d1) < 2 ^ 31" by (simp add: DECODE_FUEL_def)
  from DARRAY_PUSH_ok [OF ops(3) this, of os "op_cir (last (da_ops d1))" None] push
  have "darray_ok d2" "da_ops d2 = ops @ [\<lparr>op_cir = op_cir (last (da_ops d1)), op_op = None\<rparr>]"
    by (auto simp: ops(1))
  then show ?thesis
    using ops unfolding block_of_def blk
    by (auto simp: darray_ok_def DECODE_FUEL_def)
qed

end
