(* ===== verification/Blocked_Exec.thy ===== *)
theory Blocked_Exec
  imports Blocked_Decode
begin

text \<open>
  Executing a decoded block: the unrolled loop runs every operation once, in order, and the
  turn ends at the program counter that the block's last branch left in \<open>MIPS_R_NNPC\<close>.
\<close>

section \<open>The unrolled loop\<close>

primrec exec_all :: "(op_t \<Rightarrow> 's \<Rightarrow> 's result) \<Rightarrow> op_t list \<Rightarrow> 's \<Rightarrow> 's result" where
  "exec_all call [] s = Inr s"
| "exec_all call (x # ops) s = bindR (call x s) (exec_all call ops)"

definition exec_ops :: "'h os \<Rightarrow> op_t list \<Rightarrow> 'h machine \<Rightarrow> 'h machine result" where
  "exec_ops os = exec_all (exec_op os)"

lemma exec_ops_simps [simp]:
  "exec_ops os [] s = Inr s"
  "exec_ops os (x # ops) s = bindR (exec_op os x s) (exec_ops os ops)"
  by (simp_all add: exec_ops_def)

lemma exec_all_append:
  "exec_all call (xs @ ys) s = bindR (exec_all call xs s) (exec_all call ys)"
  by (induction xs arbitrary: s) (auto simp: bindR_assoc intro!: bindR_cong)

lemma exec_ops_append: "exec_ops os (xs @ ys) s = bindR (exec_ops os xs s) (exec_ops os ys)"
  by (simp add: exec_ops_def exec_all_append)

lemma exec_n_append:
  "exec_n call (length xs) (xs @ ys) s = bindR (exec_all call xs s) (\<lambda>s. Inr (ys, s))"
  by (induction xs arbitrary: s) (auto simp: bindR_assoc intro!: bindR_cong)

lemma unrolled_while_done:
  "op_op x = None \<Longrightarrow> unrolled_while call (x # zs) s = Inr s"
  by (simp add: unrolled_while.simps)

lemma unrolled_while_turn:
  assumes "length xs = UNROLL_SIZE" "op_op (hd xs) \<noteq> None"
  shows "unrolled_while call (xs @ ys) s = bindR (exec_all call xs s) (unrolled_while call ys)"
proof -
  obtain x xs' where xs: "xs = x # xs'" using assms(1) by (cases xs) (simp_all add: UNROLL_SIZE_def)
  have "exec_n call UNROLL_SIZE (xs @ ys) s = bindR (exec_all call xs s) (\<lambda>s. Inr (ys, s))"
    using exec_n_append [of call xs ys s] assms(1) by simp
  then show ?thesis
    using assms(2) unfolding xs
    by (subst unrolled_while.simps) (simp add: bindR_assoc)
qed

lemma unrolled_while_exec:
  assumes "length xs = m * UNROLL_SIZE" "\<forall>x \<in> set xs. op_op x \<noteq> None" "op_op z = None"
  shows "unrolled_while call (xs @ [z]) s = exec_all call xs s"
  using assms(1,2)
proof (induction m arbitrary: xs s)
  case 0
  then show ?case using assms(3) by (simp add: unrolled_while_done)
next
  case (Suc m)
  let ?t = "take UNROLL_SIZE xs" and ?d = "drop UNROLL_SIZE xs"
  have t: "length ?t = UNROLL_SIZE" and d: "length ?d = m * UNROLL_SIZE"
    using Suc.prems(1) by simp_all
  then have "?t \<noteq> []" by (auto simp: UNROLL_SIZE_def)
  then have hd: "op_op (hd ?t) \<noteq> None"
    using Suc.prems(2) hd_in_set [of ?t] in_set_takeD by fast
  have "unrolled_while call (?d @ [z]) s = exec_all call ?d s" for s
    using Suc.IH [OF d] Suc.prems(2) in_set_dropD by fast
  then have "unrolled_while call (?t @ ?d @ [z]) s = exec_all call (?t @ ?d) s"
    unfolding exec_all_append unrolled_while_turn [OF t hd] by (simp cong: bindR_cong)
  then show ?case by (simp flip: append_assoc)
qed

text \<open>The unrolled loop over a block of at least one operation is the plain loop.\<close>

lemma unrolled_loop_exec:
  assumes "unat sz = Suc (length xs)" "xs \<noteq> []" "\<forall>x \<in> set xs. op_op x \<noteq> None" "op_op z = None"
  shows "unrolled_loop call sz (xs @ [z]) s = exec_all call xs s"
proof -
  define k where "k = (if length xs mod UNROLL_SIZE = 0 then 8 else length xs mod UNROLL_SIZE)"
  have "unat (sz - 1) = length xs" using assms(1) by (simp add: unat_sub_if')
  then have loop: "unrolled_loop call sz (xs @ [z]) s =
      bindR (exec_n call k (xs @ [z]) s) (\<lambda>(ops', s'). unrolled_while call ops' s')"
    by (simp add: unrolled_loop_def k_def Let_def)
  have k: "k \<le> length xs" "UNROLL_SIZE dvd (length xs - k)"
    using assms(2) by (auto simp: k_def UNROLL_SIZE_def dvd_minus_mod mod_less_eq_dividend
        dest: dvd_imp_le intro!: dvd_diff_nat)
  let ?t = "take k xs" and ?d = "drop k xs"
  obtain m where m: "length ?d = m * UNROLL_SIZE" using k(2) unfolding length_drop by (metis dvdE mult.commute)
  have t: "length ?t = k" using k(1) by simp
  have "exec_n call k (?t @ ?d @ [z]) s = bindR (exec_all call ?t s) (\<lambda>s. Inr (?d @ [z], s))"
    using exec_n_append [of call ?t "?d @ [z]" s] t by simp
  then have "exec_n call k (xs @ [z]) s = bindR (exec_all call ?t s) (\<lambda>s. Inr (?d @ [z], s))"
    by (simp flip: append_assoc)
  moreover have "unrolled_while call (?d @ [z]) s = exec_all call ?d s" for s
    using unrolled_while_exec [OF m _ assms(4)] assms(3) in_set_dropD by fast
  moreover have "exec_all call xs s = bindR (exec_all call ?t s) (exec_all call ?d)"
    using exec_all_append [of call ?t ?d s] by simp
  ultimately show ?thesis unfolding loop by (simp add: bindR_assoc cong: bindR_cong)
qed

section \<open>A whole block\<close>

lemma block_shape_nonempty: "block_shape brd ops \<Longrightarrow> ops \<noteq> []"
  by (auto simp: block_shape_def)

lemma decoded_ops_some: "decoded T mem pc ops \<Longrightarrow> \<forall>x \<in> set ops. op_op x \<noteq> None"
  by (induction ops arbitrary: pc) auto

text \<open>
  One turn: the program counter is first moved to the branch, two operations before the end,
  then all operations run, then the program counter takes the value the branch computed.
\<close>

definition block_ops :: "block \<Rightarrow> op_t list" where
  "block_ops blk = butlast (blk_ops blk)"

definition branch_pc :: "u32 \<Rightarrow> op_t list \<Rightarrow> u32" where
  "branch_pc pc ops = pc + 4 * (of_nat (length ops) - 2)"

lemma exec_block_ops:
  assumes "block_of T mem pc blk" "get_reg MIPS_R_PC s = pc"
  shows "exec_block os blk s =
     mapR (\<lambda>s'. put_reg MIPS_R_PC (get_reg MIPS_R_NNPC s') s')
       (exec_ops os (block_ops blk) (put_reg MIPS_R_PC (branch_pc pc (block_ops blk)) s))"
proof -
  from assms(1) obtain ops x where ops: "blk_ops blk = ops @ [x]" "op_op x = None"
    "decoded T mem pc ops" "block_shape False ops" and sz: "unat (blk_size blk) = Suc (length ops)"
    by (auto simp: block_of_def)
  from sz have "blk_size blk = of_nat (Suc (length ops))" by (metis of_nat_unat ucast_id)
  then have "blk_size blk - 3 = of_nat (length ops) - 2" by simp
  moreover have "unrolled_loop (exec_op os) (blk_size blk) (ops @ [x]) s = exec_ops os ops s" for s
    unfolding exec_ops_def by (rule unrolled_loop_exec [OF sz block_shape_nonempty [OF ops(4)] decoded_ops_some [OF ops(3)] ops(2)])
  ultimately show ?thesis
    using assms(2) ops(1)
    by (simp add: exec_block_def block_ops_def branch_pc_def mapR_def)
qed

end
