(* ===== verification/Blocked_Simulation.thy ===== *)
theory Blocked_Simulation
  imports Blocked_Exec
begin

text \<open>
  The block-caching interpreter against the switch: between two blocks its state is the
  switch's state, with the two delayed program counters made explicit. The switch's
  reachable states are an inductive relation; a block of \<open>n\<close> operations is \<open>n\<close> of its steps,
  as long as the text is not modified, no branch is in a delay slot, and the process does not
  exit inside the block.
\<close>

section \<open>The switch as a step relation\<close>

inductive switch_reach :: "'h os \<Rightarrow> 'h machine \<Rightarrow> 'h machine \<Rightarrow> bool" for os s0 where
  reach_start: "switch_reach os s0 s0"
| reach_step: "switch_reach os s0 s \<Longrightarrow> \<not> halted (cpu s) \<Longrightarrow> switch_body os s = Inr s' \<Longrightarrow>
    switch_reach os s0 s'"

text \<open>The same relation with the number of steps.\<close>

inductive switch_steps :: "'h os \<Rightarrow> 'h machine \<Rightarrow> nat \<Rightarrow> 'h machine \<Rightarrow> bool" for os s0 where
  steps_start: "switch_steps os s0 0 s0"
| steps_step: "switch_steps os s0 n s \<Longrightarrow> \<not> halted (cpu s) \<Longrightarrow> switch_body os s = Inr s' \<Longrightarrow>
    switch_steps os s0 (Suc n) s'"

lemma steps_reach: "switch_steps os s0 n s \<Longrightarrow> switch_reach os s0 s"
  by (induction rule: switch_steps.induct) (auto intro: switch_reach.intros)

lemma reach_steps: "switch_reach os s0 s \<Longrightarrow> \<exists>n. switch_steps os s0 n s"
  by (induction rule: switch_reach.induct) (auto intro: switch_steps.intros)

lemma switch_steps_run:
  assumes "switch_steps os s0 n s" "interpreter_switch os m s0 = Some r"
  shows "n \<le> m \<and> interpreter_switch os (m - n) s = Some r \<and> (halted (cpu s) \<or> n < m)"
proof -
  have "n \<le> m \<and> interpreter_switch os (m - n) s = Some r"
    using assms
  proof (induction rule: switch_steps.induct)
    case (steps_step n s s')
    then show ?case
    proof (cases "m - n")
      case (Suc k)
      then have "m - Suc n = k" "Suc n \<le> m" by simp_all
      with steps_step Suc show ?thesis by simp
    qed simp
  qed simp
  then show ?thesis by (cases "m = n") (auto split: if_splits)
qed

lemma switch_reach_run:
  assumes "switch_reach os s0 s"
  shows "\<exists>n. \<forall>m r. interpreter_switch os m s = Some r \<longrightarrow> interpreter_switch os (n + m) s0 = Some r"
  using assms
proof (induction rule: switch_reach.induct)
  case reach_start
  then show ?case by (intro exI [of _ 0]) simp
next
  case (reach_step s s')
  then obtain n where n: "\<And>m r. interpreter_switch os m s = Some r \<Longrightarrow> interpreter_switch os (n + m) s0 = Some r"
    by blast
  have "interpreter_switch os (Suc n + m) s0 = Some r" if "interpreter_switch os m s' = Some r" for m r
    using n [of "Suc m" r] that reach_step.hyps by simp
  then show ?case by blast
qed

section \<open>States between operations\<close>

text \<open>The state \<open>t\<close> with the three program counters of the switch.\<close>

definition pcs :: "u32 \<Rightarrow> u32 \<Rightarrow> u32 \<Rightarrow> 'h machine \<Rightarrow> 'h machine" where
  "pcs a n nn t = put_reg MIPS_R_PC a (put_reg MIPS_R_NPC n (put_reg MIPS_R_NNPC nn t))"

definition sequential :: "'h machine \<Rightarrow> 'h machine" where
  "sequential s = pcs (get_reg MIPS_R_PC s) (get_reg MIPS_R_PC s + 4) (get_reg MIPS_R_PC s + 8) s"

lemma put_reg_unchanged: "get_reg j t = v \<Longrightarrow> put_reg j v t = t"
  by auto

lemma pcs_simps [simp]:
  "get_reg MIPS_R_PC (pcs a n nn t) = a" "get_reg 34 (pcs a n nn t) = a"
  "gmem (pcs a n nn t) = gmem t" "hstate (pcs a n nn t) = hstate t"
  "halted (cpu (pcs a n nn t)) = halted (cpu t)" "status (cpu (pcs a n nn t)) = status (cpu t)"
  by (simp_all add: pcs_def)

lemma pcs_absorb [simp]: "pcs a n nn (put_reg 34 v t) = pcs a n nn t"
  by (simp add: pcs_def put_reg_commute [of _ 34])

lemma pcs_increment: "upd_cpu INCREMENT_PC (pcs a n nn t) = pcs n nn (nn + 4) t"
  by (simp add: pcs_def put_reg_def upd_cpu_def set_reg_def INCREMENT_PC_def fun_eq_iff)

lemma straight_pcs:
  assumes "i \<notin> jumps"
  shows "interpret_instr os i cir (pcs a n nn t) = mapR (pcs a n nn) (interpret_instr os i cir t)"
  unfolding pcs_def pc.straight_U [OF assms] npc.straight_U [OF assms] nnpc.straight_U [OF assms]
    mapR_mapR ..

lemma branch_pcs:
  assumes "i \<in> jumps" "get_reg MIPS_R_PC t = a" "interpret_instr os i cir t = Inr t'"
  shows "interpret_instr os i cir (pcs a n nn t) = Inr (pcs a n (get_reg MIPS_R_NNPC t') t')"
proof -
  have "put_reg MIPS_R_PC a t = t" by (rule put_reg_unchanged) fact
  then have "pcs a n nn t = put_reg MIPS_R_NPC n (put_reg MIPS_R_NNPC nn t)"
    by (simp add: pcs_def put_reg_commute [of 34])
  then have eq: "interpret_instr os i cir (pcs a n nn t) = Inr (put_reg MIPS_R_NPC n t')"
    by (simp only: branch_npc [OF assms(1)] branch_nnpc [OF assms(1)] assms(3) mapR_simps)
  have "put_reg MIPS_R_PC a t' = t'"
    by (rule put_reg_unchanged) (use branch_effect [OF assms(1,3)] assms(2) in simp)
  then have "pcs a n (get_reg MIPS_R_NNPC t') t' = put_reg MIPS_R_NPC n t'"
    by (simp add: pcs_def put_reg_commute [of 34] put_reg_unchanged)
  with eq show ?thesis by simp
qed

section \<open>One operation is one step of the switch\<close>

definition op_at :: "memory \<Rightarrow> u32 \<Rightarrow> op_t \<Rightarrow> bool" where
  "op_at mem a x \<longleftrightarrow> decoded UNIV mem a [x]"

lemma switch_body_op:
  assumes "op_at (gmem s) (get_reg MIPS_R_PC s) x"
  shows "switch_body os s = bindR (exec_op os x s) (\<lambda>s. Inr (upd_cpu INCREMENT_PC s))"
proof -
  from assms obtain i where i: "memory_read_u32 (gmem s) (get_reg MIPS_R_PC s) = Inr (op_cir x)"
    "block_dispatch (op_cir x) = Inr i" "op_op x = Some i" by (auto simp: op_at_def)
  then have "switch_decode (get_reg MIPS_R_PC s) (op_cir x) = Inr i"
    using block_dispatch_Inr by metis
  with i show ?thesis by (simp add: switch_body_def fetch_def exec_op_def)
qed

lemma straight_op_step:
  assumes "op_at (gmem t) a x" "straight_op x" "exec_op os x t = Inr t'"
  shows "switch_body os (pcs a n nn t) = Inr (pcs n nn (nn + 4) t')"
proof -
  from assms(2) obtain i where "op_op x = Some i" "i \<notin> jumps"
    by (auto simp: op_test_defs is_branch_jumps)
  then have "exec_op os x (pcs a n nn t) = mapR (pcs a n nn) (exec_op os x t)"
    by (simp add: exec_op_def straight_pcs)
  with assms show ?thesis
    by (simp add: switch_body_op [of _ x] pcs_increment)
qed

lemma branch_op_step:
  assumes "op_at (gmem t) a x" "branch_op x" "exec_op os x t = Inr t'" "get_reg MIPS_R_PC t = a"
  shows "switch_body os (pcs a n nn t) =
    Inr (pcs n (get_reg MIPS_R_NNPC t') (get_reg MIPS_R_NNPC t' + 4) t')"
proof -
  from assms(2) obtain i where "op_op x = Some i" "i \<in> jumps"
    by (auto simp: op_test_defs is_branch_jumps)
  with assms have "exec_op os x (pcs a n nn t) = Inr (pcs a n (get_reg MIPS_R_NNPC t') t')"
    by (simp add: exec_op_def branch_pcs)
  with assms show ?thesis
    by (simp add: switch_body_op [of _ x] pcs_increment)
qed

text \<open>A branch never faults: the switch steps over it wherever the block's state is.\<close>

lemma branch_op_next:
  assumes "op_at (gmem t) a x" "branch_op x"
  obtains t' where "switch_body os (pcs a n nn t) = Inr t'" "get_reg MIPS_R_PC t' = n"
    "gmem t' = gmem t" "halted (cpu t') = halted (cpu t)"
proof -
  from assms(2) obtain i where i: "op_op x = Some i" "i \<in> jumps"
    by (auto simp: op_test_defs is_branch_jumps)
  let ?t = "put_reg MIPS_R_PC a t"
  from branch_total [OF i(2)] obtain u where u: "interpret_instr os i (op_cir x) ?t = Inr u" by blast
  with i(1) have "exec_op os x ?t = Inr u" by (simp add: exec_op_def)
  with assms have "switch_body os (pcs a n nn ?t) =
      Inr (pcs n (get_reg MIPS_R_NNPC u) (get_reg MIPS_R_NNPC u + 4) u)"
    by (intro branch_op_step) simp_all
  with branch_effect [OF i(2) u] show thesis
    by (intro that [of "pcs n (get_reg MIPS_R_NNPC u) (get_reg MIPS_R_NNPC u + 4) u"]) simp_all
qed

section \<open>What the program has to keep\<close>

text \<open>
  \<open>T\<close> is the set of addresses the program executes. Its words stay what they are at the
  start, and no branch is in the delay slot of a branch.
\<close>

definition text_stable :: "'h os \<Rightarrow> u32 set \<Rightarrow> 'h machine \<Rightarrow> bool" where
  "text_stable os T s0 \<longleftrightarrow>
     (\<forall>s. switch_reach os s0 s \<longrightarrow>
        (halted (cpu s) \<or> get_reg MIPS_R_PC s \<in> T) \<and>
        (\<forall>a \<in> T. memory_read_u32 (gmem s) a = memory_read_u32 (gmem s0) a))"

definition branch_at :: "memory \<Rightarrow> u32 \<Rightarrow> bool" where
  "branch_at mem a \<longleftrightarrow> (\<exists>w i. memory_read_u32 mem a = Inr w \<and> block_dispatch w = Inr i \<and> is_branch i)"

definition delay_slots_ok :: "u32 set \<Rightarrow> memory \<Rightarrow> bool" where
  "delay_slots_ok T mem \<longleftrightarrow> (\<forall>a \<in> T. branch_at mem a \<longrightarrow> \<not> branch_at mem (a + 4))"

text \<open>
  Inside a block with the operations \<open>ops\<close> at \<open>a\<close> the process may exit: the switch stops before
  the operations \<open>zs\<close>, which the block still executes.
\<close>

definition exits_in :: "'h os \<Rightarrow> 'h machine \<Rightarrow> u32 \<Rightarrow> op_t list \<Rightarrow> 'h machine \<Rightarrow> bool" where
  "exits_in os s0 a ops t \<longleftrightarrow>
     (\<exists>ys zs u n nn. ops = ys @ zs \<and> switch_reach os s0 (pcs (a + 4 * of_nat (length ys)) n nn u) \<and>
        halted (cpu u) \<and> exec_ops os zs u = Inr t)"

lemma exits_in_Cons:
  assumes "exits_in os s0 (a + 4) ops t"
  shows "exits_in os s0 a (x # ops) t"
proof -
  obtain ys zs u n nn where "ops = ys @ zs" "halted (cpu u)" "exec_ops os zs u = Inr t"
    "switch_reach os s0 (pcs (a + 4 + 4 * of_nat (length ys)) n nn u)"
    using assms by (auto simp: exits_in_def)
  then show ?thesis
    unfolding exits_in_def
    by (intro exI [of _ "x # ys"] exI [of _ zs] exI [of _ u] exI [of _ n] exI [of _ nn])
       (simp add: algebra_simps)
qed

lemma text_op_at:
  assumes "text_stable os T s0" "switch_reach os s0 (pcs a n nn t)" "\<not> halted (cpu t)"
    and "decoded T (gmem s0) a (x # ops)"
  shows "op_at (gmem t) a x" "a \<in> T"
proof -
  from assms(1-3) show "a \<in> T" by (force simp: text_stable_def)
  with assms show "op_at (gmem t) a x" by (force simp: text_stable_def op_at_def)
qed

lemma straight_run:
  assumes "text_stable os T s0"
    and "switch_steps os s0 n (pcs a (a + 4) (a + 8) t)" "decoded T (gmem s0) a (xs @ ys)"
    and "list_all straight_op xs" "exec_ops os (xs @ ys) t = Inr t'"
  obtains "exits_in os s0 a (xs @ ys) t'"
  | t1 where "switch_steps os s0 (n + length xs) (pcs (a + 4 * of_nat (length xs))
        (a + 4 * of_nat (length xs) + 4) (a + 4 * of_nat (length xs) + 8) t1)"
      "exec_ops os ys t1 = Inr t'" "decoded T (gmem s0) (a + 4 * of_nat (length xs)) ys"
      "get_reg MIPS_R_PC t1 = get_reg MIPS_R_PC t"
  using assms(2-)
proof (induction xs arbitrary: a n t thesis)
  case Nil
  then show ?case by simp
next
  case (Cons x xs)
  show ?case
  proof (cases "halted (cpu t)")
    case True
    with steps_reach [OF Cons.prems(3)] Cons.prems(6) have "exits_in os s0 a ((x # xs) @ ys) t'"
      unfolding exits_in_def
      by (intro exI [of _ "[]"] exI [of _ "(x # xs) @ ys"] exI [of _ t] exI [of _ "a + 4"]
          exI [of _ "a + 8"]) simp
    then show ?thesis by (rule Cons.prems(1))
  next
    case False
    note x = text_op_at [OF assms(1) steps_reach [OF Cons.prems(3)] False, of x "xs @ ys"]
    from Cons.prems obtain t1 where t1: "exec_op os x t = Inr t1" "exec_ops os (xs @ ys) t1 = Inr t'"
      by (auto elim: bindR_InrE)
    have "switch_body os (pcs a (a + 4) (a + 8) t) = Inr (pcs (a + 4) (a + 8) (a + 8 + 4) t1)"
      using x Cons.prems t1 by (intro straight_op_step [of _ _ x]) simp_all
    with Cons.prems(3) False have reach: "switch_steps os s0 (Suc n) (pcs (a + 4) (a + 4 + 4) (a + 4 + 8) t1)"
      by (auto intro: steps_step simp: add.assoc)
    have pc: "get_reg MIPS_R_PC t1 = get_reg MIPS_R_PC t"
      using Cons.prems(5) t1(1) by (auto simp: op_test_defs is_branch_jumps exec_op_def
          intro: straight_keeps_high)
    show ?thesis
    proof (rule Cons.IH [OF _ _ reach _ _ t1(2)])
      show "thesis" if "exits_in os s0 (a + 4) (xs @ ys) t'"
        using exits_in_Cons [OF that, of x] Cons.prems(1) by simp
    qed (use Cons.prems pc in \<open>auto simp: algebra_simps\<close>)
  qed
qed

text \<open>The branch of a block and its delay slot.\<close>

lemma second_branch_absurd:
  assumes "text_stable os T s0" "delay_slots_ok T (gmem s0)"
    and "switch_reach os s0 (pcs a (a + 4) nn t)" "\<not> halted (cpu t)"
    and "decoded T (gmem s0) a (x # x' # ys)" "branch_op x" "branch_op x'"
  shows False
proof -
  note x = text_op_at [OF assms(1,3,4,5)]
  obtain t' where t': "switch_body os (pcs a (a + 4) nn t) = Inr t'" "get_reg MIPS_R_PC t' = a + 4"
    "halted (cpu t') = halted (cpu t)"
    by (rule branch_op_next [OF x(1) assms(6)])
  then have "switch_reach os s0 t'" using assms(3,4) by (auto intro: reach_step)
  with assms(1) t' assms(4) have "a + 4 \<in> T" by (force simp: text_stable_def)
  with assms(5-7) x(2) have "branch_at (gmem s0) a" "branch_at (gmem s0) (a + 4)"
    by (auto simp: branch_at_def op_test_defs)
  with assms(2) x(2) show False by (auto simp: delay_slots_ok_def)
qed

lemma branch_run:
  assumes "text_stable os T s0" "\<not> halted (cpu t)" "get_reg MIPS_R_PC t = a"
    and "switch_steps os s0 n (pcs a (a + 4) (a + 8) t)" "decoded T (gmem s0) a [x, y]"
    and "branch_op x" "straight_op y" "exec_ops os [x, y] t = Inr t'"
  shows "switch_steps os s0 (Suc (Suc n)) (sequential (put_reg MIPS_R_PC (get_reg MIPS_R_NNPC t') t'))"
proof -
  from assms(8) obtain u where u: "exec_op os x t = Inr u" "exec_op os y u = Inr t'"
    by (auto elim!: bindR_InrE)
  let ?v = "get_reg MIPS_R_NNPC u"
  from text_op_at [OF assms(1) steps_reach [OF assms(4)] assms(2,5)] assms(3,6) u(1)
  have "switch_body os (pcs a (a + 4) (a + 8) t) = Inr (pcs (a + 4) ?v (?v + 4) u)"
    by (intro branch_op_step) simp_all
  with assms(2,4) have reach: "switch_steps os s0 (Suc n) (pcs (a + 4) ?v (?v + 4) u)"
    by (auto intro: steps_step)
  have "halted (cpu u) = halted (cpu t)"
    using u(1) assms(6) by (auto simp: op_test_defs is_branch_jumps exec_op_def branch_effect)
  with assms(2) have running: "\<not> halted (cpu u)" by simp
  from assms(5) have "decoded T (gmem s0) (a + 4) [y]" by simp
  from text_op_at [OF assms(1) steps_reach [OF reach] running this] assms(7) u(2)
  have "switch_body os (pcs (a + 4) ?v (?v + 4) u) = Inr (pcs ?v (?v + 4) (?v + 4 + 4) t')"
    by (intro straight_op_step) simp_all
  with reach running have "switch_steps os s0 (Suc (Suc n)) (pcs ?v (?v + 4) (?v + 4 + 4) t')"
    by (auto intro: steps_step)
  moreover have "get_reg MIPS_R_NNPC t' = ?v"
    using u(2) assms(7) by (auto simp: op_test_defs is_branch_jumps exec_op_def
        intro: straight_keeps_high)
  ultimately show ?thesis by (simp add: sequential_def add.assoc)
qed

lemma block_run_steps:
  assumes "text_stable os T s0" "delay_slots_ok T (gmem s0)"
    and "block_of T (gmem s0) (get_reg MIPS_R_PC s) blk" "switch_steps os s0 n (sequential s)"
    and "exec_block os blk s = Inr s'"
  shows "(\<exists>k > n. switch_steps os s0 k (sequential s')) \<or>
    (\<exists>t. exits_in os s0 (get_reg MIPS_R_PC s) (block_ops blk) t \<and>
       s' = put_reg MIPS_R_PC (get_reg MIPS_R_NNPC t) t)"
proof -
  let ?a = "get_reg MIPS_R_PC s" and ?ops = "block_ops blk"
  define t0 where "t0 = put_reg MIPS_R_PC (branch_pc ?a ?ops) s"
  from assms(3) have dec: "decoded T (gmem s0) ?a ?ops" and shape: "block_shape False ?ops"
    by (auto simp: block_of_def block_ops_def)
  obtain t where t: "exec_ops os ?ops t0 = Inr t" "s' = put_reg MIPS_R_PC (get_reg MIPS_R_NNPC t) t"
    using assms(5) unfolding exec_block_ops [OF assms(3) refl] t0_def [symmetric]
    by (auto simp: mapR_eq_Inr)
  obtain xs bs y where ops: "?ops = xs @ bs @ [y]" "list_all straight_op xs" "list_all branch_op bs"
    "straight_op y" "bs \<noteq> []" using shape by (auto simp: block_shape_def)
  have start: "switch_steps os s0 n (pcs ?a (?a + 4) (?a + 8) t0)"
    using assms(4) by (simp add: sequential_def t0_def)
  show ?thesis
  proof (rule straight_run [OF assms(1) start dec [unfolded ops(1)] ops(2) t(1) [unfolded ops(1)]])
    assume "exits_in os s0 ?a (xs @ bs @ [y]) t"
    with t(2) ops(1) show ?thesis by auto
  next
    fix t1
    let ?b = "?a + 4 * of_nat (length xs)"
    assume t1: "switch_steps os s0 (n + length xs) (pcs ?b (?b + 4) (?b + 8) t1)" "exec_ops os (bs @ [y]) t1 = Inr t"
      "decoded T (gmem s0) ?b (bs @ [y])" "get_reg MIPS_R_PC t1 = get_reg MIPS_R_PC t0"
    show ?thesis
    proof (cases "halted (cpu t1)")
      case True
      with steps_reach [OF t1(1)] t1(2) have "exits_in os s0 ?a (xs @ bs @ [y]) t"
        unfolding exits_in_def
        by (intro exI [of _ xs] exI [of _ "bs @ [y]"] exI [of _ t1] exI [of _ "?b + 4"]
            exI [of _ "?b + 8"]) simp
      with t(2) ops(1) show ?thesis by auto
    next
      case False
      obtain b bs' where bs: "bs = b # bs'" using ops(5) by (cases bs) auto
      have "bs' = []"
      proof (rule ccontr)
        assume "bs' \<noteq> []"
        then obtain b' cs where "bs' = b' # cs" by (cases bs') auto
        with second_branch_absurd [OF assms(1,2) steps_reach [OF t1(1)] False, of b b' "cs @ [y]"] t1(3) ops(3) bs
        show False by simp
      qed
      with bs have bs1: "bs = [b]" by simp
      have "get_reg MIPS_R_PC t1 = ?b"
        using t1(4) by (simp add: t0_def branch_pc_def ops(1) bs1)
      with branch_run [OF assms(1) False _ t1(1), of b y t] t1 ops bs1 t(2)
      have "switch_steps os s0 (Suc (Suc (n + length xs))) (sequential s')" by simp
      then show ?thesis by (intro disjI1 exI [of _ "Suc (Suc (n + length xs))"]) simp
    qed
  qed
qed

theorem block_run:
  assumes "text_stable os T s0" "delay_slots_ok T (gmem s0)"
    and "block_of T (gmem s0) (get_reg MIPS_R_PC s) blk" "switch_reach os s0 (sequential s)"
    and "exec_block os blk s = Inr s'"
  shows "switch_reach os s0 (sequential s') \<or>
    (\<exists>t. exits_in os s0 (get_reg MIPS_R_PC s) (block_ops blk) t \<and>
       s' = put_reg MIPS_R_PC (get_reg MIPS_R_NNPC t) t)"
  using reach_steps [OF assms(4)] block_run_steps [OF assms(1-3) _ assms(5)] steps_reach by blast

end
