(* ===== verification/Blocked_Chain.thy ===== *)
theory Blocked_Chain
  imports Blocked_Simulation
begin

text \<open>
  The hash table and the chaining of blocks. In every run of the block-caching interpreter the
  table holds decoded blocks under their addresses, and the \<open>next\<close> pointers of a block that
  ends in a direct branch name the blocks of the branch's two targets; so following a pointer
  is entering the block at the program counter.
\<close>

section \<open>Where a block goes\<close>

text \<open>The target of the last branch of a block, by the flag it leaves in \<open>branched\<close>.\<close>

definition block_target :: "block \<Rightarrow> bool \<Rightarrow> u32" where
  "block_target blk c =
     (let ops = block_ops blk; x = ops ! (length ops - 2)
      in branch_target (the (op_op x)) (op_cir x) (branch_pc (blk_address blk) ops) c)"

lemma block_next_update [simp]:
  "block_target (blk\<lparr>blk_next := f\<rparr>) = block_target blk"
  "block_of T m a (blk\<lparr>blk_next := f\<rparr>) = block_of T m a blk"
  by (simp_all add: block_target_def block_ops_def block_of_def fun_eq_iff)

lemma exec_op_keeps:
  assumes "exec_op os x s = Inr s'"
  shows "get_reg MIPS_R_PC s' = get_reg MIPS_R_PC s" "halted (cpu s) \<Longrightarrow> halted (cpu s')"
proof -
  from assms obtain i where i: "interpret_instr os i (op_cir x) s = Inr s'"
    by (auto simp: exec_op_def split: option.splits)
  then show "get_reg MIPS_R_PC s' = get_reg MIPS_R_PC s"
    using branch_effect [OF _ i] straight_keeps_high [OF _ i, of MIPS_R_PC]
    by (cases "i \<in> jumps") simp_all
  show "halted (cpu s) \<Longrightarrow> halted (cpu s')" by (rule halted_stays [OF i])
qed

lemma exec_ops_keeps:
  assumes "exec_ops os ops s = Inr s'"
  shows "get_reg MIPS_R_PC s' = get_reg MIPS_R_PC s" "halted (cpu s) \<Longrightarrow> halted (cpu s')"
  using assms
  by (induction ops arbitrary: s) (auto dest: exec_op_keeps elim!: bindR_InrE)

lemma block_target_ops:
  assumes "block_ops blk = xs @ [b, y]"
  shows "block_target blk c =
    branch_target (the (op_op b)) (op_cir b) (branch_pc (blk_address blk) (block_ops blk)) c"
  using assms by (simp add: block_target_def Let_def nth_append)

lemma exec_block_target:
  assumes "block_of T m (get_reg MIPS_R_PC s) blk" "\<not> blk_indirect blk" "exec_block os blk s = Inr s'"
  shows "get_reg MIPS_R_PC s' = block_target blk (branched (cpu s'))"
proof -
  let ?ops = "block_ops blk" and ?a = "get_reg MIPS_R_PC s"
  from assms(1,2) have shape: "block_shape False ?ops" and direct: "\<not> list_ex indirect_op ?ops"
    and addr: "blk_address blk = ?a"
    by (auto simp: block_of_def block_ops_def)
  obtain xs bs y where ops: "?ops = xs @ bs @ [y]" "list_all branch_op bs" "straight_op y" "bs \<noteq> []"
    using shape by (auto simp: block_shape_def)
  then obtain cs b where bs: "bs = cs @ [b]" by (metis append_butlast_last_id)
  obtain i where i: "op_op b = Some i" "i \<in> jumps - {I_jr, I_jalr}"
    using ops(1,2) direct bs
    by (auto simp: op_test_defs is_branch_jumps is_indirect_def LABELS_BRANCH_INDIRECT_def)
  obtain t where t: "exec_ops os ?ops (put_reg MIPS_R_PC (branch_pc ?a ?ops) s) = Inr t"
    "s' = put_reg MIPS_R_PC (get_reg MIPS_R_NNPC t) t"
    using assms(3) unfolding exec_block_ops [OF assms(1) refl] by (auto simp: mapR_eq_Inr)
  moreover have "?ops = (xs @ cs) @ [b] @ [y]" using ops(1) bs by simp
  ultimately obtain t1 t2 where t1: "exec_ops os (xs @ cs) (put_reg MIPS_R_PC (branch_pc ?a ?ops) s) = Inr t1"
    and t2: "exec_op os b t1 = Inr t2" and y: "exec_op os y t2 = Inr t"
    by (auto simp: exec_ops_append elim!: bindR_InrE)
  from exec_ops_keeps(1) [OF t1] have "get_reg MIPS_R_PC t1 = branch_pc ?a ?ops" by simp
  with t2 i have "get_reg MIPS_R_NNPC t2 = branch_target i (op_cir b) (branch_pc ?a ?ops) (branched (cpu t2))"
    using direct_branch_target [of i os "op_cir b" t1 t2] by (simp add: exec_op_def)
  moreover have "get_reg MIPS_R_NNPC t = get_reg MIPS_R_NNPC t2" "branched (cpu t) = branched (cpu t2)"
    using y ops(3) by (auto simp: op_test_defs is_branch_jumps exec_op_def
        intro: straight_keeps_high dest: straight_keeps_branched)
  ultimately show ?thesis
    using block_target_ops [of blk "xs @ cs" b y] ops(1) bs i(1) addr t(2) by simp
qed

lemma exec_block_halted:
  assumes "block_of T m (get_reg MIPS_R_PC s) blk" "exec_block os blk s = Inr s'" "halted (cpu s)"
  shows "halted (cpu s')"
  using assms(2,3) exec_ops_keeps(2) unfolding exec_block_ops [OF assms(1) refl]
  by (fastforce simp: mapR_eq_Inr)

section \<open>The invariant of the table\<close>

definition blocks_ok :: "u32 set \<Rightarrow> memory \<Rightarrow> (u32 \<Rightarrow> block option) \<Rightarrow> bool" where
  "blocks_ok T m bl \<longleftrightarrow>
     (\<forall>a blk. bl a = Some blk \<longrightarrow> block_of T m a blk \<and>
        (\<not> blk_indirect blk \<longrightarrow>
           (\<forall>c p. blk_next blk c = Some p \<longrightarrow> p = block_target blk c \<and> p \<in> dom bl)))"

definition chain_ok :: "u32 set \<Rightarrow> memory \<Rightarrow> 'h blocked \<Rightarrow> bool" where
  "chain_ok T m b \<longleftrightarrow> blocks_ok T m (blocks b) \<and>
     (\<forall>p. previous b = Some p \<longrightarrow>
        (\<exists>pb. blocks b p = Some pb \<and>
           (\<not> blk_indirect pb \<longrightarrow>
              get_reg MIPS_R_PC (bmach b) = block_target pb (branched (cpu (bmach b))))))"

lemma blocks_ok_insert:
  assumes "blocks_ok T m bl" "bl a = None" "block_of T m a blk" "blk_next blk = (\<lambda>_. None)"
  shows "blocks_ok T m (bl(a \<mapsto> blk))"
  using assms by (auto simp: blocks_ok_def)

lemma blocks_ok_link:
  assumes "blocks_ok T m bl" "bl a = Some blk" "p \<in> dom bl" "p = block_target blk c"
  shows "blocks_ok T m (bl(a \<mapsto> blk\<lparr>blk_next := (blk_next blk)(c := Some p)\<rparr>))"
  using assms by (auto simp: blocks_ok_def domIff)

lemma chain_ok_init: "chain_ok T m (blocked_init s)"
  by (simp add: chain_ok_def blocks_ok_def blocked_init_def)

text \<open>Looking the block up, or decoding and inserting it.\<close>

definition find_block :: "'h os \<Rightarrow> 'h blocked \<Rightarrow> 'h blocked result" where
  "find_block os b =
     (case blocks b (get_reg MIPS_R_PC (bmach b)) of
        Some blk \<Rightarrow> Inr b
      | None \<Rightarrow> bindR (decode_block os (bmach b)) (\<lambda>blk.
          Inr (b\<lparr>blocks := (blocks b)(blk_address blk \<mapsto> blk)\<rparr>)))"

lemma find_block_chain:
  assumes "find_block os b = Inr b'" "chain_ok T m b" "\<not> halted (cpu (bmach b))"
    and "\<And>a. a \<in> T \<Longrightarrow> memory_read_u32 (gmem (bmach b)) a = memory_read_u32 m a"
  shows "chain_ok T m b'" "bmach b' = bmach b" "get_reg MIPS_R_PC (bmach b) \<in> dom (blocks b')"
    "previous b' = previous b"
proof -
  let ?a = "get_reg MIPS_R_PC (bmach b)"
  have "chain_ok T m b' \<and> bmach b' = bmach b \<and> ?a \<in> dom (blocks b') \<and> previous b' = previous b"
  proof (cases "blocks b ?a")
    case None
    with assms(1) obtain blk where dec: "decode_block os (bmach b) = Inr blk"
      and b': "b' = b\<lparr>blocks := (blocks b)(blk_address blk \<mapsto> blk)\<rparr>"
      by (auto simp: find_block_def elim: bindR_InrE)
    from decode_block_InrD [OF dec assms(3)] have blk: "block_of UNIV (gmem (bmach b)) ?a blk"
      "blk_next blk = (\<lambda>_. None)" by simp_all
    then have addr: "blk_address blk = ?a" by (simp add: block_of_def)
    have "block_of T m ?a blk" by (rule block_of_mono [OF blk(1)]) (simp_all add: assms(4))
    with assms(2) None blk(2) have "blocks_ok T m ((blocks b)(?a \<mapsto> blk))"
      by (auto simp: chain_ok_def intro: blocks_ok_insert)
    with assms(2) None b' addr show ?thesis by (auto simp: chain_ok_def)
  next
    case (Some blk)
    with assms(1,2) show ?thesis by (auto simp: find_block_def)
  qed
  then show "chain_ok T m b'" "bmach b' = bmach b" "?a \<in> dom (blocks b')" "previous b' = previous b"
    by simp_all
qed

lemma blocked_init_bmach: "bmach (blocked_init s) = s"
  by (simp add: blocked_init_def)

lemma blocked_enter_cases:
  assumes "blocked_enter os b = Inr (cur, b')"
  obtains b1 where "find_block os b = Inr b1" "cur = get_reg MIPS_R_PC (bmach b)" "b' = b1"
  | b1 p pb where "find_block os b = Inr b1" "cur = get_reg MIPS_R_PC (bmach b)"
      "previous b1 = Some p" "blocks b1 p = Some pb" "\<not> blk_indirect pb"
      "b' = b1\<lparr>blocks := (blocks b1)(p \<mapsto> pb\<lparr>blk_next :=
         (blk_next pb)(branched (cpu (bmach b1)) := Some cur)\<rparr>)\<rparr>"
proof -
  from assms obtain b1 where b1: "find_block os b = Inr b1"
    and rest: "(case previous b1 of None \<Rightarrow> Inr (get_reg MIPS_R_PC (bmach b), b1)
      | Some p \<Rightarrow> (case blocks b1 p of None \<Rightarrow> Inl SegFault
          | Some pb \<Rightarrow> if \<not> blk_indirect pb then
              Inr (get_reg MIPS_R_PC (bmach b), b1\<lparr>blocks := (blocks b1)(p \<mapsto> pb\<lparr>blk_next :=
                (blk_next pb)(branched (cpu (bmach b1)) := Some (get_reg MIPS_R_PC (bmach b)))\<rparr>)\<rparr>)
            else Inr (get_reg MIPS_R_PC (bmach b), b1))) = Inr (cur, b')"
    unfolding blocked_enter_def find_block_def link_previous_def Let_def by (elim bindR_InrE) blast
  show thesis
  proof (cases "\<exists>p pb. previous b1 = Some p \<and> blocks b1 p = Some pb \<and> \<not> blk_indirect pb")
    case True
    then obtain p pb where p: "previous b1 = Some p" "blocks b1 p = Some pb" "\<not> blk_indirect pb"
      by blast
    with rest show ?thesis by (intro that(2) [OF b1 _ p]) auto
  next
    case False
    with rest show ?thesis
      by (intro that(1) [OF b1]) (auto split: option.splits if_splits)
  qed
qed

lemma blocked_enter_chain:
  assumes "blocked_enter os b = Inr (cur, b')" "chain_ok T m b" "\<not> halted (cpu (bmach b))"
    and "\<And>a. a \<in> T \<Longrightarrow> memory_read_u32 (gmem (bmach b)) a = memory_read_u32 m a"
  shows "chain_ok T m b' \<and> bmach b' = bmach b \<and> cur = get_reg MIPS_R_PC (bmach b) \<and>
    cur \<in> dom (blocks b')"
  using assms(1)
proof (cases rule: blocked_enter_cases)
  case (1 b1)
  with find_block_chain [OF 1(1) assms(2-)] show ?thesis by simp
next
  case (2 b1 p pb)
  note f = find_block_chain [OF 2(1) assms(2-)]
  have target: "cur = block_target pb (branched (cpu (bmach b1)))"
    using f(1,2) 2 by (auto simp: chain_ok_def)
  have "blocks_ok T m (blocks b')"
    using f(1,2,3) 2 target by (auto simp: chain_ok_def intro: blocks_ok_link)
  with f 2 show ?thesis by (auto simp: chain_ok_def)
qed

lemma blocked_turn_chain:
  assumes "blocked_turn os cur b = Inr (nxt, b')" "chain_ok T m b"
    and "cur = get_reg MIPS_R_PC (bmach b)"
  obtains blk where "blocks b cur = Some blk" "block_of T m cur blk"
    "exec_block os blk (bmach b) = Inr (bmach b')" "chain_ok T m b'"
    "\<And>p. nxt = Some p \<Longrightarrow> p = get_reg MIPS_R_PC (bmach b') \<and> p \<in> dom (blocks b') \<and>
       \<not> halted (cpu (bmach b'))"
proof -
  from assms(1) obtain blk where blk: "blocks b cur = Some blk"
    by (auto simp: blocked_turn_def split: option.splits)
  with assms(1) obtain s' where s': "exec_block os blk (bmach b) = Inr s'"
    and b': "b' = b\<lparr>bmach := s', previous := Some cur\<rparr>"
    and nxt: "nxt = (if blk_next blk (branched (cpu s')) \<noteq> None \<and> \<not> blk_indirect blk \<and> \<not> halted (cpu s')
      then blk_next blk (branched (cpu s')) else None)"
    by (auto simp: blocked_turn_def Let_def elim!: bindR_InrE)
  from assms(2) blk have ok: "block_of T m cur blk"
    and links: "\<And>c p. \<not> blk_indirect blk \<Longrightarrow> blk_next blk c = Some p \<Longrightarrow>
      p = block_target blk c \<and> p \<in> dom (blocks b)"
    by (auto simp: chain_ok_def blocks_ok_def)
  have target: "\<not> blk_indirect blk \<Longrightarrow> get_reg MIPS_R_PC s' = block_target blk (branched (cpu s'))"
    using exec_block_target [OF _ _ s'] ok assms(3) by simp
  show thesis
  proof (rule that [OF blk ok])
    show "exec_block os blk (bmach b) = Inr (bmach b')" using s' b' by simp
    show "chain_ok T m b'" using assms(2) blk target b' by (simp add: chain_ok_def)
    show "p = get_reg MIPS_R_PC (bmach b') \<and> p \<in> dom (blocks b') \<and> \<not> halted (cpu (bmach b'))"
      if "nxt = Some p" for p
      using that nxt links target b' by (auto split: if_splits)
  qed
qed

section \<open>Reachable states\<close>

text \<open>
  The two loop heads: \<open>None\<close> is the head of the outer loop, \<open>Some current\<close> that of the inner.
\<close>

inductive blocked_reach :: "'h os \<Rightarrow> 'h machine \<Rightarrow> u32 option \<Rightarrow> 'h blocked \<Rightarrow> bool" for os s0 where
  at_start: "blocked_reach os s0 None (blocked_init s0)"
| at_enter: "blocked_reach os s0 None b \<Longrightarrow> \<not> halted (cpu (bmach b)) \<Longrightarrow>
    blocked_enter os b = Inr (cur, b') \<Longrightarrow> blocked_reach os s0 (Some cur) b'"
| at_turn: "blocked_reach os s0 (Some cur) b \<Longrightarrow> blocked_turn os cur b = Inr (nxt, b') \<Longrightarrow>
    blocked_reach os s0 nxt b'"

lemma blocked_run_reach:
  "blocked_reach os s0 None b \<Longrightarrow> blocked_outer os fuel b = Some (Inr b') \<Longrightarrow>
     blocked_reach os s0 None b' \<and> halted (cpu (bmach b'))"
  "blocked_reach os s0 (Some cur) b \<Longrightarrow> blocked_inner os fuel cur b = Some (Inr b') \<Longrightarrow>
     blocked_reach os s0 None b' \<and> halted (cpu (bmach b'))"
proof (induction os fuel b and os fuel cur b rule: blocked_outer_blocked_inner.induct)
  case (1 os fuel b)
  show ?case
  proof (cases "halted (cpu (bmach b))")
    case True
    with 1(2,3) show ?thesis by (simp add: blocked_outer.simps [of os fuel b])
  next
    case False
    with 1(3) obtain cur b1 where e: "blocked_enter os b = Inr (cur, b1)"
      and r: "blocked_inner os fuel cur b1 = Some (Inr b')"
      by (auto simp: blocked_outer.simps [of os fuel b] split: sum.splits)
    have "blocked_reach os s0 (Some cur) b1" by (rule at_enter [OF 1(2) False e])
    with 1(1) [OF False e refl] r show ?thesis by blast
  qed
next
  case (2 os fuel cur b)
  then obtain n nxt b1 where n: "fuel = Suc n" and t: "blocked_turn os cur b = Inr (nxt, b1)"
    by (auto simp: blocked_inner.simps [of os fuel cur b] split: nat.splits sum.splits prod.splits)
  have reach: "blocked_reach os s0 nxt b1" by (rule at_turn [OF 2(3) t])
  show ?case
  proof (cases nxt)
    case None
    with 2(4) n t have "blocked_outer os n b1 = Some (Inr b')"
      by (simp add: blocked_inner.simps [of os "Suc n" cur b])
    with 2(1) [OF n t refl None] reach None show ?thesis by simp
  next
    case (Some c)
    with 2(4) n t have "blocked_inner os n c b1 = Some (Inr b')"
      by (simp add: blocked_inner.simps [of os "Suc n" cur b])
    with 2(2) [OF n t refl Some] reach Some show ?thesis by simp
  qed
qed

text \<open>At the inner head the block entered is the one at the program counter, in the table.\<close>

definition at_ok :: "u32 option \<Rightarrow> 'h blocked \<Rightarrow> bool" where
  "at_ok pos b \<longleftrightarrow> (\<forall>cur. pos = Some cur \<longrightarrow>
     cur = get_reg MIPS_R_PC (bmach b) \<and> cur \<in> dom (blocks b) \<and> \<not> halted (cpu (bmach b)))"

lemma blocked_reach_chain:
  assumes "blocked_reach os s0 pos b"
  shows "chain_ok {} m b \<and> at_ok pos b"
  using assms
proof (induction rule: blocked_reach.induct)
  case at_start
  then show ?case by (simp add: chain_ok_init at_ok_def)
next
  case (at_enter b cur b')
  then have "chain_ok {} m b" by simp
  from blocked_enter_chain [OF at_enter.hyps(3) this at_enter.hyps(2)]
  show ?case using at_enter.hyps(2) by (auto simp: at_ok_def)
next
  case (at_turn cur b nxt b')
  then have "chain_ok {} m b" "cur = get_reg MIPS_R_PC (bmach b)" by (simp_all add: at_ok_def)
  then obtain blk where "chain_ok {} m b'" and
    "\<And>p. nxt = Some p \<Longrightarrow> p = get_reg MIPS_R_PC (bmach b') \<and> p \<in> dom (blocks b') \<and>
       \<not> halted (cpu (bmach b'))"
    by (rule blocked_turn_chain [OF at_turn.hyps(2)]) blast
  then show ?case by (simp add: at_ok_def)
qed

section \<open>A whole run\<close>

text \<open>
  \<open>s'\<close> is \<open>\<sigma>\<close> up to the program counters, after the operations \<open>zs\<close>. They are the rest, from
  the program counter of \<open>\<sigma>\<close> on, of a block that was decoded from the text.
\<close>

definition same_core :: "'h machine \<Rightarrow> 'h machine \<Rightarrow> bool" where
  "same_core s t \<longleftrightarrow> pcs 0 0 0 s = pcs 0 0 0 t"

definition goes_on :: "'h os \<Rightarrow> u32 set \<Rightarrow> memory \<Rightarrow> op_t list \<Rightarrow> 'h machine \<Rightarrow> 'h machine \<Rightarrow> bool" where
  "goes_on os T m zs \<sigma> s' \<longleftrightarrow>
     (\<exists>u t. same_core \<sigma> u \<and> exec_ops os zs u = Inr t \<and> same_core t s') \<and>
     (zs = [] \<or> (\<exists>blk ys. block_of T m (blk_address blk) blk \<and> block_ops blk = ys @ zs \<and>
        get_reg MIPS_R_PC \<sigma> = blk_address blk + 4 * of_nat (length ys)))"

lemma pcs_pcs [simp]: "pcs a n nn (pcs a' n' nn' t) = pcs a n nn t"
  by (simp add: pcs_def put_reg_commute [of 36 34] put_reg_commute [of 35 34] put_reg_commute [of 36 35])

lemma same_core_simps [simp, intro]:
  "same_core s s" "same_core (pcs a n nn s) s" "same_core s (pcs a n nn s)"
  "same_core (put_reg 34 v s) s" "same_core s (put_reg 34 v s)" "same_core (sequential s) s"
  by (simp_all add: same_core_def sequential_def)

lemma same_core_fields:
  assumes "same_core s t"
  shows "halted (cpu s) = halted (cpu t)" "status (cpu s) = status (cpu t)"
    "hstate s = hstate t" "gmem s = gmem t"
  using assms pcs_simps [of 0 0 0 s] pcs_simps [of 0 0 0 t] by (auto simp: same_core_def)

definition finished :: "'h os \<Rightarrow> u32 set \<Rightarrow> 'h machine \<Rightarrow> 'h machine \<Rightarrow> bool" where
  "finished os T s0 s' \<longleftrightarrow>
     (\<exists>\<sigma> zs. switch_reach os s0 \<sigma> \<and> halted (cpu \<sigma>) \<and> goes_on os T (gmem s0) zs \<sigma> s')"

lemma exits_in_finished:
  assumes "exits_in os s0 a (block_ops blk) t" "block_of T (gmem s0) a blk"
  shows "finished os T s0 (put_reg MIPS_R_PC v t)"
proof -
  obtain ys zs u n nn where z: "block_ops blk = ys @ zs" "halted (cpu u)" "exec_ops os zs u = Inr t"
    "switch_reach os s0 (pcs (a + 4 * of_nat (length ys)) n nn u)"
    using assms(1) by (auto simp: exits_in_def)
  let ?\<sigma> = "pcs (a + 4 * of_nat (length ys)) n nn u"
  have "blk_address blk = a" using assms(2) by (simp add: block_of_def)
  with assms(2) z have "goes_on os T (gmem s0) zs ?\<sigma> (put_reg MIPS_R_PC v t)"
    unfolding goes_on_def by (intro conjI exI [of _ u] exI [of _ t] disjI2 exI [of _ blk] exI [of _ ys]) auto
  with z show ?thesis unfolding finished_def by (intro exI [of _ ?\<sigma>] exI [of _ zs]) simp
qed

lemma sequential_finished:
  assumes "switch_reach os s0 (sequential s')" "halted (cpu s')"
  shows "finished os T s0 s'"
proof -
  have "goes_on os T (gmem s0) [] (sequential s') s'"
    unfolding goes_on_def by (intro conjI exI [of _ s']) auto
  with assms show ?thesis
    unfolding finished_def by (intro exI [of _ "sequential s'"] exI [of _ "[]"]) (simp add: sequential_def)
qed

definition simulates :: "'h os \<Rightarrow> u32 set \<Rightarrow> 'h machine \<Rightarrow> 'h machine \<Rightarrow> bool" where
  "simulates os T s0 s \<longleftrightarrow>
     (if halted (cpu s) then finished os T s0 s else switch_reach os s0 (sequential s))"

lemma exits_in_halted: "exits_in os s0 a ops t \<Longrightarrow> halted (cpu t)"
  by (auto simp: exits_in_def dest: exec_ops_keeps(2))

lemma simulates_turn:
  assumes "text_stable os T s0" "delay_slots_ok T (gmem s0)" "simulates os T s0 s" "\<not> halted (cpu s)"
    and "block_of T (gmem s0) (get_reg MIPS_R_PC s) blk" "exec_block os blk s = Inr s'"
  shows "simulates os T s0 s'"
proof -
  from assms(3,4) have "switch_reach os s0 (sequential s)" by (simp add: simulates_def)
  from block_run [OF assms(1,2,5) this assms(6)] show ?thesis
  proof
    assume "switch_reach os s0 (sequential s')"
    then show ?thesis by (simp add: simulates_def sequential_finished)
  next
    assume "\<exists>t. exits_in os s0 (get_reg MIPS_R_PC s) (block_ops blk) t \<and>
      s' = put_reg MIPS_R_PC (get_reg MIPS_R_NNPC t) t"
    then obtain t where t: "exits_in os s0 (get_reg MIPS_R_PC s) (block_ops blk) t"
      "s' = put_reg MIPS_R_PC (get_reg MIPS_R_NNPC t) t" by blast
    with exits_in_finished [OF t(1) assms(5)] exits_in_halted [OF t(1)] show ?thesis
      by (simp add: simulates_def)
  qed
qed

lemma blocked_reach_simulates:
  assumes "blocked_reach os s0 pos b" "text_stable os T s0" "delay_slots_ok T (gmem s0)"
    and "sequential s0 = s0"
  shows "chain_ok T (gmem s0) b \<and> at_ok pos b \<and> simulates os T s0 (bmach b)"
  using assms(1)
proof (induction rule: blocked_reach.induct)
  case at_start
  have "switch_reach os s0 (sequential s0)" using assms(4) reach_start by simp
  then show ?case
    by (simp add: chain_ok_init at_ok_def simulates_def sequential_finished blocked_init_bmach)
next
  case (at_enter b cur b')
  then have "chain_ok T (gmem s0) b" and sim: "switch_reach os s0 (sequential (bmach b))"
    by (simp_all add: simulates_def)
  moreover from sim have "memory_read_u32 (gmem (bmach b)) a = memory_read_u32 (gmem s0) a" if "a \<in> T" for a
    using assms(2) that by (force simp: text_stable_def sequential_def)
  ultimately show ?case
    using blocked_enter_chain [OF at_enter.hyps(3) _ at_enter.hyps(2), of T "gmem s0"] at_enter
    by (auto simp: at_ok_def)
next
  case (at_turn cur b nxt b')
  then have "chain_ok T (gmem s0) b" "cur = get_reg MIPS_R_PC (bmach b)" by (simp_all add: at_ok_def)
  then obtain blk where blk: "block_of T (gmem s0) cur blk"
    "exec_block os blk (bmach b) = Inr (bmach b')" "chain_ok T (gmem s0) b'" and
    at: "\<And>p. nxt = Some p \<Longrightarrow> p = get_reg MIPS_R_PC (bmach b') \<and> p \<in> dom (blocks b') \<and>
       \<not> halted (cpu (bmach b'))"
    by (rule blocked_turn_chain [OF at_turn.hyps(2)]) blast
  have "simulates os T s0 (bmach b')"
    using at_turn.IH blk simulates_turn [OF assms(2,3) _ _ _ blk(2)] by (simp add: at_ok_def)
  with blk(3) at show ?case by (simp add: at_ok_def)
qed

text \<open>A run of the block-caching interpreter that returns is a run of the switch that returns.\<close>

lemma blocked_run_finished:
  assumes "text_stable os T s0" "delay_slots_ok T (gmem s0)" "sequential s0 = s0"
    and "interpreter_blocked os fuel s0 = Some (Inr s')"
  shows "finished os T s0 s'"
proof -
  from assms(4) obtain b where b: "blocked_outer os fuel (blocked_init s0) = Some (Inr b)" "s' = bmach b"
    by (auto simp: interpreter_blocked_def elim!: bindR_InrE)
  from blocked_run_reach(1) [OF at_start b(1)]
  have "blocked_reach os s0 None b" "halted (cpu (bmach b))" by simp_all
  with blocked_reach_simulates [OF this(1) assms(1-3)] b(2) show ?thesis
    by (simp add: simulates_def)
qed

lemma finished_switch:
  assumes "finished os T s0 s'"
  obtains n \<sigma> zs where "interpreter_switch os n s0 = Some (Inr \<sigma>)" "halted (cpu \<sigma>)"
    "goes_on os T (gmem s0) zs \<sigma> s'"
proof -
  obtain \<sigma> zs where s: "switch_reach os s0 \<sigma>" "halted (cpu \<sigma>)" "goes_on os T (gmem s0) zs \<sigma> s'"
    using assms by (auto simp: finished_def)
  have "interpreter_switch os 0 \<sigma> = Some (Inr \<sigma>)" using s(2) by simp
  with switch_reach_run [OF s(1)] s that show thesis by blast
qed

text \<open>The operations past the exit keep the exit status and the host state but for system calls.\<close>

lemma exec_ops_no_syscall:
  assumes "exec_ops os zs u = Inr t" "\<forall>x \<in> set zs. op_op x \<noteq> Some I_syscall"
  shows "hstate t = hstate u \<and> status (cpu t) = status (cpu u)"
  using assms
proof (induction zs arbitrary: u)
  case (Cons x zs)
  from Cons.prems obtain v i where "exec_ops os zs v = Inr t" "op_op x = Some i"
    "interpret_instr os i (op_cir x) u = Inr v" "i \<noteq> I_syscall"
    by (auto simp: exec_op_def split: option.splits elim!: bindR_InrE)
  with no_syscall_keeps [OF this(3,4)] Cons.IH [of v] Cons.prems(2) show ?case by simp
qed simp

lemma goes_on_no_syscall:
  assumes "goes_on os T m zs \<sigma> s'" "\<forall>x \<in> set zs. op_op x \<noteq> Some I_syscall"
  shows "hstate s' = hstate \<sigma> \<and> status (cpu s') = status (cpu \<sigma>)"
proof -
  obtain u t where "same_core \<sigma> u" "exec_ops os zs u = Inr t" "same_core t s'"
    using assms(1) by (auto simp: goes_on_def)
  with exec_ops_no_syscall [OF this(2) assms(2)] show ?thesis by (simp add: same_core_fields)
qed

section \<open>A block-caching run stops when the switch does\<close>

lemma turn_progress:
  assumes "text_stable os T s0" "delay_slots_ok T (gmem s0)" "blocked_reach os s0 (Some cur) b"
    and "sequential s0 = s0" "switch_steps os s0 n (sequential (bmach b))"
    and "blocked_turn os cur b = Inr (nxt, b')"
  shows "halted (cpu (bmach b')) \<or> (\<exists>k > n. switch_steps os s0 k (sequential (bmach b')))"
proof -
  from blocked_reach_simulates [OF assms(3,1,2,4)] have c: "chain_ok T (gmem s0) b"
    "cur = get_reg MIPS_R_PC (bmach b)" by (simp_all add: at_ok_def)
  obtain blk where "block_of T (gmem s0) cur blk" "exec_block os blk (bmach b) = Inr (bmach b')"
    by (rule blocked_turn_chain [OF assms(6) c])
  with block_run_steps [OF assms(1,2) _ assms(5), of blk "bmach b'"] c(2)
  consider "\<exists>k > n. switch_steps os s0 k (sequential (bmach b'))"
    | t where "exits_in os s0 cur (block_ops blk) t" "bmach b' = put_reg MIPS_R_PC (get_reg MIPS_R_NNPC t) t"
    by auto
  then show ?thesis
  proof cases
    case (2 t)
    from exits_in_halted [OF 2(1)] show ?thesis by (simp add: 2(2))
  qed simp
qed

text \<open>\<open>n\<close> of the at most \<open>m\<close> steps of the switch are done; every block is at least one.\<close>

lemma blocked_run_total:
  assumes "text_stable os T s0" "delay_slots_ok T (gmem s0)" "sequential s0 = s0"
    and "interpreter_switch os m s0 = Some r"
  shows "blocked_reach os s0 None b \<Longrightarrow> halted (cpu (bmach b)) \<or> switch_steps os s0 n (sequential (bmach b)) \<Longrightarrow>
      m \<le> fuel + n \<Longrightarrow> blocked_outer os fuel b \<noteq> None"
    "blocked_reach os s0 (Some cur) b \<Longrightarrow> switch_steps os s0 n (sequential (bmach b)) \<Longrightarrow>
      m \<le> fuel + n \<Longrightarrow> blocked_inner os fuel cur b \<noteq> None"
  using assms
proof (induction os fuel b and os fuel cur b arbitrary: n and n rule: blocked_outer_blocked_inner.induct)
  case (1 os fuel b)
  show ?case
  proof (cases "halted (cpu (bmach b)) \<or> (\<exists>e. blocked_enter os b = Inl e)")
    case True
    then show ?thesis by (auto simp: blocked_outer.simps [of os fuel b])
  next
    case False
    then obtain cur b1 where run: "\<not> halted (cpu (bmach b))" and e: "blocked_enter os b = Inr (cur, b1)"
      by (cases "blocked_enter os b") auto
    have reach: "blocked_reach os s0 (Some cur) b1" by (rule at_enter [OF 1(2) run e])
    from blocked_reach_simulates [OF 1(2,5,6,7)] have "chain_ok T (gmem s0) b" by simp
    moreover have "memory_read_u32 (gmem (bmach b)) a = memory_read_u32 (gmem s0) a" if "a \<in> T" for a
      using 1(3,5) run that steps_reach by (force simp: text_stable_def sequential_def)
    ultimately have "bmach b1 = bmach b" using blocked_enter_chain [OF e _ run] by blast
    with 1(3) run have "switch_steps os s0 n (sequential (bmach b1))" by simp
    from 1(1) [OF run e refl reach this 1(4-8)] e run show ?thesis
      by (simp add: blocked_outer.simps [of os fuel b])
  qed
next
  case (2 os fuel cur b)
  from blocked_reach_simulates [OF 2(3,6,7,8)] have running: "\<not> halted (cpu (bmach b))"
    by (simp add: at_ok_def)
  with switch_steps_run [OF 2(4,9)] 2(5) obtain k where k: "fuel = Suc k"
    by (cases fuel) (auto simp: sequential_def)
  show ?case
  proof (cases "blocked_turn os cur b")
    case (Inl e)
    then show ?thesis by (simp add: k blocked_inner.simps [of os "Suc k" cur b])
  next
    case (Inr p)
    obtain nxt b1 where p: "p = (nxt, b1)" by (cases p)
    have reach: "blocked_reach os s0 nxt b1" by (rule at_turn [OF 2(3) Inr [unfolded p]])
    from turn_progress [OF 2(6,7,3,8,4) Inr [unfolded p]]
    obtain n' where n': "halted (cpu (bmach b1)) \<or> switch_steps os s0 n' (sequential (bmach b1))"
      "m \<le> k + n'" using 2(5) k
      by (metis add_Suc_right add_Suc_shift le_trans less_eq_Suc_le nat_add_left_cancel_le le_add2)
    show ?thesis
    proof (cases nxt)
      case None
      from 2(1) [OF k Inr p [symmetric] None reach [unfolded None] n' 2(6-9)] Inr p None k
      show ?thesis by (simp add: blocked_inner.simps [of os "Suc k" cur b])
    next
      case (Some c)
      with blocked_reach_simulates [OF reach 2(6,7,8)] n'(1)
      have "switch_steps os s0 n' (sequential (bmach b1))" by (simp add: at_ok_def)
      from 2(2) [OF k Inr p [symmetric] Some reach [unfolded Some] this n'(2) 2(6-9)] Inr p Some k
      show ?thesis by (simp add: blocked_inner.simps [of os "Suc k" cur b])
    qed
  qed
qed

lemma blocked_stops:
  assumes "text_stable os T s0" "delay_slots_ok T (gmem s0)" "sequential s0 = s0"
    and "interpreter_switch os m s0 = Some r"
  shows "interpreter_blocked os m s0 \<noteq> None"
  using blocked_run_total(1) [OF assms at_start, of 0 m] steps_start [of os s0] assms(3)
  by (simp add: interpreter_blocked_def blocked_init_bmach)

end
