(* ===== verification/Blocked_Spec.thy ===== *)
theory Blocked_Spec
  imports Blocked_Chain Interpreter_Spec
begin

text \<open>
  The properties of the block-caching interpreter: what it decodes, that its unrolled loop and
  its chained blocks execute what they should, and that a run of it is a run of the switch.
\<close>

section \<open>The block of the process that exits\<close>

definition exit_ops :: "op_t list" where
  "exit_ops = [\<lparr>op_cir = 0x0000000c, op_op = Some I_syscall\<rparr>, \<lparr>op_cir = 0x08000000, op_op = Some I_j\<rparr>,
     \<lparr>op_cir = 0, op_op = Some I_sll\<rparr>]"

definition exit_block :: block where
  "exit_block = \<lparr>blk_address = 0, blk_size = 4, blk_ops = exit_ops @ [\<lparr>op_cir = 0, op_op = None\<rparr>],
     blk_indirect = False, blk_next = (\<lambda>_. None)\<rparr>"

lemma exit_dispatch:
  "block_dispatch 0x0000000c = Inr I_syscall" "block_dispatch 0x08000000 = Inr I_j"
  "block_dispatch 0 = Inr I_sll"
  using exit_decode by (simp_all add: block_dispatch_Inr [of _ _ 0])

lemma exit_kinds:
  "\<not> is_indirect I_syscall" "\<not> is_branch I_syscall" "\<not> is_indirect I_j" "is_branch I_j"
  "\<not> is_indirect I_sll" "\<not> is_branch I_sll"
  by (simp_all add: is_indirect_def is_branch_def LABELS_BRANCH_def LABELS_BRANCH_INDIRECT_def)

lemma exit_push:
  "da_size d < 32 \<Longrightarrow> da_capacity d = 32 \<Longrightarrow> DARRAY_PUSH os cir f d =
     Inr (d\<lparr>da_ops := da_ops d @ [\<lparr>op_cir = cir, op_op = f\<rparr>], da_size := da_size d + 1\<rparr>)"
  by (auto simp: DARRAY_PUSH_def)

lemma exit_decode_block_os:
  assumes "os_malloc os 512" "os_malloc os 96"
  shows "decode_block os exit_start = Inr exit_block"
proof -
  have f: "DECODE_FUEL = Suc (Suc (Suc (DECODE_FUEL - 3)))" by (simp add: DECODE_FUEL_def)
  show ?thesis
    unfolding decode_block_def Let_def
    by (subst f)
       (simp add: assms decode_chain.simps exit_words exit_dispatch exit_kinds exit_push exit_block_def exit_ops_def)
qed

lemma exit_decode_block: "decode_block demo_os exit_start = Inr exit_block"
  by (rule exit_decode_block_os) simp_all

lemma exit_block_of: "block_of UNIV (gmem exit_start) 0 exit_block"
  using decode_block_InrD [OF exit_decode_block] by simp

lemma exit_exec:
  "\<exists>s'. exec_block os exit_block exit_start = Inr s' \<and> halted (cpu s')"
proof -
  let ?s = "put_reg MIPS_R_PC (branch_pc 0 exit_ops) exit_start"
  let ?u = "upd_cpu (\<lambda>m. m\<lparr>status := 3, halted := True\<rparr>) ?s"
  have "regs (cpu exit_start) 2 = 4001" "regs (cpu exit_start) 4 = 3"
    using exit_start_simps(1) [of 2] exit_start_simps(1) [of 4] by (simp_all add: get_reg_def)
  then have "exec_op os (hd exit_ops) ?s = Inr ?u"
    by (simp add: exit_ops_def exec_op_def itp_type_defs ITP_SYSCALL_IMPL_def mips_syscall_exit_def NR_exit_def)
  moreover have "\<exists>t. exec_ops os (tl exit_ops) u = Inr t" for u
    by (simp add: exit_ops_def exec_op_def itp_type_defs on_cpu_def)
  moreover have "exit_ops = hd exit_ops # tl exit_ops" by (simp add: exit_ops_def)
  ultimately obtain t where t: "exec_ops os exit_ops ?s = Inr t" "exec_ops os (tl exit_ops) ?u = Inr t"
    by (metis bindR_Inr exec_ops_simps(2))
  have "halted (cpu t)" using exec_ops_keeps(2) [OF t(2)] by simp
  moreover have "block_ops exit_block = exit_ops" by (simp add: block_ops_def exit_block_def)
  ultimately show ?thesis
    using exec_block_ops [OF exit_block_of, of exit_start os] t(1) by simp
qed

lemma exit_enter_os:
  assumes "os_malloc os 512" "os_malloc os 96"
  shows "blocked_enter os (blocked_init exit_start) = Inr (0, (blocked_init exit_start)\<lparr>blocks := [0 \<mapsto> exit_block]\<rparr>)"
  using exit_decode_block_os [OF assms]
  by (simp add: blocked_enter_def link_previous_def blocked_init_def) (simp add: exit_block_def)

lemma exit_enter:
  "blocked_enter demo_os (blocked_init exit_start) = Inr (0, (blocked_init exit_start)\<lparr>blocks := [0 \<mapsto> exit_block]\<rparr>)"
  by (rule exit_enter_os) simp_all

lemma exit_blocked_outer:
  assumes "os_malloc os 512" "os_malloc os 96"
  shows "\<exists>b. blocked_outer os 1 (blocked_init exit_start) = Some (Inr b) \<and> blocks b = [0 \<mapsto> exit_block]"
proof -
  obtain s' where s': "exec_block os exit_block exit_start = Inr s'" "halted (cpu s')"
    using exit_exec by blast
  let ?b = "(blocked_init exit_start)\<lparr>blocks := [0 \<mapsto> exit_block]\<rparr>"
  have turn: "blocked_turn os 0 ?b = Inr (None, ?b\<lparr>bmach := s', previous := Some 0\<rparr>)"
    using s' by (simp add: blocked_turn_def blocked_init_def Let_def)
  have "blocked_outer os 1 (blocked_init exit_start) =
      Some (Inr (?b\<lparr>bmach := s', previous := Some 0\<rparr>))"
    unfolding blocked_outer.simps [of os 1] exit_enter_os [OF assms] blocked_inner.simps [of os 1]
    using s'(2) by (simp add: turn blocked_init_bmach One_nat_def blocked_outer.simps [of os 0])
  then show ?thesis by simp
qed

lemma exit_blocked_run:
  "\<exists>s'. interpreter_blocked demo_os 1 exit_start = Some (Inr s')"
  using exit_blocked_outer [of demo_os] by (auto simp: interpreter_blocked_def)

lemma exit_reach:
  "switch_reach demo_os exit_start s \<Longrightarrow> s = exit_start \<or> s = exit_stop"
  by (induction rule: switch_reach.induct) (auto simp: exit_step)

lemma exit_text: "text_stable demo_os {0} exit_start"
  unfolding text_stable_def by (auto dest!: exit_reach)

lemma exit_slots: "delay_slots_ok {0} (gmem exit_start)"
  by (simp add: delay_slots_ok_def branch_at_def exit_words exit_dispatch exit_kinds)

lemma exit_sequential: "sequential exit_start = exit_start"
  by (simp add: sequential_def pcs_def put_reg_unchanged)

section \<open>A process whose block goes on after the exit\<close>

text \<open>\<open>syscall\<close>, \<open>break\<close>, \<open>j 0\<close> and a \<open>nop\<close>, entered with \<open>exit(3)\<close>.\<close>

definition past_code :: "u32 list" where
  "past_code = [0x0000000c, 0x0000000d, 0x08000000, 0x00000000]"

definition past_start :: "unit machine" where
  "past_start = exit_start\<lparr>gmem := one_page (words_page past_code)\<rparr>"

definition past_ops :: "op_t list" where
  "past_ops = \<lparr>op_cir = 0x0000000c, op_op = Some I_syscall\<rparr> # \<lparr>op_cir = 0x0000000d, op_op = Some I_brk\<rparr> #
     tl exit_ops"

definition past_block :: block where
  "past_block = \<lparr>blk_address = 0, blk_size = 5, blk_ops = past_ops @ [\<lparr>op_cir = 0, op_op = None\<rparr>],
     blk_indirect = False, blk_next = (\<lambda>_. None)\<rparr>"

lemma past_start_simps [simp]:
  "get_reg i past_start = get_reg i exit_start" "cpu past_start = cpu exit_start"
  "gmem past_start = one_page (words_page past_code)"
  by (simp_all add: past_start_def)

lemma past_words:
  "memory_read_u32 (one_page (words_page past_code)) 0 = Inr 0x0000000c"
  "memory_read_u32 (one_page (words_page past_code)) 4 = Inr 0x0000000d"
  "memory_read_u32 (one_page (words_page past_code)) 8 = Inr 0x08000000"
  "memory_read_u32 (one_page (words_page past_code)) 12 = Inr 0x00000000"
  using words_page_read [of 0 past_code] words_page_read [of 1 past_code]
    words_page_read [of 2 past_code] words_page_read [of 3 past_code] by (simp_all add: past_code_def)

lemma past_dispatch: "block_dispatch 0x0000000d = Inr I_brk" "\<not> is_indirect I_brk" "\<not> is_branch I_brk"
proof -
  have "switch_decode 0 0x0000000d = Inr I_brk"
    by (simp add: switch_decode_def INSTRUCTIONS_PRIMARY_def INSTRUCTIONS_SECONDARY_def
        opcode_consts field_def field_consts)
  then show "block_dispatch 0x0000000d = Inr I_brk" by (simp add: block_dispatch_Inr [of _ _ 0])
qed (simp_all add: is_indirect_def is_branch_def LABELS_BRANCH_def LABELS_BRANCH_INDIRECT_def)

lemma past_decode_block: "decode_block demo_os past_start = Inr past_block"
proof -
  have f: "DECODE_FUEL = Suc (Suc (Suc (Suc (DECODE_FUEL - 4))))" by (simp add: DECODE_FUEL_def)
  show ?thesis
    unfolding decode_block_def Let_def
    by (subst f)
       (simp add: decode_chain.simps past_words past_dispatch exit_dispatch exit_kinds exit_push
          past_block_def past_ops_def exit_ops_def)
qed

lemma past_exec: "exec_block demo_os past_block past_start = Inl IllegalBrk"
proof -
  have blk: "block_of UNIV (gmem past_start) 0 past_block"
    using decode_block_InrD [OF past_decode_block] by simp
  have ops: "block_ops past_block = past_ops" by (simp add: block_ops_def past_block_def)
  have "regs (cpu exit_start) 2 = 4001" using exit_start_simps(1) [of 2] by (simp add: get_reg_def)
  then have "exec_ops demo_os past_ops (put_reg MIPS_R_PC v past_start) = Inl IllegalBrk" for v
    by (simp add: past_ops_def exec_op_def itp_type_defs ITP_SYSCALL_IMPL_def mips_syscall_exit_def
        NR_exit_def ITP_BRK_IMPL_def)
  then show ?thesis using exec_block_ops [OF blk, of past_start demo_os] by (simp add: ops)
qed

lemma past_enter:
  "blocked_enter demo_os (blocked_init past_start) = Inr (0, (blocked_init past_start)\<lparr>blocks := [0 \<mapsto> past_block]\<rparr>)"
  by (simp add: blocked_enter_def link_previous_def blocked_init_def past_decode_block) (simp add: past_block_def)

lemma past_switch: "\<exists>\<sigma>. switch_body demo_os past_start = Inr \<sigma> \<and> halted (cpu \<sigma>) \<and> status (cpu \<sigma>) = 3"
proof -
  have "regs (cpu exit_start) 2 = 4001" "regs (cpu exit_start) 4 = 3"
    using exit_start_simps(1) [of 2] exit_start_simps(1) [of 4] by (simp_all add: get_reg_def)
  then show ?thesis
    by (simp add: switch_body_def fetch_def past_words exit_decode itp_type_defs
        ITP_SYSCALL_IMPL_def mips_syscall_exit_def NR_exit_def)
qed

section \<open>Decoding never overruns its array\<close>

lemma read_u32_not_overrun: "memory_read_u32 mem a \<noteq> Inl HostOverrun"
  by (simp add: memory_read_u32_def load_bytes_eq)

lemma block_dispatch_not_overrun: "block_dispatch cir \<noteq> Inl HostOverrun"
proof
  assume "block_dispatch cir = Inl HostOverrun"
  then have "same_outcome (Inl HostOverrun) (switch_decode 0 cir)"
    using block_dispatch_agrees [of cir 0] by simp
  then show False
    by (auto simp: same_outcome_def switch_decode_def split: sum.splits option.splits if_splits)
qed

lemma DARRAY_PUSH_not_overrun:
  "darray_ok d \<Longrightarrow> length (da_ops d) < 2 ^ 31 \<Longrightarrow> DARRAY_PUSH os cir f d \<noteq> Inl HostOverrun"
  using DARRAY_PUSH_ok [of d os cir f] by auto

definition decode_one :: "'h os \<Rightarrow> memory \<Rightarrow> u32 \<Rightarrow> darray \<Rightarrow> (mnemonic \<times> darray) result" where
  "decode_one os mem pc d =
     bindR (memory_read_u32 mem pc) (\<lambda>cir. bindR (block_dispatch cir) (\<lambda>i.
     bindR (DARRAY_PUSH os cir (Some i) d) (\<lambda>d. Inr (i, d))))"

lemma decode_chain_one:
  "decode_chain os (Suc fuel) mem hlt pc brd ind d =
     bindR (decode_one os mem pc d) (\<lambda>(i, d).
       if is_indirect i then decode_chain os fuel mem hlt (pc + 4) True True d
       else if is_branch i then decode_chain os fuel mem hlt (pc + 4) True ind d
       else if \<not> brd \<and> \<not> hlt then decode_chain os fuel mem hlt (pc + 4) brd ind d
       else Inr (ind, d))"
  unfolding decode_chain.simps [of os "Suc fuel" mem hlt pc brd ind d]
  by (auto simp: decode_one_def bindR_assoc intro!: bindR_cong)

lemma decode_one_ok:
  assumes "darray_ok d" "length (da_ops d) < 2 ^ 31"
  shows "decode_one os mem pc d \<noteq> Inl HostOverrun"
    and "decode_one os mem pc d = Inr (i, d1) \<Longrightarrow>
      darray_ok d1 \<and> length (da_ops d1) = Suc (length (da_ops d))"
proof -
  have "DARRAY_PUSH os cir f d \<noteq> Inl HostOverrun" for cir f
    by (rule DARRAY_PUSH_not_overrun [OF assms])
  then show "decode_one os mem pc d \<noteq> Inl HostOverrun"
    using read_u32_not_overrun block_dispatch_not_overrun
    by (auto simp: decode_one_def bindR_eq_Inl_iff)
  assume "decode_one os mem pc d = Inr (i, d1)"
  then obtain cir where "DARRAY_PUSH os cir (Some i) d = Inr d1"
    by (auto simp: decode_one_def elim!: bindR_InrE)
  with DARRAY_PUSH_ok [OF assms, of os cir "Some i"]
  show "darray_ok d1 \<and> length (da_ops d1) = Suc (length (da_ops d))" by auto
qed

lemma decode_chain_not_overrun:
  assumes "darray_ok d" "length (da_ops d) + fuel < 2 ^ 31"
  shows "decode_chain os fuel mem hlt pc brd ind d \<noteq> Inl HostOverrun \<and>
    (\<forall>i d'. decode_chain os fuel mem hlt pc brd ind d = Inr (i, d') \<longrightarrow>
       darray_ok d' \<and> length (da_ops d') \<le> length (da_ops d) + fuel)"
  using assms
proof (induction fuel arbitrary: pc brd ind d)
  case 0
  then show ?case by (simp add: decode_chain.simps [of os 0])
next
  case (Suc fuel)
  have len: "length (da_ops d) < 2 ^ 31" using Suc.prems(2) by simp
  show ?case
  proof (cases "decode_one os mem pc d")
    case (Inl e)
    with decode_one_ok(1) [OF Suc.prems(1) len, of os mem pc] show ?thesis by (auto simp: decode_chain_one)
  next
    case (Inr p)
    obtain i d1 where p: "p = (i, d1)" by (cases p)
    with decode_one_ok(2) [OF Suc.prems(1) len, of os mem pc i d1] Inr have d1: "darray_ok d1" "length (da_ops d1) = Suc (length (da_ops d))" by auto
    then have "length (da_ops d1) + fuel < 2 ^ 31" using Suc.prems(2) by simp
    note IH = Suc.IH [OF d1(1) this]
    show ?thesis
      using d1 IH [of "pc + 4" True True] IH [of "pc + 4" True ind] IH [of "pc + 4" brd ind]
      by (cases hlt; cases brd) (simp_all add: decode_chain_one Inr p)
  qed
qed

text \<open>Decoding never writes past the end of the array of operations, whatever the code.\<close>

lemma decode_no_overrun: "decode_block os s \<noteq> Inl HostOverrun"
proof -
  let ?d = "\<lparr>da_ops = [], da_size = 0, da_capacity = 32\<rparr>"
  have "darray_ok ?d" "length (da_ops ?d) + DECODE_FUEL < 2 ^ 31"
    by (simp_all add: darray_start DECODE_FUEL_def)
  note chain = decode_chain_not_overrun [OF this, of os "gmem s" "halted (cpu s)"
      "get_reg MIPS_R_PC s" False False]
  have "DARRAY_PUSH os cir None d \<noteq> Inl HostOverrun"
    if "decode_chain os DECODE_FUEL (gmem s) (halted (cpu s)) (get_reg MIPS_R_PC s) False False ?d = Inr (i, d)"
    for cir i d
    using chain that by (intro DARRAY_PUSH_not_overrun) (auto simp: DECODE_FUEL_def)
  with chain show ?thesis
    by (auto simp: decode_block_def Let_def bindR_eq_Inl_iff split: if_splits)
qed

lemma decoded_nth:
  assumes "decoded UNIV mem a ops" "k < length ops"
  shows "\<exists>i. memory_read_u32 mem (a + 4 * of_nat k) = Inr (op_cir (ops ! k)) \<and>
    switch_decode pc (op_cir (ops ! k)) = Inr i \<and> op_op (ops ! k) = Some i"
  using assms
proof (induction ops arbitrary: a k)
  case (Cons x ops)
  show ?case
  proof (cases k)
    case 0
    with Cons.prems(1) block_dispatch_Inr show ?thesis by fastforce
  next
    case (Suc j)
    with Cons.IH [of "a + 4" j] Cons.prems show ?thesis by (simp add: add.assoc)
  qed
qed simp



text \<open>C5: the unrolled loop, entered in the middle of its body, executes every operation of the
  block once and in order, and stops at the \<open>NULL\<close> handler.\<close>

theorem unrolled_loop_plain:
  assumes "unat sz = Suc (length ops)" "ops \<noteq> []" "\<forall>x \<in> set ops. op_op x \<noteq> None" "op_op z = None"
  shows "unrolled_loop call sz (ops @ [z]) s = exec_all call ops s"
  using assms by (rule unrolled_loop_exec)

lemma unrolled_loop_plain_witness:
  "unrolled_loop (exec_op demo_os) 12 (replicate 11 \<lparr>op_cir = 0x24420005, op_op = Some I_addiu\<rparr> @
     [\<lparr>op_cir = 0, op_op = None\<rparr>]) exit_start =
   exec_all (exec_op demo_os) (replicate 11 \<lparr>op_cir = 0x24420005, op_op = Some I_addiu\<rparr>) exit_start"
  by (rule unrolled_loop_plain) simp_all

text \<open>Every block of the table was decoded at the program counter of an earlier state.\<close>

lemma find_block_blocks:
  assumes "find_block os b = Inr b1" "blocks b1 a = Some blk"
  shows "blocks b a = Some blk \<or> decode_block os (bmach b) = Inr blk \<and> a = get_reg MIPS_R_PC (bmach b)"
proof (cases "blocks b (get_reg MIPS_R_PC (bmach b))")
  case None
  with assms(1) obtain blk' where dec: "decode_block os (bmach b) = Inr blk'"
    and b1: "b1 = b\<lparr>blocks := (blocks b)(blk_address blk' \<mapsto> blk')\<rparr>"
    by (auto simp: find_block_def elim: bindR_InrE)
  have "blk_address blk' = get_reg MIPS_R_PC (bmach b)"
    using dec by (auto simp: decode_block_def Let_def elim!: bindR_InrE split: if_splits)
  with dec b1 assms(2) show ?thesis by (auto split: if_splits)
qed (use assms in \<open>auto simp: find_block_def\<close>)

lemma blocked_reach_decoded:
  assumes "blocked_reach os s0 pos b" "blocks b a = Some blk"
  shows "\<exists>b0. blocked_reach os s0 None b0 \<and> get_reg MIPS_R_PC (bmach b0) = a \<and>
    block_of UNIV (gmem (bmach b0)) a blk"
  using assms
proof (induction arbitrary: a blk rule: blocked_reach.induct)
  case (at_enter b cur b')
  let ?P = "\<lambda>a blk. \<exists>b0. blocked_reach os s0 None b0 \<and> get_reg MIPS_R_PC (bmach b0) = a \<and>
    block_of UNIV (gmem (bmach b0)) a blk"
  have found: "?P a blk" if "find_block os b = Inr b1" "blocks b1 a = Some blk" for b1 a blk
    using find_block_blocks [OF that] at_enter.IH at_enter.hyps(1) decode_block_InrD(1) [OF _ at_enter.hyps(2)] by blast
  from at_enter.hyps(3) show ?case
  proof (cases rule: blocked_enter_cases)
    case (1 b1)
    with found at_enter.prems show ?thesis by blast
  next
    case (2 b1 p pb)
    show ?thesis
    proof (cases "a = p")
      case True
      with 2(6) at_enter.prems obtain nx where "blk = pb\<lparr>blk_next := nx\<rparr>" by auto
      with found [OF 2(1,4)] True show ?thesis by simp
    next
      case False
      with 2(6) at_enter.prems have "blocks b1 a = Some blk" by simp
      with found [OF 2(1)] show ?thesis by blast
    qed
  qed
next
  case (at_turn cur b nxt b')
  have "blocks b' = blocks b"
    using at_turn.hyps(2) by (auto simp: blocked_turn_def Let_def elim!: bindR_InrE split: option.splits)
  with at_turn show ?case by simp
qed (simp add: blocked_init_def)

text \<open>C4: whenever the inner loop enters a block, by a pointer or by the table, it is the block at the
  program counter, and running. Every block of the table has the words and handlers that the
  memory held from its address on when the outer loop had the program counter there, whether the
  program has modified them since or not; the pointers of a block that ends in a direct branch
  name the blocks at the two addresses where executing it can leave the program counter.\<close>

theorem chained_blocks_correct:
  assumes "blocked_reach os s0 (Some cur) b"
  shows "cur = get_reg MIPS_R_PC (bmach b) \<and> cur \<in> dom (blocks b) \<and> \<not> halted (cpu (bmach b)) \<and>
    (\<forall>a blk. blocks b a = Some blk \<longrightarrow>
       (\<exists>b0. blocked_reach os s0 None b0 \<and> get_reg MIPS_R_PC (bmach b0) = a \<and>
          block_of UNIV (gmem (bmach b0)) a blk) \<and>
       (\<not> blk_indirect blk \<longrightarrow>
          (\<forall>c p. blk_next blk c = Some p \<longrightarrow> p = block_target blk c \<and> p \<in> dom (blocks b)) \<and>
          (\<forall>s s'. get_reg MIPS_R_PC s = a \<longrightarrow> exec_block os blk s = Inr s' \<longrightarrow>
             get_reg MIPS_R_PC s' = block_target blk (branched (cpu s')))))"
proof -
  from blocked_reach_chain [OF assms, of "gmem s0"]
  have at: "at_ok (Some cur) b" and ok: "blocks_ok {} (gmem s0) (blocks b)" by (simp_all add: chain_ok_def)
  then have "cur = get_reg MIPS_R_PC (bmach b) \<and> cur \<in> dom (blocks b) \<and> \<not> halted (cpu (bmach b))"
    by (auto simp: at_ok_def)
  moreover have "\<forall>a blk. blocks b a = Some blk \<longrightarrow>
      (\<exists>b0. blocked_reach os s0 None b0 \<and> get_reg MIPS_R_PC (bmach b0) = a \<and>
         block_of UNIV (gmem (bmach b0)) a blk) \<and>
      (\<not> blk_indirect blk \<longrightarrow>
         (\<forall>c p. blk_next blk c = Some p \<longrightarrow> p = block_target blk c \<and> p \<in> dom (blocks b)) \<and>
         (\<forall>s s'. get_reg MIPS_R_PC s = a \<longrightarrow> exec_block os blk s = Inr s' \<longrightarrow>
            get_reg MIPS_R_PC s' = block_target blk (branched (cpu s'))))"
  proof (intro conjI allI impI)
    fix a blk
    assume blk: "blocks b a = Some blk"
    show "\<exists>b0. blocked_reach os s0 None b0 \<and> get_reg MIPS_R_PC (bmach b0) = a \<and>
      block_of UNIV (gmem (bmach b0)) a blk"
      by (rule blocked_reach_decoded [OF assms blk])
    have dec: "block_of {} (gmem s0) a blk" using ok blk by (simp add: blocks_ok_def)
    assume direct: "\<not> blk_indirect blk"
    then show "p = block_target blk c" "p \<in> dom (blocks b)" if "blk_next blk c = Some p" for c p
      using ok blk that by (simp_all add: blocks_ok_def)
    show "get_reg MIPS_R_PC s' = block_target blk (branched (cpu s'))"
      if "get_reg MIPS_R_PC s = a" "exec_block os blk s = Inr s'" for s s'
      using exec_block_target [OF _ direct that(2)] dec that(1) by simp
  qed
  ultimately show ?thesis by blast
qed

lemma chained_blocks_correct_witness:
  "blocked_reach demo_os exit_start (Some 0) ((blocked_init exit_start)\<lparr>blocks := [0 \<mapsto> exit_block]\<rparr>) \<and>
   (\<exists>b0. blocked_reach demo_os exit_start None b0 \<and> block_of UNIV (gmem (bmach b0)) 0 exit_block)"
proof -
  have "\<not> halted (cpu (bmach (blocked_init exit_start)))" by (simp add: blocked_init_bmach)
  from at_enter [OF at_start this exit_enter]
  have r: "blocked_reach demo_os exit_start (Some 0) ((blocked_init exit_start)\<lparr>blocks := [0 \<mapsto> exit_block]\<rparr>)" .
  have "blocks ((blocked_init exit_start)\<lparr>blocks := [0 \<mapsto> exit_block]\<rparr>) 0 = Some exit_block" by simp
  with chained_blocks_correct [OF r, THEN conjunct2, THEN conjunct2, THEN conjunct2] obtain b0
    where "blocked_reach demo_os exit_start None b0" "block_of UNIV (gmem (bmach b0)) 0 exit_block"
    by blast
  with r show ?thesis by blast
qed

text \<open>C1: a run of the block-caching interpreter that returns is a run of the switch that returns,
  when the program does not modify the code it executes and has no branch in a delay slot. The
  two final states agree but for the program counters and the operations \<open>zs\<close> of the last block
  after the exit, which the block still executes; without a system call among them the exit
  status and the host's state are the same.\<close>

theorem blocked_simulates_switch:
  assumes "text_stable os T s0" "delay_slots_ok T (gmem s0)" "sequential s0 = s0"
    and "interpreter_blocked os fuel s0 = Some (Inr s')"
  shows "\<exists>n \<sigma> zs. interpreter_switch os n s0 = Some (Inr \<sigma>) \<and> goes_on os T (gmem s0) zs \<sigma> s' \<and>
    ((\<forall>x \<in> set zs. op_op x \<noteq> Some I_syscall) \<longrightarrow>
       status (cpu s') = status (cpu \<sigma>) \<and> hstate s' = hstate \<sigma>)"
proof -
  obtain n \<sigma> zs where run: "interpreter_switch os n s0 = Some (Inr \<sigma>)" "goes_on os T (gmem s0) zs \<sigma> s'"
    by (rule finished_switch [OF blocked_run_finished [OF assms]])
  with goes_on_no_syscall [OF run(2)] show ?thesis by blast
qed

lemma blocked_simulates_switch_witness:
  "\<exists>s' n \<sigma>. interpreter_blocked demo_os 1 exit_start = Some (Inr s') \<and>
     interpreter_switch demo_os n exit_start = Some (Inr \<sigma>)"
proof -
  obtain s' where s': "interpreter_blocked demo_os 1 exit_start = Some (Inr s')"
    using exit_blocked_run by blast
  from blocked_simulates_switch [OF exit_text exit_slots exit_sequential s'] s' show ?thesis by blast
qed

lemma blocked_ends_with_switch:
  assumes "text_stable os T s0" "delay_slots_ok T (gmem s0)" "sequential s0 = s0"
    and "interpreter_switch os n s0 = Some r"
  shows "case r of Inl e \<Rightarrow> \<exists>e'. interpreter_blocked os n s0 = Some (Inl e')
    | Inr \<sigma> \<Rightarrow> \<exists>r'. interpreter_blocked os n s0 = Some r'"
proof -
  obtain r' where r': "interpreter_blocked os n s0 = Some r'" using blocked_stops [OF assms] by blast
  show ?thesis
  proof (cases r)
    case (Inl e)
    have "r' \<noteq> Inr s'" for s'
    proof
      assume "r' = Inr s'"
      with r' have "interpreter_blocked os n s0 = Some (Inr s')" by simp
      from blocked_run_finished [OF assms(1-3) this] obtain m \<sigma>
        where "interpreter_switch os m s0 = Some (Inr \<sigma>)" by (rule finished_switch)
      from sw.run_unique [OF assms(4) this] Inl show False by simp
    qed
    with r' Inl show ?thesis by (cases r') auto
  qed (use r' in simp)
qed



text \<open>The exit system call does not end the block, for example: the switch returns with status 3 where
  the block-caching interpreter goes on to the \<open>break\<close> behind the call and aborts.\<close>

lemma exit_does_not_end_block:
  "(\<exists>\<sigma>. interpreter_switch demo_os 1 past_start = Some (Inr \<sigma>) \<and> status (cpu \<sigma>) = 3) \<and>
   interpreter_blocked demo_os 1 past_start = Some (Inl IllegalBrk)"
proof
  obtain \<sigma> where "switch_body demo_os past_start = Inr \<sigma>" "halted (cpu \<sigma>)" "status (cpu \<sigma>) = 3"
    using past_switch by blast
  then show "\<exists>\<sigma>. interpreter_switch demo_os 1 past_start = Some (Inr \<sigma>) \<and> status (cpu \<sigma>) = 3"
    by (simp add: One_nat_def)
  have "blocked_turn demo_os 0 ((blocked_init past_start)\<lparr>blocks := [0 \<mapsto> past_block]\<rparr>) = Inl IllegalBrk"
    by (simp add: blocked_turn_def blocked_init_def past_exec)
  then have "blocked_outer demo_os 1 (blocked_init past_start) = Some (Inl IllegalBrk)"
    unfolding blocked_outer.simps [of demo_os 1] past_enter blocked_inner.simps [of demo_os 1]
    by (simp add: blocked_init_bmach One_nat_def)
  then show "interpreter_blocked demo_os 1 past_start = Some (Inl IllegalBrk)"
    by (simp add: interpreter_blocked_def)
qed

end
