(* ===== verification/Decode_Termination.thy ===== *)
theory Decode_Termination
  imports Blocked_Spec
begin

text \<open>
  The fuel of \<open>decode_block\<close> is enough: when it runs out, the dispatch chain of the C code does
  not end either, because the words from the program counter on, around the address space, are
  all branches or all not.
\<close>

section \<open>The words of a chain that runs out of fuel\<close>

definition instr_at :: "memory \<Rightarrow> u32 \<Rightarrow> mnemonic result" where
  "instr_at mem a = bindR (memory_read_u32 mem a) block_dispatch"

lemma read_u32_not_diverges: "memory_read_u32 mem a \<noteq> Inl Diverges"
  by (simp add: memory_read_u32_def load_bytes_eq)

lemma block_dispatch_not_diverges: "block_dispatch cir \<noteq> Inl Diverges"
  by (auto simp: block_dispatch_def table_dispatch_def table_entry_def bindR_eq_Inl_iff
      split: option.splits label.splits if_splits)

lemma DARRAY_PUSH_not_diverges: "DARRAY_PUSH os cir f d \<noteq> Inl Diverges"
  by (auto simp: DARRAY_PUSH_def bindR_eq_Inl_iff Let_def split: if_splits)

lemma decode_one_diverges: "decode_one os mem pc d \<noteq> Inl Diverges"
  using read_u32_not_diverges block_dispatch_not_diverges DARRAY_PUSH_not_diverges [of os]
  by (auto simp: decode_one_def bindR_eq_Inl_iff)

lemma decode_one_instr: "decode_one os mem pc d = Inr (i, d') \<Longrightarrow> instr_at mem pc = Inr i"
  by (auto simp: decode_one_def instr_at_def elim!: bindR_InrE)

text \<open>Each word is a branch, or the process runs and no word before it is one.\<close>

definition goes_on_at :: "memory \<Rightarrow> bool \<Rightarrow> bool \<Rightarrow> u32 \<Rightarrow> nat \<Rightarrow> bool" where
  "goes_on_at mem hlt brd pc k \<longleftrightarrow>
     (\<exists>i. instr_at mem (pc + 4 * of_nat k) = Inr i \<and>
       (is_branch i \<or> \<not> hlt \<and> \<not> brd \<and>
         (\<forall>j < k. \<forall>i'. instr_at mem (pc + 4 * of_nat j) = Inr i' \<longrightarrow> \<not> is_branch i')))"

lemma goes_on_at_Suc:
  assumes "instr_at mem pc = Inr i" "goes_on_at mem hlt (brd \<or> is_branch i) (pc + 4) k"
  shows "goes_on_at mem hlt brd pc (Suc k)"
proof -
  have shift: "pc + 4 + 4 * of_nat j = pc + 4 * of_nat (Suc j)" for j by simp
  from assms(2) obtain i' where i': "instr_at mem (pc + 4 * of_nat (Suc k)) = Inr i'"
    and k: "is_branch i' \<or> \<not> hlt \<and> \<not> (brd \<or> is_branch i) \<and>
      (\<forall>j < k. \<forall>i'. instr_at mem (pc + 4 * of_nat (Suc j)) = Inr i' \<longrightarrow> \<not> is_branch i')"
    unfolding goes_on_at_def shift by blast
  have "\<not> is_branch i''" if "\<not> is_branch i'" "j < Suc k" "instr_at mem (pc + 4 * of_nat j) = Inr i''" for j i''
    using that k assms(1) by (cases j) auto
  with i' k show ?thesis unfolding goes_on_at_def by blast
qed

lemma decode_chain_diverges:
  assumes "decode_chain os n mem hlt pc brd ind d = Inl Diverges" "k < n"
  shows "goes_on_at mem hlt brd pc k"
  using assms
proof (induction n arbitrary: pc brd ind d k)
  case (Suc n)
  from Suc.prems(1) decode_one_diverges [of os mem pc d] obtain i d1
    where one: "decode_one os mem pc d = Inr (i, d1)"
    by (cases "decode_one os mem pc d") (auto simp: decode_chain_one)
  note i = decode_one_instr [OF one]
  have on: "is_branch i \<or> \<not> brd \<and> \<not> hlt"
    and rest: "\<exists>ind'. decode_chain os n mem hlt (pc + 4) (brd \<or> is_branch i) ind' d1 = Inl Diverges"
    using Suc.prems(1) by (auto simp: decode_chain_one one is_indirect_branch split: if_splits)
  show ?case
  proof (cases k)
    case 0
    with i on show ?thesis by (auto simp: goes_on_at_def)
  next
    case (Suc j)
    with rest Suc.IH Suc.prems(2) have "goes_on_at mem hlt (brd \<or> is_branch i) (pc + 4) j" by blast
    with i show ?thesis unfolding Suc by (rule goes_on_at_Suc)
  qed
qed simp

lemma decode_block_diverges:
  assumes "decode_block os s = Inl Diverges" "k < DECODE_FUEL"
  shows "goes_on_at (gmem s) (halted (cpu s)) False (get_reg MIPS_R_PC s) k"
proof -
  have "decode_chain os DECODE_FUEL (gmem s) (halted (cpu s)) (get_reg MIPS_R_PC s) False False
      \<lparr>da_ops = [], da_size = 0, da_capacity = 32\<rparr> = Inl Diverges"
    using assms(1) DARRAY_PUSH_not_diverges [of os]
    by (auto simp: decode_block_def Let_def bindR_eq_Inl_iff split: if_splits prod.splits)
  from decode_chain_diverges [OF this assms(2)] show ?thesis .
qed

lemma word_cycle: "pc + 4 * of_nat k = pc + 4 * of_nat (k mod 2 ^ 30)" for pc :: u32
proof -
  have zero: "(4 :: u32) * of_nat (2 ^ 30) = 0" by simp
  have split: "(of_nat k :: u32) = of_nat (k mod 2 ^ 30) + of_nat (2 ^ 30) * of_nat (k div 2 ^ 30)"
    unfolding of_nat_mult [symmetric] of_nat_add [symmetric] by simp
  have "(4 :: u32) * of_nat k = 4 * of_nat (k mod 2 ^ 30) + (4 * of_nat (2 ^ 30)) * of_nat (k div 2 ^ 30)"
    by (subst split) (simp only: distrib_left mult.assoc)
  then show ?thesis by (simp only: zero mult_zero_left add_0_right)
qed

lemma goes_on_cycle:
  assumes all: "\<And>k. k < 2 ^ 30 + 1 \<Longrightarrow> goes_on_at mem hlt False pc k"
  shows "(\<forall>k. \<exists>i. instr_at mem (pc + 4 * of_nat k) = Inr i \<and> is_branch i) \<or>
    \<not> hlt \<and> (\<forall>k. \<exists>i. instr_at mem (pc + 4 * of_nat k) = Inr i \<and> \<not> is_branch i)"
proof -
  obtain i0 where i0: "instr_at mem pc = Inr i0" and b0: "is_branch i0 \<or> \<not> hlt"
    using all [of 0] by (auto simp: goes_on_at_def)
  have small: "k mod 2 ^ 30 < 2 ^ 30 + 1" for k :: nat
    by (rule less_trans [OF mod_less_divisor]) simp_all
  show ?thesis
  proof (cases "is_branch i0")
    case True
    have "\<exists>i. instr_at mem (pc + 4 * of_nat k) = Inr i \<and> is_branch i" if "k < 2 ^ 30 + 1" for k
      using all [OF that] i0 True unfolding goes_on_at_def by (cases k) (auto dest: spec [of _ "0 :: nat"])
    from this [OF small] show ?thesis by (subst (1 2) word_cycle) blast
  next
    case False
    have cyc: "pc + 4 * of_nat (2 ^ 30) = pc"
      by (subst word_cycle) simp
    have "goes_on_at mem hlt False pc (2 ^ 30)" by (rule all) simp
    from this [unfolded goes_on_at_def cyc] i0 False have none: "\<not> hlt"
      "\<forall>j < 2 ^ 30. \<forall>i'. instr_at mem (pc + 4 * of_nat j) = Inr i' \<longrightarrow> \<not> is_branch i'"
      by auto
    have "\<exists>i. instr_at mem (pc + 4 * of_nat k) = Inr i \<and> \<not> is_branch i" if "k < 2 ^ 30" for k
    proof -
      from all [of k] that obtain i where "instr_at mem (pc + 4 * of_nat k) = Inr i"
        by (auto simp: goes_on_at_def)
      with none(2) that show ?thesis by blast
    qed
    from this [OF mod_less_divisor] none(1) show ?thesis by (subst (1 2) word_cycle) auto
  qed
qed

section \<open>A memory full of no-operations\<close>

definition nop_memory :: memory where
  "nop_memory = empty_memory\<lparr>page_tables := (\<lambda>_. Some (\<lambda>_. Some (\<lambda>_. 0)))\<rparr>"

definition nop_machine :: "unit machine" where
  "nop_machine = \<lparr>cpu = zero_mips, gmem = nop_memory, hstate = ()\<rparr>"

lemma nop_read: "unat pc mod 4 = 0 \<Longrightarrow> memory_read_u32 nop_memory pc = Inr 0"
  by (simp add: memory_read_u32_def load_bytes_eq aligned_in_page mapped_def byte_at_def page_at_def
      nop_memory_def word_le_def upt_rec)

lemma nop_push:
  assumes "darray_ok d" "length (da_ops d) < 2 ^ 31"
  shows "\<exists>d'. DARRAY_PUSH demo_os cir f d = Inr d' \<and> darray_ok d' \<and>
    length (da_ops d') = Suc (length (da_ops d))"
proof -
  have "DARRAY_PUSH demo_os cir f d \<noteq> Inl SegFault"
    by (auto simp: DARRAY_PUSH_def Let_def bindR_eq_Inl_iff split: if_splits)
  with DARRAY_PUSH_ok [OF assms, of demo_os cir f] show ?thesis by auto
qed

lemma nop_chain:
  assumes "darray_ok d" "length (da_ops d) + n < 2 ^ 31" "unat pc mod 4 = 0"
  shows "decode_chain demo_os n nop_memory False pc False ind d = Inl Diverges"
  using assms
proof (induction n arbitrary: pc d)
  case 0
  then show ?case by (simp add: decode_chain.simps [of demo_os 0])
next
  case (Suc n)
  from nop_push [OF Suc.prems(1), of 0 "Some I_sll"] Suc.prems(2) obtain d'
    where d': "DARRAY_PUSH demo_os 0 (Some I_sll) d = Inr d'" "darray_ok d'"
      "length (da_ops d') = Suc (length (da_ops d))" by auto
  have "unat (pc + 4) mod 4 = 0" using Suc.prems(3) by (simp add: unat_word_ariths mod_mod_cancel)
  with Suc.IH [OF d'(2)] d'(3) Suc.prems(2)
  have "decode_chain demo_os n nop_memory False (pc + 4) False ind d' = Inl Diverges" by simp
  then show ?case
    by (simp add: decode_chain_one decode_one_def nop_read [OF Suc.prems(3)] exit_dispatch exit_kinds d'(1))
qed

section \<open>Property\<close>

text \<open>C24: when decoding runs out of fuel, the dispatch chain of the code never completes: the
  words from the program counter on, all around the address space, are all branches, or are
  all instructions that are not while the process runs.\<close>

theorem decode_fuel_enough:
  assumes "decode_block os s = Inl Diverges"
  shows "(\<forall>k. \<exists>i. instr_at (gmem s) (get_reg MIPS_R_PC s + 4 * of_nat k) = Inr i \<and> is_branch i) \<or>
    \<not> halted (cpu s) \<and>
    (\<forall>k. \<exists>i. instr_at (gmem s) (get_reg MIPS_R_PC s + 4 * of_nat k) = Inr i \<and> \<not> is_branch i)"
  by (rule goes_on_cycle, rule decode_block_diverges [OF assms]) (simp add: DECODE_FUEL_def)

lemma decode_fuel_enough_witness:
  "decode_block demo_os nop_machine = Inl Diverges \<and>
   (\<exists>i. instr_at nop_memory 0x7ffffffc = Inr i \<and> \<not> is_branch i)"
proof -
  have "decode_block demo_os nop_machine = Inl Diverges"
    using nop_chain [OF darray_start, of DECODE_FUEL 0 False]
    by (simp add: decode_block_def nop_machine_def get_reg_def zero_mips_def Let_def DECODE_FUEL_def)
  moreover from decode_fuel_enough [OF this] have
    "\<exists>i. instr_at nop_memory (0 + 4 * of_nat 0x1fffffff) = Inr i \<and> \<not> is_branch i"
  proof
    assume "\<forall>k. \<exists>i. instr_at (gmem nop_machine) (get_reg MIPS_R_PC nop_machine + 4 * of_nat k) = Inr i \<and> is_branch i"
    from spec [OF this, of 0] have False
      by (auto simp: instr_at_def nop_machine_def nop_read get_reg_def zero_mips_def exit_dispatch exit_kinds)
    then show ?thesis ..
  next
    assume "\<not> halted (cpu nop_machine) \<and>
      (\<forall>k. \<exists>i. instr_at (gmem nop_machine) (get_reg MIPS_R_PC nop_machine + 4 * of_nat k) = Inr i \<and> \<not> is_branch i)"
    from spec [OF conjunct2 [OF this], of "0x1fffffff"] show ?thesis
      by (simp add: nop_machine_def get_reg_def zero_mips_def)
  qed
  ultimately show ?thesis by simp
qed

end
