(* ===== verification/Hash_Table.thy ===== *)
theory Hash_Table
  imports Machine
begin

text \<open>
  The hash table of \<open>src/uthash.h\<close>, as far as the block-caching interpreter uses it:
  \<open>HASH_FIND\<close>, \<open>HASH_ADD\<close>, \<open>HASH_ITER\<close> and \<open>HASH_DEL\<close> with the default hash function, without
  Bloom filter, a failed allocation fatal (\<open>OutOfMemory\<close>). An element is a pointer of type \<open>'a\<close>;
  \<open>'a hash_handle\<close> is its \<open>UT_hash_handle\<close>. A chain is the list of its handles from \<open>hh_head\<close> on by
  \<open>hh_next\<close>; \<open>app_order\<close> is the list of all handles from the head element on by \<open>next\<close>, its last
  the \<open>tail\<close>; the back links are those of the lists. The head is \<open>None\<close> when it is \<open>NULL\<close>.
\<close>

section \<open>State\<close>

record 'a hash_handle =
  hh_elt :: 'a
  hh_key :: "u8 list"
  hh_keylen :: u32
  hh_hashv :: u32

record 'a hash_bucket =
  hh_chain :: "'a hash_handle list"
  hb_count :: u32
  expand_mult :: u32

record 'a hash_table =
  hash_buckets :: "'a hash_bucket list"
  num_buckets :: u32
  log2_num_buckets :: u32
  num_items :: u32
  app_order :: "'a hash_handle list"
  ideal_chain_maxlen :: u32
  nonideal_items :: u32
  ineff_expands :: u32
  noexpand :: bool

type_synonym 'a hash = "'a hash_table option"

definition HASH_INITIAL_NUM_BUCKETS :: u32 where "HASH_INITIAL_NUM_BUCKETS = 32"
definition HASH_INITIAL_NUM_BUCKETS_LOG2 :: u32 where "HASH_INITIAL_NUM_BUCKETS_LOG2 = 5"
definition HASH_BKT_CAPACITY_THRESH :: u32 where "HASH_BKT_CAPACITY_THRESH = 10"

text \<open>A bucket after \<open>bzero\<close>.\<close>

definition empty_bucket :: "'a hash_bucket" where
  "empty_bucket = \<lparr>hh_chain = [], hb_count = 0, expand_mult = 0\<rparr>"

section \<open>The hash function of Bob Jenkins\<close>

definition HASH_JEN_MIX :: "u32 \<times> u32 \<times> u32 \<Rightarrow> u32 \<times> u32 \<times> u32" where
  "HASH_JEN_MIX = (\<lambda>(a, b, c).
     let a = a - b; a = a - c; a = a XOR drop_bit 13 c;
         b = b - c; b = b - a; b = b XOR push_bit 8 a;
         c = c - a; c = c - b; c = c XOR drop_bit 13 b;
         a = a - b; a = a - c; a = a XOR drop_bit 12 c;
         b = b - c; b = b - a; b = b XOR push_bit 16 a;
         c = c - a; c = c - b; c = c XOR drop_bit 5 b;
         a = a - b; a = a - c; a = a XOR drop_bit 3 c;
         b = b - c; b = b - a; b = b XOR push_bit 10 a;
         c = c - a; c = c - b; c = c XOR drop_bit 15 b
     in (a, b, c))"

definition key_byte :: "u8 list \<Rightarrow> nat \<Rightarrow> nat \<Rightarrow> u32" where
  "key_byte key i n = push_bit n (ucast (key ! i))"

definition key_word :: "u8 list \<Rightarrow> nat \<Rightarrow> u32" where
  "key_word key i =
     key_byte key i 0 + key_byte key (i + 1) 8 + key_byte key (i + 2) 16 + key_byte key (i + 3) 24"

function jen_loop :: "u8 list \<Rightarrow> u32 \<times> u32 \<times> u32 \<Rightarrow> u8 list \<times> u32 \<times> u32 \<times> u32" where
  "jen_loop key (i, j, h) =
     (if 12 \<le> length key then
        jen_loop (drop 12 key)
          (HASH_JEN_MIX (i + key_word key 0, j + key_word key 4, h + key_word key 8))
      else (key, i, j, h))"
  by pat_completeness auto
termination by (relation "measure (\<lambda>(key, _). length key)") auto

declare jen_loop.simps [simp del]

text \<open>The \<open>switch\<close> whose cases fall through: every byte that the key still has is added.\<close>

definition jen_tail :: "u8 list \<Rightarrow> u32 \<times> u32 \<times> u32 \<Rightarrow> u32 \<times> u32 \<times> u32" where
  "jen_tail key = (\<lambda>(i, j, h).
     let at = (\<lambda>k n. if k < length key then key_byte key k n else 0);
         h = h + at 10 24; h = h + at 9 16; h = h + at 8 8;
         j = j + at 7 24; j = j + at 6 16; j = j + at 5 8; j = j + at 4 0;
         i = i + at 3 24; i = i + at 2 16; i = i + at 1 8; i = i + at 0 0
     in (i, j, h))"

definition HASH_JEN :: "u8 list \<Rightarrow> u32" where
  "HASH_JEN key =
     (let (rest, i, j, h) = jen_loop key (0x9e3779b9, 0x9e3779b9, 0xfeedbeef);
          h = h + of_nat (length key);
          (i, j, h) = HASH_JEN_MIX (jen_tail rest (i, j, h))
      in h)"

section \<open>Find\<close>

definition HASH_TO_BKT :: "u32 \<Rightarrow> u32 \<Rightarrow> u32" where
  "HASH_TO_BKT hashv num_bkts = hashv AND (num_bkts - 1)"

definition bucket_at :: "'a hash_bucket list \<Rightarrow> u32 \<Rightarrow> 'a hash_bucket result" where
  "bucket_at bs i = (if unat i < length bs then Inr (bs ! unat i) else Inl HostOverrun)"

definition HASH_FIND_IN_BKT :: "'a hash_bucket \<Rightarrow> u8 list \<Rightarrow> u32 \<Rightarrow> 'a option" where
  "HASH_FIND_IN_BKT b key hashv =
     map_option hh_elt (find (\<lambda>x. hh_hashv x = hashv \<and> hh_keylen x = of_nat (length key) \<and>
       hh_key x = key) (hh_chain b))"

definition HASH_FIND :: "'a hash \<Rightarrow> u8 list \<Rightarrow> 'a option result" where
  "HASH_FIND h key =
     (case h of
        None \<Rightarrow> Inr None
      | Some t \<Rightarrow>
          let hashv = HASH_JEN key
          in bindR (bucket_at (hash_buckets t) (HASH_TO_BKT hashv (num_buckets t))) (\<lambda>b.
               Inr (HASH_FIND_IN_BKT b key hashv)))"

section \<open>Add\<close>

text \<open>Moving one handle into the new buckets; the state is those and \<open>nonideal_items\<close>.\<close>

definition expand_move :: "u32 \<Rightarrow> u32 \<Rightarrow> 'a hash_handle \<Rightarrow> 'a hash_bucket list \<times> u32 \<Rightarrow>
    ('a hash_bucket list \<times> u32) result" where
  "expand_move num ideal x = (\<lambda>(bs, nonideal).
     let k = HASH_TO_BKT (hh_hashv x) num
     in bindR (bucket_at bs k) (\<lambda>b.
        let count = hb_count b + 1;
            (nonideal, mult) =
              (if count > ideal
               then (nonideal + 1, if count > expand_mult b * ideal then expand_mult b + 1 else expand_mult b)
               else (nonideal, expand_mult b))
        in Inr (bs[unat k := \<lparr>hh_chain = x # hh_chain b, hb_count = count, expand_mult = mult\<rparr>],
                nonideal)))"

fun expand_moves :: "u32 \<Rightarrow> u32 \<Rightarrow> 'a hash_handle list \<Rightarrow> 'a hash_bucket list \<times> u32 \<Rightarrow>
    ('a hash_bucket list \<times> u32) result" where
  "expand_moves num ideal [] s = Inr s"
| "expand_moves num ideal (x # xs) s = bindR (expand_move num ideal x s) (expand_moves num ideal xs)"

text \<open>The loop visits the old buckets in order, and each from its head. Doubling \<open>2 ^ 31\<close> buckets
  comes to a shift of \<open>num_items\<close> by 32, which is undefined, once their 64 GiB are allocated.\<close>

definition HASH_EXPAND_BUCKETS :: "'h os \<Rightarrow> 'a hash_table \<Rightarrow> 'a hash_table result" where
  "HASH_EXPAND_BUCKETS os t =
     (let num = num_buckets t * 2
      in if \<not> os_malloc os (16 * unat (num_buckets t) * 2) then Inl OutOfMemory
         else if 32 \<le> unat (log2_num_buckets t + 1) then Inl UndefinedShift
         else
           let ideal = drop_bit (unat (log2_num_buckets t + 1)) (num_items t) +
                 (if num_items t AND (num - 1) \<noteq> 0 then 1 else 0)
           in bindR (expand_moves num ideal (concat (map hh_chain (hash_buckets t)))
                (replicate (unat (num_buckets t) * 2) empty_bucket, 0)) (\<lambda>(bs, nonideal).
              let ineff = (if nonideal > drop_bit 1 (num_items t) then ineff_expands t + 1 else 0)
              in Inr (t\<lparr>hash_buckets := bs, num_buckets := num,
                   log2_num_buckets := log2_num_buckets t + 1, ideal_chain_maxlen := ideal,
                   nonideal_items := nonideal, ineff_expands := ineff,
                   noexpand := noexpand t \<or> ineff > 1\<rparr>)))"

definition HASH_ADD_TO_BKT :: "'h os \<Rightarrow> u32 \<Rightarrow> 'a hash_handle \<Rightarrow> 'a hash_table \<Rightarrow> 'a hash_table result" where
  "HASH_ADD_TO_BKT os k x t =
     bindR (bucket_at (hash_buckets t) k) (\<lambda>b.
     let count = hb_count b + 1;
         t = t\<lparr>hash_buckets := (hash_buckets t)[unat k := b\<lparr>hh_chain := x # hh_chain b, hb_count := count\<rparr>]\<rparr>
     in if count \<ge> (expand_mult b + 1) * HASH_BKT_CAPACITY_THRESH \<and> \<not> noexpand t
        then HASH_EXPAND_BUCKETS os t else Inr t)"

definition HASH_MAKE_TABLE :: "'h os \<Rightarrow> 'a hash_handle \<Rightarrow> 'a hash_table result" where
  "HASH_MAKE_TABLE os x =
     (if os_malloc os 64 \<and> os_malloc os (unat HASH_INITIAL_NUM_BUCKETS * 16) then
        Inr \<lparr>hash_buckets = replicate (unat HASH_INITIAL_NUM_BUCKETS) empty_bucket,
          num_buckets = HASH_INITIAL_NUM_BUCKETS, log2_num_buckets = HASH_INITIAL_NUM_BUCKETS_LOG2,
          num_items = 0, app_order = [x], ideal_chain_maxlen = 0, nonideal_items = 0,
          ineff_expands = 0, noexpand = False\<rparr>
      else Inl OutOfMemory)"

definition HASH_APPEND_LIST :: "'a hash_handle \<Rightarrow> 'a hash_table \<Rightarrow> 'a hash_table" where
  "HASH_APPEND_LIST x t = t\<lparr>app_order := app_order t @ [x]\<rparr>"

definition HASH_ADD :: "'h os \<Rightarrow> 'a hash \<Rightarrow> u8 list \<Rightarrow> 'a \<Rightarrow> 'a hash result" where
  "HASH_ADD os h key p =
     (let hashv = HASH_JEN key;
          x = \<lparr>hh_elt = p, hh_key = key, hh_keylen = of_nat (length key), hh_hashv = hashv\<rparr>
      in bindR (case h of
                  None \<Rightarrow> HASH_MAKE_TABLE os x
                | Some t \<Rightarrow> Inr (HASH_APPEND_LIST x t)) (\<lambda>t.
         let t = t\<lparr>num_items := num_items t + 1\<rparr>
         in bindR (HASH_ADD_TO_BKT os (HASH_TO_BKT hashv (num_buckets t)) x t) (\<lambda>t. Inr (Some t))))"

section \<open>Delete and iterate\<close>

definition HASH_DEL_IN_BKT :: "'a hash_handle \<Rightarrow> 'a hash_bucket \<Rightarrow> 'a hash_bucket" where
  "HASH_DEL_IN_BKT x b =
     b\<lparr>hb_count := hb_count b - 1, hh_chain := filter (\<lambda>y. hh_elt y \<noteq> hh_elt x) (hh_chain b)\<rparr>"

text \<open>Deleting the only element, the one without \<open>prev\<close> and \<open>next\<close>, frees the table.\<close>

definition HASH_DELETE :: "'a hash \<Rightarrow> 'a hash_handle \<Rightarrow> 'a hash result" where
  "HASH_DELETE h x =
     (case h of
        None \<Rightarrow> Inl SegFault
      | Some t \<Rightarrow>
          if map hh_elt (app_order t) = [hh_elt x] then Inr None
          else
            let k = HASH_TO_BKT (hh_hashv x) (num_buckets t)
            in bindR (bucket_at (hash_buckets t) k) (\<lambda>b.
               Inr (Some (t\<lparr>app_order := filter (\<lambda>y. hh_elt y \<noteq> hh_elt x) (app_order t),
                 hash_buckets := (hash_buckets t)[unat k := HASH_DEL_IN_BKT x b],
                 num_items := num_items t - 1\<rparr>))))"

text \<open>The release loop of the interpreter: \<open>HASH_ITER\<close> holds the next element before the body
  deletes the present one, so it follows the order of the list at the start. The result is the
  sequence of the elements passed to \<open>free\<close>, and the table that is left.\<close>

fun iter_delete :: "'a hash_handle list \<Rightarrow> 'a hash \<Rightarrow> ('a list \<times> 'a hash) result" where
  "iter_delete [] h = Inr ([], h)"
| "iter_delete (x # xs) h =
     bindR (HASH_DELETE h x) (\<lambda>h.
     bindR (iter_delete xs h) (\<lambda>(ps, h). Inr (hh_elt x # ps, h)))"

definition release :: "'a hash \<Rightarrow> ('a list \<times> 'a hash) result" where
  "release h = iter_delete (case h of None \<Rightarrow> [] | Some t \<Rightarrow> app_order t) h"

end
