(* ===== verification/Hash_Table_Ok.thy ===== *)
theory Hash_Table_Ok
  imports Hash_Table "HOL-Library.Multiset"
begin

text \<open>
  The invariant of the hash table and its operations as those of a partial map: every handle is
  in the bucket of its hash value, the buckets together hold the handles of the list of
  insertion, and no key occurs twice.
\<close>

section \<open>Buckets\<close>

definition handle_ok :: "'a hash_handle \<Rightarrow> bool" where
  "handle_ok x \<longleftrightarrow> hh_keylen x = of_nat (length (hh_key x)) \<and> hh_hashv x = HASH_JEN (hh_key x)"

definition bucket_ok :: "u32 \<Rightarrow> nat \<Rightarrow> 'a hash_bucket \<Rightarrow> bool" where
  "bucket_ok num i b \<longleftrightarrow> hb_count b = of_nat (length (hh_chain b)) \<and>
     (\<forall>x \<in> set (hh_chain b). handle_ok x \<and> unat (HASH_TO_BKT (hh_hashv x) num) = i)"

definition buckets_ok :: "u32 \<Rightarrow> 'a hash_bucket list \<Rightarrow> bool" where
  "buckets_ok num bs \<longleftrightarrow> num \<noteq> 0 \<and> length bs = unat num \<and> (\<forall>i < length bs. bucket_ok num i (bs ! i))"

definition handles :: "'a hash_bucket list \<Rightarrow> 'a hash_handle list" where
  "handles bs = concat (map hh_chain bs)"

lemma bucket_index_less:
  assumes "num \<noteq> 0"
  shows "unat (HASH_TO_BKT v num) < unat num"
proof -
  have "HASH_TO_BKT v num \<le> num - 1" unfolding HASH_TO_BKT_def by (rule word_and_le1)
  then have "unat (HASH_TO_BKT v num) \<le> unat num - 1"
    using assms by (simp add: word_le_nat_alt unat_minus_one)
  moreover have "0 < unat num" using assms by (simp add: unat_gt_0)
  ultimately show ?thesis by linarith
qed

lemma bucket_at_ok:
  "buckets_ok num bs \<Longrightarrow> bucket_at bs (HASH_TO_BKT v num) = Inr (bs ! unat (HASH_TO_BKT v num)) \<and>
     unat (HASH_TO_BKT v num) < length bs"
  by (simp add: buckets_ok_def bucket_at_def bucket_index_less)

lemma mset_handles_update:
  assumes "i < length bs"
  shows "mset (handles (bs[i := b])) + mset (hh_chain (bs ! i)) = mset (handles bs) + mset (hh_chain b)"
proof -
  have "handles bs = handles (take i bs @ bs ! i # drop (Suc i) bs)"
    by (simp add: id_take_nth_drop [OF assms, symmetric])
  then show ?thesis using assms by (simp add: handles_def upd_conv_take_nth_drop)
qed

lemma buckets_ok_update:
  "buckets_ok num bs \<Longrightarrow> bucket_ok num i b \<Longrightarrow> buckets_ok num (bs[i := b])"
  by (cases "i < length bs") (auto simp: buckets_ok_def nth_list_update)

lemma bucket_ok_Cons:
  assumes "bucket_ok num (unat (HASH_TO_BKT (hh_hashv x) num)) b" "handle_ok x"
  shows "bucket_ok num (unat (HASH_TO_BKT (hh_hashv x) num))
    \<lparr>hh_chain = x # hh_chain b, hb_count = hb_count b + 1, expand_mult = m\<rparr>"
  using assms by (simp add: bucket_ok_def add.commute)

text \<open>Putting a handle at the head of its bucket.\<close>

lemma buckets_ok_insert:
  assumes "buckets_ok num bs" "handle_ok x"
  defines "k \<equiv> unat (HASH_TO_BKT (hh_hashv x) num)"
  shows "buckets_ok num (bs[k := \<lparr>hh_chain = x # hh_chain (bs ! k), hb_count = hb_count (bs ! k) + 1, expand_mult = m\<rparr>])"
    and "mset (handles (bs[k := \<lparr>hh_chain = x # hh_chain (bs ! k), hb_count = hb_count (bs ! k) + 1, expand_mult = m\<rparr>])) =
      add_mset x (mset (handles bs))"
proof -
  have k: "k < length bs" using bucket_at_ok [OF assms(1)] by (simp add: k_def)
  then have "bucket_ok num k (bs ! k)" using assms(1) by (simp add: buckets_ok_def)
  from bucket_ok_Cons [OF this [unfolded k_def] assms(2)]
  show "buckets_ok num (bs[k := \<lparr>hh_chain = x # hh_chain (bs ! k), hb_count = hb_count (bs ! k) + 1, expand_mult = m\<rparr>])"
    unfolding k_def by (rule buckets_ok_update [OF assms(1)])
  show "mset (handles (bs[k := \<lparr>hh_chain = x # hh_chain (bs ! k), hb_count = hb_count (bs ! k) + 1, expand_mult = m\<rparr>])) =
      add_mset x (mset (handles bs))"
    using mset_handles_update [OF k, of "\<lparr>hh_chain = x # hh_chain (bs ! k), hb_count = hb_count (bs ! k) + 1, expand_mult = m\<rparr>"]
    by simp
qed

lemma handles_ok:
  assumes "buckets_ok num bs" "x \<in> set (handles bs)"
  shows "handle_ok x" and "x \<in> set (hh_chain (bs ! unat (HASH_TO_BKT (hh_hashv x) num)))"
proof -
  from assms(2) obtain i where i: "i < length bs" "x \<in> set (hh_chain (bs ! i))"
    unfolding handles_def by (auto simp: in_set_conv_nth [of _ bs])
  with assms(1) show "handle_ok x" "x \<in> set (hh_chain (bs ! unat (HASH_TO_BKT (hh_hashv x) num)))"
    by (auto simp: buckets_ok_def bucket_ok_def)
qed

lemma buckets_ok_empty: "num \<noteq> 0 \<Longrightarrow> buckets_ok num (replicate (unat num) empty_bucket)"
  by (simp add: buckets_ok_def bucket_ok_def empty_bucket_def)

lemma handles_empty [simp]: "handles (replicate n empty_bucket) = []"
  by (induction n) (simp_all add: handles_def empty_bucket_def)

lemma expand_moves_ok:
  assumes "buckets_ok num bs" "\<forall>x \<in> set xs. handle_ok x"
  shows "\<exists>bs' n'. expand_moves num ideal xs (bs, n) = Inr (bs', n') \<and> buckets_ok num bs' \<and>
    mset (handles bs') = mset xs + mset (handles bs)"
  using assms
proof (induction xs arbitrary: bs n)
  case (Cons x xs)
  from Cons.prems(2) have x: "handle_ok x" by simp
  let ?b = "bs ! unat (HASH_TO_BKT (hh_hashv x) num)"
  obtain n1 m where "(if hb_count ?b + 1 > ideal
      then (n + 1, if hb_count ?b + 1 > expand_mult ?b * ideal then expand_mult ?b + 1 else expand_mult ?b)
      else (n, expand_mult ?b)) = (n1, m)" by (metis surj_pair)
  with bucket_at_ok [OF Cons.prems(1), of "hh_hashv x"] have one: "expand_move num ideal x (bs, n) =
      Inr (bs[unat (HASH_TO_BKT (hh_hashv x) num) := \<lparr>hh_chain = x # hh_chain (bs ! unat (HASH_TO_BKT (hh_hashv x) num)),
        hb_count = hb_count (bs ! unat (HASH_TO_BKT (hh_hashv x) num)) + 1, expand_mult = m\<rparr>], n1)"
    by (simp add: expand_move_def Let_def)
  note ins = buckets_ok_insert [OF Cons.prems(1) x, of m]
  from Cons.IH [OF ins(1), of n1] Cons.prems(2) show ?case by (auto simp: one ins(2))
qed simp

section \<open>Tables\<close>

text \<open>The buckets of a table hold the handles \<open>M\<close>.\<close>

definition stores :: "'a hash_table \<Rightarrow> 'a hash_handle multiset \<Rightarrow> bool" where
  "stores t M \<longleftrightarrow> buckets_ok (num_buckets t) (hash_buckets t) \<and> mset (handles (hash_buckets t)) = M \<and>
     (\<exists>l \<le> 31. unat (log2_num_buckets t) = l \<and> unat (num_buckets t) = 2 ^ l)"

definition table_ok :: "'a hash_table \<Rightarrow> bool" where
  "table_ok t \<longleftrightarrow> stores t (mset (app_order t)) \<and> app_order t \<noteq> [] \<and>
     distinct (map hh_key (app_order t)) \<and> distinct (map hh_elt (app_order t)) \<and>
     num_items t = of_nat (length (app_order t))"

definition hash_ok :: "'a hash \<Rightarrow> bool" where
  "hash_ok h \<longleftrightarrow> (case h of None \<Rightarrow> True | Some t \<Rightarrow> table_ok t)"

definition hash_order :: "'a hash \<Rightarrow> 'a hash_handle list" where
  "hash_order h = (case h of None \<Rightarrow> [] | Some t \<Rightarrow> app_order t)"

text \<open>The partial map a table stands for, and its elements in the order of insertion.\<close>

definition hash_map :: "'a hash \<Rightarrow> u8 list \<rightharpoonup> 'a" where
  "hash_map h = map_of (map (\<lambda>x. (hh_key x, hh_elt x)) (hash_order h))"

definition hash_elements :: "'a hash \<Rightarrow> 'a list" where
  "hash_elements h = map hh_elt (hash_order h)"

lemma hash_map_None [simp]: "hash_map None = Map.empty" "hash_elements None = []"
  by (simp_all add: hash_map_def hash_elements_def hash_order_def)

lemma hash_ok_None [simp]: "hash_ok None"
  by (simp add: hash_ok_def)

lemma stores_nonzero: "stores t M \<Longrightarrow> num_buckets t \<noteq> 0"
  by (simp add: stores_def buckets_ok_def)

text \<open>The ways an insertion fails: an allocation does, or the table has \<open>2 ^ 31\<close> buckets already and
  the host grants the 64 GiB for twice as many.\<close>

definition no_room :: "'h os \<Rightarrow> 'r result \<Rightarrow> bool" where
  "no_room os r \<longleftrightarrow> r = Inl OutOfMemory \<or> r = Inl UndefinedShift \<and> os_malloc os (2 ^ 36)"

lemma no_room_simps [simp]:
  "no_room os (Inl OutOfMemory)" "\<not> no_room os (Inr a)"
  by (simp_all add: no_room_def)

lemma no_room_bind [simp]: "no_room os r \<Longrightarrow> no_room os (bindR r f)"
  by (auto simp: no_room_def)

lemma no_roomE:
  assumes "no_room os r"
  obtains e where "r = Inl e" "no_room os (Inl e :: 'b result)"
  using assms by (auto simp: no_room_def)

lemma expand_ok:
  assumes "stores t M"
  shows "no_room os (HASH_EXPAND_BUCKETS os t) \<or>
    (\<exists>t'. HASH_EXPAND_BUCKETS os t = Inr t' \<and> stores t' M \<and> app_order t' = app_order t \<and>
       num_items t' = num_items t)"
proof (cases "os_malloc os (16 * unat (num_buckets t) * 2)")
  case True
  let ?num = "num_buckets t * 2"
  from assms obtain l where l: "l \<le> 31" "unat (log2_num_buckets t) = l" "unat (num_buckets t) = 2 ^ l"
    and ok: "buckets_ok (num_buckets t) (hash_buckets t)"
    and M: "mset (handles (hash_buckets t)) = M"
    by (auto simp: stores_def)
  show ?thesis
  proof (cases "l = 31")
    case full: True
    have "unat (log2_num_buckets t + 1) = 32" using l(2) full by (simp add: unat_word_ariths)
    then show ?thesis using True l(3) full by (simp add: HASH_EXPAND_BUCKETS_def no_room_def Let_def)
  next
    case False
    with l(1) have l30: "l \<le> 30" by simp
    then have "(2 :: nat) ^ l \<le> 2 ^ 30" by (rule power_increasing) simp
    then have num: "unat ?num = unat (num_buckets t) * 2"
      by (simp add: unat_word_ariths l(3))
    have nz: "?num \<noteq> 0"
    proof
      assume "?num = 0"
      with num l(3) show False by simp
    qed
    have hs: "\<forall>x \<in> set (handles (hash_buckets t)). handle_ok x" using handles_ok(1) [OF ok] by blast
    let ?ideal = "drop_bit (unat (log2_num_buckets t + 1)) (num_items t) +
        (if num_items t AND (?num - 1) \<noteq> 0 then 1 else 0)"
    obtain bs n where mv: "expand_moves ?num ?ideal (handles (hash_buckets t))
        (replicate (unat ?num) empty_bucket, 0) = Inr (bs, n)"
      "buckets_ok ?num bs" "mset (handles bs) = mset (handles (hash_buckets t))"
      using expand_moves_ok [OF buckets_ok_empty [OF nz] hs, of ?ideal 0] by auto
    have log: "unat (log2_num_buckets t + 1) = Suc l"
      using l(1,2) by (simp add: unat_word_ariths)
    obtain t' where t': "HASH_EXPAND_BUCKETS os t = Inr t'" "hash_buckets t' = bs"
      "num_buckets t' = ?num" "log2_num_buckets t' = log2_num_buckets t + 1"
      "app_order t' = app_order t" "num_items t' = num_items t"
      using True mv(1) log l30 unfolding num by (simp add: HASH_EXPAND_BUCKETS_def Let_def handles_def)
    have "stores t' M"
      using mv(2,3) M l30 log num l(3) by (simp add: stores_def t')
    with t' show ?thesis by blast
  qed
next
  case False
  then show ?thesis by (auto simp: HASH_EXPAND_BUCKETS_def Let_def)
qed

section \<open>The operations\<close>

lemma map_of_snoc: "map_of xs k = None \<Longrightarrow> map_of (xs @ [(k, v)]) = (map_of xs)(k \<mapsto> v)"
  by (induction xs) (auto simp: fun_upd_twist split: if_splits)

lemma HASH_MAKE_TABLE_ok:
  assumes "HASH_MAKE_TABLE os x = Inr t"
  shows "stores t {#}" "app_order t = [x]" "num_items t = 0"
proof -
  have "buckets_ok 32 (replicate (unat (32 :: u32)) empty_bucket)" by (rule buckets_ok_empty) simp
  then show "stores t {#}" "app_order t = [x]" "num_items t = 0"
    using assms by (auto simp: HASH_MAKE_TABLE_def stores_def HASH_INITIAL_NUM_BUCKETS_def
        HASH_INITIAL_NUM_BUCKETS_LOG2_def split: if_splits intro!: exI [of _ "5 :: nat"])
qed

lemma HASH_ADD_TO_BKT_ok:
  assumes "stores t M" "handle_ok x"
  shows "no_room os (HASH_ADD_TO_BKT os (HASH_TO_BKT (hh_hashv x) (num_buckets t)) x t) \<or>
    (\<exists>t'. HASH_ADD_TO_BKT os (HASH_TO_BKT (hh_hashv x) (num_buckets t)) x t = Inr t' \<and>
       stores t' (add_mset x M) \<and> app_order t' = app_order t \<and> num_items t' = num_items t)"
proof -
  let ?k = "unat (HASH_TO_BKT (hh_hashv x) (num_buckets t))"
  let ?b = "hash_buckets t ! ?k"
  let ?b' = "\<lparr>hh_chain = x # hh_chain ?b, hb_count = hb_count ?b + 1, expand_mult = expand_mult ?b\<rparr>"
  let ?t = "t\<lparr>hash_buckets := (hash_buckets t)[?k := ?b']\<rparr>"
  have ok: "buckets_ok (num_buckets t) (hash_buckets t)" using assms(1) by (simp add: stores_def)
  have upd: "?b\<lparr>hh_chain := x # hh_chain ?b, hb_count := hb_count ?b + 1\<rparr> = ?b'"
    by (cases ?b) simp
  have st: "stores ?t (add_mset x M)"
    using assms(1) buckets_ok_insert [OF ok assms(2), of "expand_mult ?b"] by (simp add: stores_def)
  show ?thesis
    using expand_ok [OF st, of os] bucket_at_ok [OF ok, of "hh_hashv x"] st
    by (auto simp: HASH_ADD_TO_BKT_def Let_def upd)
qed

lemma HASH_ADD_ok:
  assumes "hash_ok h" "hash_map h key = None" "p \<notin> set (hash_elements h)"
  shows "no_room os (HASH_ADD os h key p) \<or>
    (\<exists>h'. HASH_ADD os h key p = Inr h' \<and> hash_ok h' \<and> hash_map h' = (hash_map h)(key \<mapsto> p) \<and>
       hash_elements h' = hash_elements h @ [p])"
proof -
  define x where "x = \<lparr>hh_elt = p, hh_key = key, hh_keylen = of_nat (length key), hh_hashv = HASH_JEN key\<rparr>"
  have x: "handle_ok x" "hh_key x = key" "hh_elt x = p" "hh_hashv x = HASH_JEN key"
    by (simp_all add: x_def handle_ok_def)
  have new: "key \<notin> hh_key ` set (hash_order h)"
    using assms(2) by (simp add: hash_map_def map_of_eq_None_iff image_comp comp_def)
  let ?pre = "case h of None \<Rightarrow> HASH_MAKE_TABLE os x | Some t \<Rightarrow> Inr (HASH_APPEND_LIST x t)"
  have add: "HASH_ADD os h key p = bindR ?pre (\<lambda>t.
      bindR (HASH_ADD_TO_BKT os (HASH_TO_BKT (hh_hashv x) (num_buckets t)) x (t\<lparr>num_items := num_items t + 1\<rparr>))
        (\<lambda>t. Inr (Some t)))"
    unfolding HASH_ADD_def Let_def x_def by simp
  have pre: "?pre = Inl OutOfMemory \<or> (\<exists>t. ?pre = Inr t \<and> stores t (mset (hash_order h)) \<and>
      app_order t = hash_order h @ [x] \<and> num_items t = of_nat (length (hash_order h)))"
  proof (cases h)
    case None
    then show ?thesis
      using HASH_MAKE_TABLE_ok [of os x] by (auto simp: hash_order_def HASH_MAKE_TABLE_def)
  next
    case (Some t)
    with assms(1) have "table_ok t" by (simp add: hash_ok_def)
    with Some show ?thesis
      by (auto simp: HASH_APPEND_LIST_def table_ok_def hash_order_def stores_def)
  qed
  then show ?thesis
  proof (elim disjE exE conjE)
    assume "?pre = Inl OutOfMemory"
    then show ?thesis by (simp only: add) simp
  next
    fix t assume t: "?pre = Inr t" "stores t (mset (hash_order h))" "app_order t = hash_order h @ [x]"
      "num_items t = of_nat (length (hash_order h))"
    let ?t = "t\<lparr>num_items := num_items t + 1\<rparr>"
    have "stores ?t (mset (hash_order h))" using t(2) by (simp add: stores_def)
    from HASH_ADD_TO_BKT_ok [OF this x(1), of os] show ?thesis
    proof (elim disjE exE conjE)
      fix t' assume t': "HASH_ADD_TO_BKT os (HASH_TO_BKT (hh_hashv x) (num_buckets ?t)) x ?t = Inr t'"
        "stores t' (add_mset x (mset (hash_order h)))" "app_order t' = app_order ?t" "num_items t' = num_items ?t"
      have order: "hash_order (Some t') = hash_order h @ [x]" using t(3) t'(3) by (simp add: hash_order_def)
      have "HASH_ADD os h key p = Inr (Some t')"
        using t'(1) unfolding add t(1) by simp
      moreover have "table_ok t'"
      proof -
        have "distinct (map hh_key (hash_order h))" "distinct (map hh_elt (hash_order h))"
          using assms(1) by (auto simp: hash_ok_def table_ok_def hash_order_def split: option.splits)
        then show ?thesis
          using t(3,4) t'(2,3,4) x new assms(3)
          by (simp add: table_ok_def hash_elements_def image_iff add.commute)
      qed
      moreover have "hash_map (Some t') = (hash_map h)(key \<mapsto> p)"
        using map_of_snoc [OF assms(2) [unfolded hash_map_def], of p]
        by (simp add: hash_map_def order x)
      ultimately show ?thesis by (simp add: hash_ok_def hash_elements_def order x(3))
    qed (unfold add t(1), simp)
  qed
qed

lemma hash_ok_order:
  assumes "hash_ok h"
  shows "distinct (map hh_key (hash_order h))" "distinct (map hh_elt (hash_order h))"
  using assms by (auto simp: hash_ok_def table_ok_def hash_order_def split: option.splits)

lemma table_handles:
  assumes "table_ok t"
  shows "set (handles (hash_buckets t)) = set (app_order t)" "buckets_ok (num_buckets t) (hash_buckets t)"
    "distinct (map hh_elt (handles (hash_buckets t)))"
proof -
  have m: "mset (handles (hash_buckets t)) = mset (app_order t)"
    using assms by (simp add: table_ok_def stores_def)
  then show "set (handles (hash_buckets t)) = set (app_order t)" by (rule mset_eq_setD)
  show "buckets_ok (num_buckets t) (hash_buckets t)" using assms by (simp add: table_ok_def stores_def)
  from m have "mset (map hh_elt (handles (hash_buckets t))) = mset (map hh_elt (app_order t))" by simp
  then show "distinct (map hh_elt (handles (hash_buckets t)))"
    using mset_eq_imp_distinct_iff assms by (fastforce simp: table_ok_def)
qed

lemma handles_split:
  assumes "i < length bs"
  obtains A B where "handles bs = A @ hh_chain (bs ! i) @ B"
proof
  have "handles bs = handles (take i bs @ bs ! i # drop (Suc i) bs)"
    by (simp add: id_take_nth_drop [OF assms, symmetric])
  then show "handles bs = handles (take i bs) @ hh_chain (bs ! i) @ handles (drop (Suc i) bs)"
    by (simp add: handles_def)
qed

lemma HASH_FIND_ok:
  assumes "hash_ok h"
  shows "HASH_FIND h key = Inr (hash_map h key)"
proof (cases h)
  case None
  then show ?thesis by (simp add: HASH_FIND_def)
next
  case (Some t)
  with assms have t: "table_ok t" by (simp add: hash_ok_def)
  let ?k = "unat (HASH_TO_BKT (HASH_JEN key) (num_buckets t))"
  let ?P = "\<lambda>x. hh_hashv x = HASH_JEN key \<and> hh_keylen x = of_nat (length key) \<and> hh_key x = key"
  let ?c = "hh_chain (hash_buckets t ! ?k)"
  note b = bucket_at_ok [OF table_handles(2) [OF t], of "HASH_JEN key"]
  then obtain A B where AB: "handles (hash_buckets t) = A @ ?c @ B" using handles_split by blast
  have find: "HASH_FIND h key = Inr (map_option hh_elt (find ?P ?c))"
    using b by (simp add: HASH_FIND_def Some HASH_FIND_IN_BKT_def Let_def)
  show ?thesis
  proof (cases "find ?P ?c")
    case None
    then have "key \<notin> hh_key ` set (app_order t)"
      using handles_ok [OF table_handles(2) [OF t]] table_handles(1) [OF t]
      by (fastforce simp: find_None_iff handle_ok_def)
    then have "hash_map h key = None"
      by (auto simp: hash_map_def hash_order_def Some map_of_eq_None_iff)
    then show ?thesis by (simp add: find None)
  next
    case (Some x)
    then have x: "x \<in> set ?c" "hh_key x = key" by (auto simp: find_Some_iff in_set_conv_nth)
    then have "x \<in> set (app_order t)" using AB table_handles(1) [OF t] by auto
    then have "(key, hh_elt x) \<in> set (map (\<lambda>x. (hh_key x, hh_elt x)) (hash_order h))"
      using x(2) by (auto simp: hash_order_def \<open>h = Some t\<close>)
    moreover have "distinct (map fst (map (\<lambda>x. (hh_key x, hh_elt x)) (hash_order h)))"
      using hash_ok_order(1) [OF assms] by (simp add: comp_def)
    ultimately have "hash_map h key = Some (hh_elt x)"
      unfolding hash_map_def by (rule map_of_is_SomeI [rotated])
    then show ?thesis by (simp add: find Some)
  qed
qed

lemma mset_filter_element:
  "distinct (map f ys) \<Longrightarrow> x \<in> set ys \<Longrightarrow> add_mset x (mset (filter (\<lambda>y. f y \<noteq> f x) ys)) = mset ys"
proof (induction ys)
  case (Cons y ys)
  show ?case
  proof (cases "f y = f x")
    case True
    with Cons.prems have "y = x" by (auto simp: rev_image_eqI)
    moreover have "filter (\<lambda>z. f z \<noteq> f x) ys = ys"
      using Cons.prems(1) True by (intro filter_True) (auto simp: rev_image_eqI)
    ultimately show ?thesis by simp
  next
    case False
    with Cons show ?thesis by (auto simp: add_mset_commute)
  qed
qed simp

lemma HASH_DELETE_ok:
  assumes "table_ok t" "x \<in> set (app_order t)"
  shows "\<exists>h. HASH_DELETE (Some t) x = Inr h \<and> hash_ok h \<and>
    hash_order h = filter (\<lambda>y. hh_elt y \<noteq> hh_elt x) (app_order t)"
proof (cases "map hh_elt (app_order t) = [hh_elt x]")
  case True
  then have "filter (\<lambda>y. hh_elt y \<noteq> hh_elt x) (app_order t) = []" by (auto simp: map_eq_Cons_conv)
  with True show ?thesis by (simp add: HASH_DELETE_def hash_order_def)
next
  case False
  let ?k = "unat (HASH_TO_BKT (hh_hashv x) (num_buckets t))"
  let ?b = "hash_buckets t ! ?k"
  let ?f = "filter (\<lambda>y. hh_elt y \<noteq> hh_elt x)"
  let ?b' = "HASH_DEL_IN_BKT x ?b"
  let ?t = "t\<lparr>app_order := ?f (app_order t), hash_buckets := (hash_buckets t)[?k := ?b'], num_items := num_items t - 1\<rparr>"
  note H = table_handles [OF assms(1)]
  have k: "bucket_at (hash_buckets t) (HASH_TO_BKT (hh_hashv x) (num_buckets t)) = Inr ?b"
    "?k < length (hash_buckets t)" using bucket_at_ok [OF H(2), of "hh_hashv x"] by simp_all
  have order: "add_mset x (mset (?f (app_order t))) = mset (app_order t)"
    using assms by (intro mset_filter_element) (simp_all add: table_ok_def)
  have xc: "x \<in> set (hh_chain ?b)" using handles_ok(2) [OF H(2)] assms(2) H(1) by simp
  obtain A B where "handles (hash_buckets t) = A @ hh_chain ?b @ B" using handles_split [OF k(2)] by blast
  with H(3) have "distinct (map hh_elt (hh_chain ?b))" by simp
  from mset_filter_element [OF this xc]
  have chain: "add_mset x (mset (?f (hh_chain ?b))) = mset (hh_chain ?b)" .
  then have len: "length (hh_chain ?b) = Suc (length (?f (hh_chain ?b)))"
    by (metis size_add_mset size_mset)
  have "bucket_ok (num_buckets t) ?k ?b" using H(2) k(2) by (simp add: buckets_ok_def)
  then have "bucket_ok (num_buckets t) ?k ?b'"
    by (auto simp: bucket_ok_def HASH_DEL_IN_BKT_def len)
  then have bs: "buckets_ok (num_buckets t) ((hash_buckets t)[?k := ?b'])"
    by (rule buckets_ok_update [OF H(2)])
  have "mset (handles ((hash_buckets t)[?k := ?b'])) + mset (hh_chain ?b) =
      mset (app_order t) + mset (?f (hh_chain ?b))"
    using mset_handles_update [OF k(2), of ?b'] assms(1)
    by (simp add: HASH_DEL_IN_BKT_def table_ok_def stores_def)
  then have hs: "mset (handles ((hash_buckets t)[?k := ?b'])) = mset (?f (app_order t))"
    unfolding chain [symmetric] order [symmetric] by simp
  have ne: "?f (app_order t) \<noteq> []"
  proof
    assume e: "?f (app_order t) = []"
    with order have "mset (app_order t) = {#x#}" by simp
    with False show False by simp
  qed
  have "length (app_order t) = Suc (length (?f (app_order t)))"
    using order by (metis size_add_mset size_mset)
  then have "table_ok ?t"
    using assms(1) bs hs ne by (simp add: table_ok_def stores_def distinct_map_filter)
  then show ?thesis
    using False k(1) by (simp add: HASH_DELETE_def Let_def hash_ok_def hash_order_def)
qed

text \<open>The release loop frees every element once, in the order of insertion, and leaves no table.\<close>

lemma iter_delete_ok:
  assumes "hash_ok h"
  shows "iter_delete (hash_order h) h = Inr (hash_elements h, None)"
  using assms
proof (induction "hash_order h" arbitrary: h)
  case Nil
  then have "h = None" by (auto simp: hash_ok_def table_ok_def hash_order_def split: option.splits)
  then show ?case by (simp add: hash_order_def)
next
  case (Cons x xs)
  from Cons.hyps(2) obtain t where t: "h = Some t" "app_order t = x # xs"
    by (auto simp: hash_order_def split: option.splits)
  with Cons.prems have ok: "table_ok t" by (simp add: hash_ok_def)
  then have "filter (\<lambda>y. hh_elt y \<noteq> hh_elt x) (app_order t) = xs"
    by (auto simp: t(2) table_ok_def rev_image_eqI intro!: filter_True)
  with HASH_DELETE_ok [OF ok, of x] obtain h' where
    h': "HASH_DELETE (Some t) x = Inr h'" "hash_ok h'" "hash_order h' = xs" by (auto simp: t(2))
  from Cons.hyps(1) [OF h'(3) [symmetric] h'(2)] h' show ?case
    by (simp add: t hash_order_def hash_elements_def)
qed

lemma release_ok: "hash_ok h \<Longrightarrow> release h = Inr (hash_elements h, None)"
  using iter_delete_ok [of h] by (simp add: release_def hash_order_def)

end
