(* ===== verification/Blocked_Hash.thy ===== *)
theory Blocked_Hash
  imports Blocked Hash_Table_Ok
begin

text \<open>
  The block-caching interpreter of \<open>src/blocked.c\<close> with the hash table of \<open>src/uthash.h\<close> in
  place of the partial map of \<open>Blocked\<close>: \<open>blocks\<close> is the heap of the blocks, and \<open>HASH_FIND\<close>,
  \<open>HASH_ADD\<close> and the release loop act on the table. The interface between the two is the locale
  of tables that map keys to pointers.
\<close>

section \<open>Tables from keys to pointers\<close>

locale keyed_table =
  fixes find :: "'t \<Rightarrow> 'k \<Rightarrow> 'p option result"
    and add :: "'os \<Rightarrow> 't \<Rightarrow> 'k \<Rightarrow> 'p \<Rightarrow> 't result"
    and free_all :: "'t \<Rightarrow> ('p list \<times> 't) result"
    and fails :: "'os \<Rightarrow> 't result \<Rightarrow> bool"
    and ok :: "'t \<Rightarrow> bool"
    and new :: 't
    and abs_map :: "'t \<Rightarrow> 'k \<rightharpoonup> 'p"
    and elements :: "'t \<Rightarrow> 'p list"
  assumes new: "ok new" "abs_map new = Map.empty"
    and find: "ok t \<Longrightarrow> find t k = Inr (abs_map t k)"
    and add: "ok t \<Longrightarrow> abs_map t k = None \<Longrightarrow> p \<notin> set (elements t) \<Longrightarrow>
      fails os (add os t k p) \<or>
      (\<exists>t'. add os t k p = Inr t' \<and> ok t' \<and> abs_map t' = (abs_map t)(k \<mapsto> p))"
    and elements: "ok t \<Longrightarrow> distinct (elements t) \<and> set (elements t) = ran (abs_map t)"
    and free_all: "ok t \<Longrightarrow> free_all t = Inr (elements t, new)"
begin

text \<open>The table holds the pointers of \<open>D\<close>, each under the key \<open>key\<close> gives it.\<close>

definition indexes :: "('p \<Rightarrow> 'k) \<Rightarrow> 't \<Rightarrow> 'p set \<Rightarrow> bool" where
  "indexes key t D \<longleftrightarrow> ok t \<and> (\<forall>k p. abs_map t k = Some p \<longleftrightarrow> p \<in> D \<and> k = key p)"

lemma indexes_map:
  assumes "indexes key t D" "inj key"
  shows "abs_map t (key p) = (if p \<in> D then Some p else None)"
proof -
  have iff: "abs_map t (key p) = Some q \<longleftrightarrow> q \<in> D \<and> key p = key q" for q
    using assms(1) by (auto simp: indexes_def)
  show ?thesis
  proof (cases "abs_map t (key p)")
    case None
    with iff [of p] show ?thesis by simp
  next
    case (Some q)
    with iff [of q] assms(2) show ?thesis by (auto dest: injD)
  qed
qed

lemma indexes_new: "indexes key new {}"
  by (simp add: indexes_def new)

lemma indexes_find:
  assumes "indexes key t D" "inj key"
  shows "find t (key p) = Inr (if p \<in> D then Some p else None)"
  using assms(1) indexes_map [OF assms] by (simp add: indexes_def find)

lemma indexes_elements: "indexes key t D \<Longrightarrow> distinct (elements t) \<and> set (elements t) = D"
  using elements [of t] by (auto simp: indexes_def ran_def)

lemma indexes_add:
  assumes "indexes key t D" "inj key" "p \<notin> D"
  shows "fails os (add os t (key p) p) \<or>
    (\<exists>t'. add os t (key p) p = Inr t' \<and> indexes key t' (insert p D))"
proof -
  have ok: "ok t" using assms(1) by (simp add: indexes_def)
  have none: "abs_map t (key p) = None"
    using indexes_map [OF assms(1,2), of p] assms(3) by simp
  have "p \<notin> set (elements t)" using indexes_elements [OF assms(1)] assms(3) by simp
  from add [OF ok none this, of os] show ?thesis
    using assms(1,2) by (auto simp: indexes_def dest: injD split: if_splits)
qed

lemma indexes_free: "indexes key t D \<Longrightarrow> \<exists>ps. free_all t = Inr (ps, new) \<and> distinct ps \<and> set ps = D"
  using indexes_elements [of key t D] by (auto simp: indexes_def free_all)

end

interpretation uthash: keyed_table HASH_FIND HASH_ADD release no_room hash_ok None
  hash_map hash_elements
proof
  fix h :: "'a hash" and key and p :: 'a and os :: "'h os"
  assume "hash_ok h"
  then show "HASH_FIND h key = Inr (hash_map h key)" by (rule HASH_FIND_ok)
  show "release h = Inr (hash_elements h, None)" by (rule release_ok [OF \<open>hash_ok h\<close>])
  note order = hash_ok_order [OF \<open>hash_ok h\<close>]
  have "distinct (map fst (map (\<lambda>x. (hh_key x, hh_elt x)) (hash_order h)))"
    using order(1) by (simp add: comp_def)
  from ran_distinct [OF this] have "ran (hash_map h) = hh_elt ` set (hash_order h)"
    by (simp add: hash_map_def image_comp comp_def)
  then show "distinct (hash_elements h) \<and> set (hash_elements h) = ran (hash_map h)"
    using order(2) by (simp add: hash_elements_def comp_def)
  assume "hash_map h key = None" "p \<notin> set (hash_elements h)"
  from HASH_ADD_ok [OF \<open>hash_ok h\<close> this] show "no_room os (HASH_ADD os h key p) \<or>
      (\<exists>h'. HASH_ADD os h key p = Inr h' \<and> hash_ok h' \<and> hash_map h' = (hash_map h)(key \<mapsto> p))"
    by blast
qed simp_all

section \<open>The interpreter\<close>

text \<open>The key of a block is the representation of its address.\<close>

definition address_key :: "u32 \<Rightarrow> u8 list" where
  "address_key a = bytes_le 4 a"

record 'h hashed =
  hblk :: "'h blocked"
  head :: "u32 hash"

definition hashed_enter :: "'h os \<Rightarrow> 'h hashed \<Rightarrow> (u32 \<times> 'h hashed) result" where
  "hashed_enter os H =
     (let b = hblk H
      in bindR (HASH_FIND (head H) (address_key (get_reg MIPS_R_PC (bmach b)))) (\<lambda>current.
         bindR (case current of
                  Some p \<Rightarrow> Inr (p, H)
                | None \<Rightarrow>
                    bindR (decode_block os (bmach b)) (\<lambda>blk.
                    bindR (HASH_ADD os (head H) (address_key (blk_address blk)) (blk_address blk)) (\<lambda>h.
                      Inr (blk_address blk, \<lparr>hblk = b\<lparr>blocks := (blocks b)(blk_address blk \<mapsto> blk)\<rparr>, head = h\<rparr>))))
           (\<lambda>(current, H).
         bindR (link_previous current (hblk H)) (\<lambda>(current, b). Inr (current, H\<lparr>hblk := b\<rparr>)))))"

definition hashed_turn :: "'h os \<Rightarrow> u32 \<Rightarrow> 'h hashed \<Rightarrow> (u32 option \<times> 'h hashed) result" where
  "hashed_turn os current H =
     bindR (blocked_turn os current (hblk H)) (\<lambda>(nxt, b). Inr (nxt, H\<lparr>hblk := b\<rparr>))"

function hashed_outer :: "'h os \<Rightarrow> nat \<Rightarrow> 'h hashed \<Rightarrow> 'h hashed result option"
  and hashed_inner :: "'h os \<Rightarrow> nat \<Rightarrow> u32 \<Rightarrow> 'h hashed \<Rightarrow> 'h hashed result option" where
  "hashed_outer os fuel H =
     (if halted (cpu (bmach (hblk H))) then Some (Inr H)
      else case hashed_enter os H of
             Inl e \<Rightarrow> Some (Inl e)
           | Inr (current, H') \<Rightarrow> hashed_inner os fuel current H')"
| "hashed_inner os fuel current H =
     (case fuel of
        0 \<Rightarrow> None
      | Suc n \<Rightarrow>
        (case hashed_turn os current H of
           Inl e \<Rightarrow> Some (Inl e)
         | Inr (Some nxt, H') \<Rightarrow> hashed_inner os n nxt H'
         | Inr (None, H') \<Rightarrow> hashed_outer os n H'))"
  by pat_completeness auto
termination
  by (relation "measure (case_sum (\<lambda>(os, fuel, b). 2 * fuel + 1) (\<lambda>(os, fuel, c, b). 2 * fuel))") auto

declare hashed_outer.simps [simp del] hashed_inner.simps [simp del]

text \<open>The whole function; the result is the emulator's state and the blocks freed, in order.\<close>

definition interpreter_hashed :: "'h os \<Rightarrow> nat \<Rightarrow> 'h machine \<Rightarrow> ('h machine \<times> u32 list) result option" where
  "interpreter_hashed os fuel s =
     map_option (\<lambda>r. bindR r (\<lambda>H. bindR (release (head H)) (\<lambda>(ps, h). Inr (bmach (hblk H), ps))))
       (hashed_outer os fuel \<lparr>hblk = blocked_init s, head = None\<rparr>)"

section \<open>The table answers as the partial map\<close>

lemma address_key_inj: "inj address_key"
proof (rule injI)
  fix a b assume "address_key a = address_key b"
  then have "word_le (bytes_le 4 a) = (word_le (bytes_le 4 b) :: u32)" by (simp add: address_key_def)
  then show "a = b" by (simp add: word_le_bytes_le)
qed

definition hash_simulates :: "'h blocked \<Rightarrow> 'h hashed \<Rightarrow> bool" where
  "hash_simulates b H \<longleftrightarrow> hblk H = b \<and> uthash.indexes address_key (head H) (dom (blocks b))"

text \<open>Related results: an insertion may fail, and otherwise the table does as the map does.\<close>

definition hash_refines :: "'h os \<Rightarrow> ('b \<Rightarrow> 'c \<Rightarrow> bool) \<Rightarrow> 'b result \<Rightarrow> 'c result \<Rightarrow> bool" where
  "hash_refines os R r r' \<longleftrightarrow> no_room os r' \<or>
     (case r of Inl e \<Rightarrow> r' = Inl e | Inr x \<Rightarrow> \<exists>y. r' = Inr y \<and> R x y)"

lemma hash_refines_Inr: "R x y \<Longrightarrow> hash_refines os R (Inr x) (Inr y)"
  by (simp add: hash_refines_def)

lemma hash_refines_cases:
  assumes "hash_refines os R r r'"
  obtains "no_room os r'" | e where "r = Inl e" "r' = Inl e" | x y where "r = Inr x" "r' = Inr y" "R x y"
  using assms by (cases r) (auto simp: hash_refines_def)

lemma hash_refines_bind:
  assumes "hash_refines os R r r'" "\<And>x y. R x y \<Longrightarrow> hash_refines os Q (f x) (g y)"
  shows "hash_refines os Q (bindR r f) (bindR r' g)"
  using assms(1)
proof (cases rule: hash_refines_cases)
  case 1
  then show ?thesis by (simp add: hash_refines_def)
next
  case (2 e)
  then show ?thesis by (simp add: hash_refines_def)
next
  case (3 x y)
  with assms(2) show ?thesis by simp
qed

abbreviation (input) sim_pair :: "'c \<times> 'h blocked \<Rightarrow> 'c \<times> 'h hashed \<Rightarrow> bool" where
  "sim_pair p q \<equiv> fst p = fst q \<and> hash_simulates (snd p) (snd q)"

lemma link_previous_dom: "link_previous c b = Inr (c', b') \<Longrightarrow> dom (blocks b') = dom (blocks b)"
  by (auto simp: link_previous_def domIff split: option.splits if_splits)

lemma blocked_turn_blocks: "blocked_turn os cur b = Inr (nxt, b') \<Longrightarrow> blocks b' = blocks b"
  by (auto simp: blocked_turn_def Let_def elim!: bindR_InrE split: option.splits)

lemma decode_block_address: "decode_block os s = Inr blk \<Longrightarrow> blk_address blk = get_reg MIPS_R_PC s"
  by (auto simp: decode_block_def Let_def elim!: bindR_InrE split: if_splits)

lemma link_previous_simulates:
  assumes "hash_simulates b H"
  shows "hash_refines os sim_pair (link_previous c b)
    (bindR (link_previous c (hblk H)) (\<lambda>(current, b). Inr (current, H\<lparr>hblk := b\<rparr>)))"
  using assms link_previous_dom [of c b]
  by (cases "link_previous c b") (auto simp: hash_refines_def hash_simulates_def)

lemma hashed_enter_simulates:
  assumes "hash_simulates b H"
  shows "hash_refines os sim_pair (blocked_enter os b) (hashed_enter os H)"
proof -
  let ?pc = "get_reg MIPS_R_PC (bmach b)"
  let ?D = "dom (blocks b)"
  from assms have b: "hblk H = b" and ix: "uthash.indexes address_key (head H) ?D"
    by (simp_all add: hash_simulates_def)
  note find = uthash.indexes_find [OF ix address_key_inj, of ?pc]
  show ?thesis
  proof (cases "?pc \<in> ?D")
    case True
    then obtain blk where "blocks b ?pc = Some blk" by auto
    then show ?thesis
      using True link_previous_simulates [OF assms, of os ?pc] find
      by (simp add: blocked_enter_def hashed_enter_def b Let_def)
  next
    case False
    then have none: "blocks b ?pc = None" by auto
    have "hash_refines os (\<lambda>b p. fst p = ?pc \<and> hash_simulates b (snd p))
      (bindR (decode_block os (bmach b)) (\<lambda>blk. Inr (b\<lparr>blocks := (blocks b)(blk_address blk \<mapsto> blk)\<rparr>)))
      (bindR (decode_block os (bmach b)) (\<lambda>blk.
        bindR (HASH_ADD os (head H) (address_key (blk_address blk)) (blk_address blk)) (\<lambda>h.
          Inr (blk_address blk, \<lparr>hblk = b\<lparr>blocks := (blocks b)(blk_address blk \<mapsto> blk)\<rparr>, head = h\<rparr>))))"
    proof (cases "decode_block os (bmach b)")
      case (Inr blk)
      then have "blk_address blk = ?pc" by (rule decode_block_address)
      with uthash.indexes_add [OF ix address_key_inj False, of os] Inr show ?thesis
        by (auto simp: hash_refines_def hash_simulates_def)
    qed (simp add: hash_refines_def)
    moreover have "hash_refines os sim_pair (link_previous ?pc b') ((\<lambda>(current, H).
        bindR (link_previous current (hblk H)) (\<lambda>(current, b). Inr (current, H\<lparr>hblk := b\<rparr>))) p)"
      if "fst p = ?pc \<and> hash_simulates b' (snd p)" for b' p
      using that link_previous_simulates [of b' "snd p" os ?pc] by (cases p) simp
    ultimately have "hash_refines os sim_pair
      (bindR (bindR (decode_block os (bmach b)) (\<lambda>blk. Inr (b\<lparr>blocks := (blocks b)(blk_address blk \<mapsto> blk)\<rparr>)))
        (link_previous ?pc))
      (bindR (bindR (decode_block os (bmach b)) (\<lambda>blk.
        bindR (HASH_ADD os (head H) (address_key (blk_address blk)) (blk_address blk)) (\<lambda>h.
          Inr (blk_address blk, \<lparr>hblk = b\<lparr>blocks := (blocks b)(blk_address blk \<mapsto> blk)\<rparr>, head = h\<rparr>))))
        (\<lambda>(current, H). bindR (link_previous current (hblk H)) (\<lambda>(current, b). Inr (current, H\<lparr>hblk := b\<rparr>))))"
      by (rule hash_refines_bind)
    then show ?thesis
      unfolding blocked_enter_def hashed_enter_def b Let_def find none if_not_P [OF False] option.case bindR_Inr .
  qed
qed

lemma hashed_turn_simulates:
  assumes "hash_simulates b H"
  shows "hash_refines os sim_pair (blocked_turn os cur b) (hashed_turn os cur H)"
  using assms blocked_turn_blocks [of os cur b]
  by (cases "blocked_turn os cur b") (auto simp: hash_refines_def hash_simulates_def hashed_turn_def)

definition run_refines :: "'h os \<Rightarrow> 'h blocked result option \<Rightarrow> 'h hashed result option \<Rightarrow> bool" where
  "run_refines os r r' \<longleftrightarrow> (\<exists>x. r' = Some x \<and> no_room os x) \<or>
     (case r of None \<Rightarrow> r' = None | Some x \<Rightarrow> \<exists>y. r' = Some y \<and> hash_refines os hash_simulates x y)"

lemma run_refines_simps:
  "no_room os x \<Longrightarrow> run_refines os r (Some x)" "run_refines os None None"
  "run_refines os (Some (Inl e)) (Some (Inl e))"
  "hash_simulates b H \<Longrightarrow> run_refines os (Some (Inr b)) (Some (Inr H))"
  by (simp_all add: run_refines_def hash_refines_def)

lemma hashed_run_simulates:
  fixes os :: "'h os"
  shows "hash_simulates b H \<Longrightarrow> run_refines os (blocked_outer os fuel b) (hashed_outer os fuel H)"
    "hash_simulates b H \<Longrightarrow> run_refines os (blocked_inner os fuel cur b) (hashed_inner os fuel cur H)"
proof (induction os fuel b and os fuel cur b arbitrary: H and H rule: blocked_outer_blocked_inner.induct)
  case (1 os fuel b)
  have b: "hblk H = b" using 1(2) by (simp add: hash_simulates_def)
  note unfold = blocked_outer.simps [of os fuel b] hashed_outer.simps [of os fuel H]
  show ?case
  proof (cases "halted (cpu (bmach b))")
    case True
    with 1(2) b show ?thesis by (simp add: unfold run_refines_simps)
  next
    case False
    from hashed_enter_simulates [OF 1(2), of os] show ?thesis
    proof (cases rule: hash_refines_cases)
      case 1
      then obtain e where "hashed_enter os H = Inl e" "no_room os (Inl e :: 'h hashed result)" by (rule no_roomE)
      then show ?thesis using False b by (simp add: unfold run_refines_simps(1))
    next
      case (3 x y)
      then show ?thesis
        using False b 1(1) [OF False 3(1) surjective_pairing [symmetric], of "snd y"]
        by (cases x; cases y) (simp add: unfold)
    qed (use False b in \<open>simp_all add: unfold run_refines_simps\<close>)
  qed
next
  case (2 os fuel cur b)
  note unfold = blocked_inner.simps [of os fuel cur b] hashed_inner.simps [of os fuel cur H]
  show ?case
  proof (cases fuel)
    case 0
    then show ?thesis unfolding unfold by (simp add: run_refines_simps)
  next
    case (Suc n)
    from hashed_turn_simulates [OF 2(3), of os cur] show ?thesis
    proof (cases rule: hash_refines_cases)
      case 1
      then obtain e where "hashed_turn os cur H = Inl e" "no_room os (Inl e :: 'h hashed result)" by (rule no_roomE)
      then show ?thesis unfolding unfold by (simp add: Suc run_refines_simps(1))
    next
      case (3 x y)
      note IH = 2(1) [OF Suc 3(1) surjective_pairing [symmetric]] 2(2) [OF Suc 3(1) surjective_pairing [symmetric]]
      from 3 show ?thesis
        using IH(1) [of "snd y"] IH(2) [of _ "snd y"]
        unfolding unfold by (cases x; cases y; cases "fst x") (simp_all add: Suc)
    qed (unfold unfold, simp_all add: Suc run_refines_simps)
  qed
qed

lemma hashed_start: "hash_simulates (blocked_init s) \<lparr>hblk = blocked_init s, head = None\<rparr>"
  by (simp add: hash_simulates_def uthash.indexes_new blocked_init_def)

lemma run_refines_cases:
  assumes "run_refines os r r'"
  obtains x where "r' = Some x" "no_room os x" | "r = None" "r' = None"
  | e where "r = Some (Inl e)" "r' = Some (Inl e)"
  | b H where "r = Some (Inr b)" "r' = Some (Inr H)" "hash_simulates b H"
  using assms unfolding run_refines_def by (cases r) (auto elim: hash_refines_cases)

lemma hash_simulates_release:
  assumes "hash_simulates b H"
  shows "hblk H = b \<and> (\<exists>ps. release (head H) = Inr (ps, None) \<and> distinct ps \<and> set ps = dom (blocks b))"
  using assms uthash.indexes_free [of address_key "head H" "dom (blocks b)"] by (simp add: hash_simulates_def)

end
