(* ===== verification/Hash_Spec.thy ===== *)
theory Hash_Spec
  imports Blocked_Hash Blocked_Spec
begin

text \<open>
  The properties of the hash table and of the block-caching interpreter that uses it: a table
  finds what was added, the interpreter runs as with a partial map, and it frees every block
  it has decoded exactly once.
\<close>

section \<open>A host with little memory\<close>

definition frugal_os :: "unit os" where
  "frugal_os = demo_os\<lparr>os_malloc := (\<lambda>n. n < 2 ^ 20)\<rparr>"

lemma frugal_os_malloc [simp]: "os_malloc frugal_os n \<longleftrightarrow> n < 2 ^ 20"
  by (simp add: frugal_os_def)

lemma HASH_ADD_first:
  assumes "os_malloc os 64" "os_malloc os 512"
  shows "\<exists>h. HASH_ADD os None key p = Inr h"
proof -
  define x where "x = \<lparr>hh_elt = p, hh_key = key, hh_keylen = of_nat (length key), hh_hashv = HASH_JEN key\<rparr>"
  obtain t where t: "HASH_MAKE_TABLE os x = Inr t" "num_buckets t = 32" "hash_buckets t = replicate 32 empty_bucket"
    using assms by (simp add: HASH_MAKE_TABLE_def HASH_INITIAL_NUM_BUCKETS_def)
  have at: "bucket_at (replicate 32 empty_bucket) (HASH_TO_BKT v 32) = Inr empty_bucket" for v
    using bucket_index_less [of 32 v] by (simp add: bucket_at_def)
  have e: "hb_count empty_bucket = 0" "expand_mult empty_bucket = 0" by (simp_all add: empty_bucket_def)
  have le: "\<not> (10 :: u32) \<le> 1" by (simp add: word_le_nat_alt)
  have "HASH_ADD os None key p = bindR (HASH_MAKE_TABLE os x) (\<lambda>t.
      bindR (HASH_ADD_TO_BKT os (HASH_TO_BKT (hh_hashv x) (num_buckets t)) x (t\<lparr>num_items := num_items t + 1\<rparr>))
        (\<lambda>t. Inr (Some t)))"
    by (simp add: HASH_ADD_def x_def Let_def)
  then show ?thesis
    by (simp add: t HASH_ADD_TO_BKT_def at e le HASH_BKT_CAPACITY_THRESH_def Let_def)
qed

lemma exit_hashed_enter:
  "\<exists>h. hashed_enter frugal_os \<lparr>hblk = blocked_init exit_start, head = None\<rparr> =
     Inr (0, \<lparr>hblk = (blocked_init exit_start)\<lparr>blocks := [0 \<mapsto> exit_block]\<rparr>, head = h\<rparr>)"
proof -
  obtain h where "HASH_ADD frugal_os None (address_key 0) (0 :: u32) = Inr h"
    using HASH_ADD_first [of frugal_os "address_key 0" "0 :: u32"] by auto
  moreover have "decode_block frugal_os exit_start = Inr exit_block" by (rule exit_decode_block_os) simp_all
  ultimately show ?thesis
    by (simp add: hashed_enter_def HASH_FIND_def blocked_init_def link_previous_def exit_block_def)
qed

lemma exit_hashed_run:
  "\<exists>s' ps. interpreter_hashed frugal_os 1 exit_start = Some (Inr (s', ps))"
proof -
  let ?b = "(blocked_init exit_start)\<lparr>blocks := [0 \<mapsto> exit_block]\<rparr>"
  let ?H = "\<lparr>hblk = blocked_init exit_start, head = None\<rparr>"
  obtain s' where s': "exec_block frugal_os exit_block exit_start = Inr s'" "halted (cpu s')"
    using exit_exec by blast
  obtain h where h: "hashed_enter frugal_os ?H = Inr (0, \<lparr>hblk = ?b, head = h\<rparr>)"
    using exit_hashed_enter by blast
  from hashed_enter_simulates [OF hashed_start, of frugal_os exit_start] h
  have "hash_ok h" by (auto simp: hash_refines_def hash_simulates_def uthash.indexes_def split: sum.splits)
  then have free: "release h = Inr (hash_elements h, None)" by (rule release_ok)
  let ?b' = "?b\<lparr>bmach := s', previous := Some 0\<rparr>"
  have "hashed_turn frugal_os 0 \<lparr>hblk = ?b, head = h\<rparr> = Inr (None, \<lparr>hblk = ?b', head = h\<rparr>)"
    using s' by (simp add: hashed_turn_def blocked_turn_def blocked_init_def Let_def)
  then have "hashed_outer frugal_os 1 ?H = Some (Inr \<lparr>hblk = ?b', head = h\<rparr>)"
    unfolding hashed_outer.simps [of frugal_os 1] h hashed_inner.simps [of frugal_os 1]
    using s'(2) by (simp add: blocked_init_bmach One_nat_def hashed_outer.simps [of frugal_os 0])
  then show ?thesis by (simp add: interpreter_hashed_def free)
qed

section \<open>Properties\<close>

text \<open>C8: a key that the table does not have, added with an element that it does not have, is found with
  that element afterwards and every other key as before: the expansion of the buckets loses and
  duplicates nothing. Otherwise the insertion fails: an allocation does, or the host grants 64 GiB
  for the expansion of a table of \<open>2 ^ 31\<close> buckets, which comes to an undefined shift.\<close>

theorem hash_add_find:
  assumes "hash_ok h" "HASH_FIND h key = Inr None" "p \<notin> set (hash_elements h)"
  shows "HASH_ADD os h key p = Inl OutOfMemory \<or>
    HASH_ADD os h key p = Inl UndefinedShift \<and> os_malloc os (2 ^ 36) \<or>
    (\<exists>h'. HASH_ADD os h key p = Inr h' \<and> hash_ok h' \<and> hash_elements h' = hash_elements h @ [p] \<and>
       (\<forall>k. HASH_FIND h' k = (if k = key then Inr (Some p) else HASH_FIND h k)))"
proof -
  have "hash_map h key = None" using assms(1,2) by (simp add: HASH_FIND_ok)
  from HASH_ADD_ok [OF assms(1) this assms(3), of os] show ?thesis
    using assms(1) by (auto simp: HASH_FIND_ok no_room_def)
qed

lemma hash_add_find_witness:
  "\<exists>h'. HASH_ADD frugal_os None [1, 2, 3, 4] (7 :: u32) = Inr h' \<and> HASH_FIND h' [1, 2, 3, 4] = Inr (Some 7) \<and>
     HASH_FIND h' [4, 3, 2, 1] = Inr None"
proof -
  obtain h where h: "HASH_ADD frugal_os None [1, 2, 3, 4] (7 :: u32) = Inr h"
    using HASH_ADD_first [of frugal_os "[1, 2, 3, 4]" "7 :: u32"] by auto
  with hash_add_find [of "None :: u32 hash" "[1, 2, 3, 4]" 7 frugal_os] show ?thesis
    by (auto simp: HASH_FIND_def)
qed

lemma hashed_interpreter_eq:
  "interpreter_hashed os fuel s = Some (Inl OutOfMemory) \<or>
    interpreter_hashed os fuel s = Some (Inl UndefinedShift) \<and> os_malloc os (2 ^ 36) \<or>
    map_option (\<lambda>r. bindR r (\<lambda>(s', freed). Inr s')) (interpreter_hashed os fuel s) =
      interpreter_blocked os fuel s"
proof -
  let ?r = "blocked_outer os fuel (blocked_init s)"
  from hashed_run_simulates(1) [OF hashed_start, of os fuel s] show ?thesis
  proof (cases rule: run_refines_cases)
    case (1 x)
    then show ?thesis by (auto simp: interpreter_hashed_def no_room_def)
  next
    case (4 b H)
    with hash_simulates_release [OF 4(3)] show ?thesis
      by (auto simp: interpreter_hashed_def interpreter_blocked_def)
  qed (simp_all add: interpreter_hashed_def interpreter_blocked_def)
qed

text \<open>C7: with the hash table the block-caching interpreter runs as with a partial map from
  addresses to blocks, whatever the hash function does with them, unless an insertion fails: for
  want of memory, or with an undefined shift where the host grants 64 GiB for \<open>2 ^ 32\<close> buckets.\<close>

theorem hashed_interpreter_refines:
  "interpreter_hashed os fuel s = Some (Inl OutOfMemory) \<or>
    interpreter_hashed os fuel s = Some (Inl UndefinedShift) \<and> os_malloc os (2 ^ 36) \<or>
    map_option (\<lambda>r. bindR r (\<lambda>(s', freed). Inr s')) (interpreter_hashed os fuel s) =
      interpreter_blocked os fuel s"
  by (rule hashed_interpreter_eq)

lemma hashed_interpreter_refines_witness:
  "\<exists>s' ps. interpreter_hashed frugal_os 1 exit_start = Some (Inr (s', ps)) \<and>
     interpreter_blocked frugal_os 1 exit_start = Some (Inr s')"
proof -
  obtain s' ps where "interpreter_hashed frugal_os 1 exit_start = Some (Inr (s', ps))"
    using exit_hashed_run by blast
  with hashed_interpreter_refines [of frugal_os 1 exit_start] show ?thesis by simp
qed

text \<open>C25: when the interpreter returns it has freed every block of its table, each exactly once; the
  blocks are those that the interpreter with a partial map has decoded.\<close>

theorem blocks_freed_once:
  assumes "interpreter_hashed os fuel s = Some (Inr (s', ps))"
  shows "\<exists>b. blocked_outer os fuel (blocked_init s) = Some (Inr b) \<and> bmach b = s' \<and>
    distinct ps \<and> set ps = dom (blocks b)"
proof -
  from hashed_run_simulates(1) [OF hashed_start, of os fuel s] show ?thesis
  proof (cases rule: run_refines_cases)
    case (1 x)
    then show ?thesis using assms by (auto simp: interpreter_hashed_def no_room_def)
  next
    case (4 b H)
    with hash_simulates_release [OF 4(3)] assms show ?thesis
      by (auto simp: interpreter_hashed_def)
  qed (use assms in \<open>simp_all add: interpreter_hashed_def\<close>)
qed

lemma blocks_freed_once_witness:
  "\<exists>s'. interpreter_hashed frugal_os 1 exit_start = Some (Inr (s', [0]))"
proof -
  obtain s' ps where run: "interpreter_hashed frugal_os 1 exit_start = Some (Inr (s', ps))"
    using exit_hashed_run by blast
  from blocks_freed_once [OF run] obtain b where
    b: "blocked_outer frugal_os 1 (blocked_init exit_start) = Some (Inr b)" "distinct ps" "set ps = dom (blocks b)"
    by blast
  have "dom (blocks b) = {0}" using b(1) exit_blocked_outer [of frugal_os] by auto
  with distinct_card [OF b(2)] b(3) have "length ps = Suc 0" by simp
  with b(3) \<open>dom (blocks b) = {0}\<close> have "ps = [0]" by (auto simp: length_Suc_conv)
  with run show ?thesis by blast
qed

end
