(* ===== verification/Disassembly.thy ===== *)
theory Disassembly
  imports Frame
begin

text \<open>
  The disassembling build (\<open>__DISASSEMBLE__\<close>): the formatters \<open>ITP_FORMAT_x\<close> of
  \<open>src/instructions.h\<close>, the register names and the formatter column of the instruction lists of
  \<open>src/mips.h\<close>. A formatter is the text its \<open>printf\<close> writes for the instruction word and the
  state it is called in; of the state it reads the program counters only.
\<close>

section \<open>The conversions of \<open>printf\<close>\<close>

definition hex_digit :: "nat \<Rightarrow> char" where
  "hex_digit n = ''0123456789abcdef'' ! n"

fun hex_digits :: "nat \<Rightarrow> string" where
  "hex_digits n = (if n < 16 then [hex_digit n] else hex_digits (n div 16) @ [hex_digit (n mod 16)])"

fun dec_digits :: "nat \<Rightarrow> string" where
  "dec_digits n = (if n < 10 then [hex_digit n] else dec_digits (n div 10) @ [hex_digit (n mod 10)])"

declare hex_digits.simps [simp del] dec_digits.simps [simp del]

definition zero_pad :: "nat \<Rightarrow> string \<Rightarrow> string" where
  "zero_pad k cs = replicate (k - length cs) CHR ''0'' @ cs"

text \<open>\<open>%x\<close>, \<open>%0kx\<close>, \<open>%hd\<close>, and \<open>%d\<close> of a value that is not negative.\<close>

definition print_x :: "'a::len word \<Rightarrow> string" where "print_x w = hex_digits (unat w)"
definition print_0x :: "nat \<Rightarrow> 'a::len word \<Rightarrow> string" where "print_0x k w = zero_pad k (print_x w)"

definition print_hd :: "u16 \<Rightarrow> string" where
  "print_hd v = (if sint v < 0 then CHR ''-'' # dec_digits (nat (- sint v)) else dec_digits (nat (sint v)))"

definition print_d :: "nat \<Rightarrow> string" where "print_d n = dec_digits n"

abbreviation tab :: string where "tab \<equiv> [CHR 0x09]"
abbreviation newline :: string where "newline \<equiv> [CHR 0x0a]"

section \<open>The formatters\<close>

definition register_names :: "string list" where
  "register_names =
    [''%zr'', ''%at'', ''%v0'', ''%v1'', ''%a0'', ''%a1'', ''%a2'', ''%a3'', ''%t0'',
     ''%t1'', ''%t2'', ''%t3'', ''%t4'', ''%t5'', ''%t6'', ''%t7'', ''%s0'', ''%s1'',
     ''%s2'', ''%s3'', ''%s4'', ''%s5'', ''%s6'', ''%s7'', ''%t8'', ''%t9'', ''%k0'',
     ''%k1'', ''%gp'', ''%sp'', ''%fp'', ''%ra'', ''%hi'', ''%lo'', ''%pc'', ''%npc'',
     ''%nnpc'', ''%cir'', '''', '''']"

definition reg_name :: "nat \<Rightarrow> string" where "reg_name r = register_names ! r"

text \<open>What every format begins with: \<open>"  %x:\t%08x\t%s"\<close>.\<close>

definition line_start :: "string \<Rightarrow> u32 \<Rightarrow> 'h machine \<Rightarrow> string" where
  "line_start name cir s =
     ''  '' @ print_x (get_reg MIPS_R_PC s) @ '':'' @ tab @ print_0x 8 cir @ tab @ name"

definition ITP_FORMAT_NONE :: "string \<Rightarrow> u32 \<Rightarrow> 'h machine \<Rightarrow> string" where
  "ITP_FORMAT_NONE name cir s = []"

definition ITP_FORMAT_SHIFT_IMM :: "string \<Rightarrow> u32 \<Rightarrow> 'h machine \<Rightarrow> string" where
  "ITP_FORMAT_SHIFT_IMM name cir s =
     line_start name cir s @ '' '' @ reg_name (get_rd cir) @ '', '' @ reg_name (get_rt cir) @
     '', 0x'' @ print_0x 2 (get_sh cir) @ newline"

definition ITP_FORMAT_SHIFT_REG :: "string \<Rightarrow> u32 \<Rightarrow> 'h machine \<Rightarrow> string" where
  "ITP_FORMAT_SHIFT_REG name cir s =
     line_start name cir s @ '' '' @ reg_name (get_rd cir) @ '', '' @ reg_name (get_rt cir) @
     '', '' @ reg_name (get_rs cir) @ newline"

definition ITP_FORMAT_JR :: "string \<Rightarrow> u32 \<Rightarrow> 'h machine \<Rightarrow> string" where
  "ITP_FORMAT_JR name cir s =
     line_start name cir s @ '' '' @ reg_name (get_rs cir) @ newline"

definition ITP_FORMAT_JALR :: "string \<Rightarrow> u32 \<Rightarrow> 'h machine \<Rightarrow> string" where
  "ITP_FORMAT_JALR name cir s =
     line_start name cir s @ '' '' @ reg_name (get_rd cir) @ '', '' @ reg_name (get_rs cir) @
     newline"

definition ITP_FORMAT_MF :: "string \<Rightarrow> u32 \<Rightarrow> 'h machine \<Rightarrow> string" where
  "ITP_FORMAT_MF name cir s =
     line_start name cir s @ '' '' @ reg_name (get_rd cir) @ newline"

definition ITP_FORMAT_MT :: "string \<Rightarrow> u32 \<Rightarrow> 'h machine \<Rightarrow> string" where
  "ITP_FORMAT_MT name cir s =
     line_start name cir s @ '' '' @ reg_name (get_rs cir) @ newline"

definition ITP_FORMAT_SYSCALL :: "string \<Rightarrow> u32 \<Rightarrow> 'h machine \<Rightarrow> string" where
  "ITP_FORMAT_SYSCALL name cir s =
     line_start name cir s @ '' imm20'' @ newline"

definition ITP_FORMAT_MULT_DIV :: "string \<Rightarrow> u32 \<Rightarrow> 'h machine \<Rightarrow> string" where
  "ITP_FORMAT_MULT_DIV name cir s =
     line_start name cir s @ '' '' @ reg_name (get_rs cir) @ '', '' @ reg_name (get_rt cir) @
     newline"

definition ITP_FORMAT_ALU_REG :: "string \<Rightarrow> u32 \<Rightarrow> 'h machine \<Rightarrow> string" where
  "ITP_FORMAT_ALU_REG name cir s =
     line_start name cir s @ '' '' @ reg_name (get_rd cir) @ '', '' @ reg_name (get_rt cir) @
     '', '' @ reg_name (get_rs cir) @ newline"

definition ITP_FORMAT_BRANCH_GENERIC :: "string \<Rightarrow> u32 \<Rightarrow> 'h machine \<Rightarrow> string" where
  "ITP_FORMAT_BRANCH_GENERIC name cir s =
     line_start name cir s @ '' '' @ reg_name (get_rs cir) @ '', '' @
     print_hd (get_imm16 cir) @ '' (0x'' @ print_0x 8 (get_reg MIPS_R_NNPC s) @ '')'' @
     newline"

definition ITP_FORMAT_J_JAL :: "string \<Rightarrow> u32 \<Rightarrow> 'h machine \<Rightarrow> string" where
  "ITP_FORMAT_J_JAL name cir s =
     line_start name cir s @ '' 0x'' @ print_0x 7 (get_imm26 cir) @ '' (0x'' @
     print_0x 8 (get_reg MIPS_R_NNPC s) @ '')'' @ newline"

definition ITP_FORMAT_BRANCH_EQ_NE :: "string \<Rightarrow> u32 \<Rightarrow> 'h machine \<Rightarrow> string" where
  "ITP_FORMAT_BRANCH_EQ_NE name cir s =
     line_start name cir s @ '' '' @ reg_name (get_rs cir) @ '', '' @ reg_name (get_rt cir) @
     '', '' @ print_hd (get_imm16 cir) @ '' (0x'' @ print_0x 8 (get_reg MIPS_R_NNPC s) @
     '')'' @ newline"

definition ITP_FORMAT_ALU_IMM :: "string \<Rightarrow> u32 \<Rightarrow> 'h machine \<Rightarrow> string" where
  "ITP_FORMAT_ALU_IMM name cir s =
     line_start name cir s @ '' '' @ reg_name (get_rt cir) @ '', '' @ reg_name (get_rs cir) @
     '', '' @ print_hd (get_imm16 cir) @ newline"

definition ITP_FORMAT_LUI_IMM :: "string \<Rightarrow> u32 \<Rightarrow> 'h machine \<Rightarrow> string" where
  "ITP_FORMAT_LUI_IMM name cir s =
     line_start name cir s @ '' '' @ reg_name (get_rt cir) @ '', 0x'' @
     print_0x 4 (get_imm16 cir) @ newline"

definition ITP_FORMAT_LOAD_IMM :: "string \<Rightarrow> u32 \<Rightarrow> 'h machine \<Rightarrow> string" where
  "ITP_FORMAT_LOAD_IMM name cir s =
     line_start name cir s @ '' '' @ reg_name (get_rt cir) @ '', 0x'' @
     print_0x 4 (get_imm16 cir) @ ''['' @ reg_name (get_rs cir) @ '']'' @ newline"

definition ITP_FORMAT_STORE_IMM :: "string \<Rightarrow> u32 \<Rightarrow> 'h machine \<Rightarrow> string" where
  "ITP_FORMAT_STORE_IMM name cir s =
     line_start name cir s @ '' '' @ reg_name (get_rt cir) @ '', 0x'' @
     print_0x 4 (get_imm16 cir) @ ''['' @ reg_name (get_rs cir) @ '']'' @ newline"

definition ITP_FORMAT_RDHWR :: "string \<Rightarrow> u32 \<Rightarrow> 'h machine \<Rightarrow> string" where
  "ITP_FORMAT_RDHWR name cir s =
     line_start name cir s @ '' '' @ reg_name (get_rt cir) @ '', '' @ print_d (get_rd cir) @
     newline"

lemmas format_defs =
  ITP_FORMAT_SHIFT_IMM_def ITP_FORMAT_SHIFT_REG_def ITP_FORMAT_JR_def
  ITP_FORMAT_JALR_def ITP_FORMAT_MF_def ITP_FORMAT_MT_def
  ITP_FORMAT_SYSCALL_def ITP_FORMAT_MULT_DIV_def ITP_FORMAT_ALU_REG_def
  ITP_FORMAT_BRANCH_GENERIC_def ITP_FORMAT_J_JAL_def ITP_FORMAT_BRANCH_EQ_NE_def
  ITP_FORMAT_ALU_IMM_def ITP_FORMAT_LUI_IMM_def ITP_FORMAT_LOAD_IMM_def
  ITP_FORMAT_STORE_IMM_def ITP_FORMAT_RDHWR_def

section \<open>The formatter of each instruction\<close>

text \<open>The second column of the lists, applied to \<open>#name\<close>.\<close>

primrec format_instr :: "mnemonic \<Rightarrow> u32 \<Rightarrow> 'h machine \<Rightarrow> string" where
  "format_instr I_blez = ITP_FORMAT_BRANCH_GENERIC ''blez''"
| "format_instr I_bgtz = ITP_FORMAT_BRANCH_GENERIC ''bgtz''"
| "format_instr I_j = ITP_FORMAT_J_JAL ''j''"
| "format_instr I_jal = ITP_FORMAT_J_JAL ''jal''"
| "format_instr I_beq = ITP_FORMAT_BRANCH_EQ_NE ''beq''"
| "format_instr I_bne = ITP_FORMAT_BRANCH_EQ_NE ''bne''"
| "format_instr I_addi = ITP_FORMAT_ALU_IMM ''addi''"
| "format_instr I_addiu = ITP_FORMAT_ALU_IMM ''addiu''"
| "format_instr I_slti = ITP_FORMAT_ALU_IMM ''slti''"
| "format_instr I_sltiu = ITP_FORMAT_ALU_IMM ''sltiu''"
| "format_instr I_andi = ITP_FORMAT_ALU_IMM ''andi''"
| "format_instr I_ori = ITP_FORMAT_ALU_IMM ''ori''"
| "format_instr I_xori = ITP_FORMAT_ALU_IMM ''xori''"
| "format_instr I_lui = ITP_FORMAT_LUI_IMM ''lui''"
| "format_instr I_lb = ITP_FORMAT_LOAD_IMM ''lb''"
| "format_instr I_lh = ITP_FORMAT_LOAD_IMM ''lh''"
| "format_instr I_lwl = ITP_FORMAT_LOAD_IMM ''lwl''"
| "format_instr I_lw = ITP_FORMAT_LOAD_IMM ''lw''"
| "format_instr I_lbu = ITP_FORMAT_LOAD_IMM ''lbu''"
| "format_instr I_lhu = ITP_FORMAT_LOAD_IMM ''lhu''"
| "format_instr I_lwr = ITP_FORMAT_LOAD_IMM ''lwr''"
| "format_instr I_ll = ITP_FORMAT_LOAD_IMM ''ll''"
| "format_instr I_sb = ITP_FORMAT_STORE_IMM ''sb''"
| "format_instr I_sh = ITP_FORMAT_STORE_IMM ''sh''"
| "format_instr I_swl = ITP_FORMAT_STORE_IMM ''swl''"
| "format_instr I_sw = ITP_FORMAT_STORE_IMM ''sw''"
| "format_instr I_sc = ITP_FORMAT_STORE_IMM ''sc''"
| "format_instr I_swr = ITP_FORMAT_STORE_IMM ''swr''"
| "format_instr I_rdhwr = ITP_FORMAT_RDHWR ''rdhwr''"
| "format_instr I_brk = ITP_FORMAT_SYSCALL ''brk''"
| "format_instr I_sll = ITP_FORMAT_SHIFT_IMM ''sll''"
| "format_instr I_srl = ITP_FORMAT_SHIFT_IMM ''srl''"
| "format_instr I_sra = ITP_FORMAT_SHIFT_IMM ''sra''"
| "format_instr I_sllv = ITP_FORMAT_SHIFT_REG ''sllv''"
| "format_instr I_srlv = ITP_FORMAT_SHIFT_REG ''srlv''"
| "format_instr I_srav = ITP_FORMAT_SHIFT_REG ''srav''"
| "format_instr I_jr = ITP_FORMAT_JR ''jr''"
| "format_instr I_jalr = ITP_FORMAT_JALR ''jalr''"
| "format_instr I_syscall = ITP_FORMAT_SYSCALL ''syscall''"
| "format_instr I_special = ITP_FORMAT_SYSCALL ''special''"
| "format_instr I_mfhi = ITP_FORMAT_MF ''mfhi''"
| "format_instr I_mflo = ITP_FORMAT_MF ''mflo''"
| "format_instr I_mthi = ITP_FORMAT_MT ''mthi''"
| "format_instr I_mtlo = ITP_FORMAT_MT ''mtlo''"
| "format_instr I_mult = ITP_FORMAT_MULT_DIV ''mult''"
| "format_instr I_multu = ITP_FORMAT_MULT_DIV ''multu''"
| "format_instr I_div = ITP_FORMAT_MULT_DIV ''div''"
| "format_instr I_divu = ITP_FORMAT_MULT_DIV ''divu''"
| "format_instr I_add = ITP_FORMAT_ALU_REG ''add''"
| "format_instr I_addu = ITP_FORMAT_ALU_REG ''addu''"
| "format_instr I_sub = ITP_FORMAT_ALU_REG ''sub''"
| "format_instr I_subu = ITP_FORMAT_ALU_REG ''subu''"
| "format_instr I_slt = ITP_FORMAT_ALU_REG ''slt''"
| "format_instr I_sltu = ITP_FORMAT_ALU_REG ''sltu''"
| "format_instr I_and = ITP_FORMAT_ALU_REG ''and''"
| "format_instr I_or = ITP_FORMAT_ALU_REG ''or''"
| "format_instr I_xor = ITP_FORMAT_ALU_REG ''xor''"
| "format_instr I_nor = ITP_FORMAT_ALU_REG ''nor''"
| "format_instr I_bltz = ITP_FORMAT_BRANCH_GENERIC ''bltz''"
| "format_instr I_bgez = ITP_FORMAT_BRANCH_GENERIC ''bgez''"
| "format_instr I_bltzal = ITP_FORMAT_BRANCH_GENERIC ''bltzal''"
| "format_instr I_bgezal = ITP_FORMAT_BRANCH_GENERIC ''bgezal''"

text \<open>The register dump that is available for debugging.\<close>

definition print_mips_registers :: "'h machine \<Rightarrow> string" where
  "print_mips_registers s = ''mips-register contents'' @ newline @
     concat (map (\<lambda>r. reg_name r @ '': 0x'' @ print_0x 8 (get_reg r s) @ newline) [0..<MIPS_R_REG_MAX])"

section \<open>Reading a line back\<close>

definition digit_value :: "char \<Rightarrow> nat" where
  "digit_value c = (let k = of_char c in if k < 58 then k - 48 else k - 87)"

definition of_hex :: "string \<Rightarrow> nat" where
  "of_hex = foldl (\<lambda>n c. 16 * n + digit_value c) 0"

text \<open>The address and the instruction word of a line.\<close>

definition read_line :: "string \<Rightarrow> u32 \<times> u32" where
  "read_line cs =
     (let cs = drop 2 cs; address = takeWhile (\<lambda>c. c \<noteq> CHR '':'') cs;
          rest = drop (length address + 2) cs
      in (of_nat (of_hex address), of_nat (of_hex (take 8 rest))))"

lemma hex_digit_cases:
  assumes "n < 16"
  shows "digit_value (hex_digit n) = n" "hex_digit n \<noteq> CHR '':''"
proof -
  have "\<forall>n \<in> set [0..<16]. digit_value (hex_digit n) = n \<and> hex_digit n \<noteq> CHR '':''" by code_simp
  with assms show "digit_value (hex_digit n) = n" "hex_digit n \<noteq> CHR '':''" by simp_all
qed

lemma of_hex_snoc: "of_hex (cs @ [c]) = 16 * of_hex cs + digit_value c"
  by (simp add: of_hex_def)

lemma of_hex_digits: "of_hex (hex_digits n) = n"
proof (induction n rule: hex_digits.induct)
  case (1 n)
  show ?case
  proof (cases "n < 16")
    case True
    then show ?thesis by (simp add: hex_digits.simps [of n] of_hex_def hex_digit_cases)
  next
    case False
    with 1 show ?thesis by (simp add: hex_digits.simps [of n] of_hex_snoc hex_digit_cases)
  qed
qed

lemma of_hex_zero_pad: "of_hex (zero_pad k cs) = of_hex cs"
proof -
  have "foldl (\<lambda>n c. 16 * n + digit_value c) 0 (replicate m CHR ''0'') = 0" for m
    by (induction m) (simp_all add: digit_value_def)
  then show ?thesis by (simp add: of_hex_def zero_pad_def)
qed

lemma hex_digits_no_colon: "CHR '':'' \<notin> set (hex_digits n)"
proof (induction n rule: hex_digits.induct)
  case (1 n)
  then show ?case using hex_digit_cases(2) [of n] hex_digit_cases(2) [of "n mod 16"]
    by (cases "n < 16") (auto simp: hex_digits.simps [of n])
qed

lemma length_hex_digits: "n < 16 ^ k \<Longrightarrow> 0 < k \<Longrightarrow> length (hex_digits n) \<le> k"
proof (induction n arbitrary: k rule: hex_digits.induct)
  case (1 n)
  show ?case
  proof (cases "n < 16")
    case True
    with 1(3) show ?thesis by (simp add: hex_digits.simps [of n])
  next
    case False
    then obtain j where j: "k = Suc j" "0 < j" using 1(2,3) by (cases k; cases "k - 1") auto
    with 1(2) have "n div 16 < 16 ^ j" by (simp add: less_mult_imp_div_less mult.commute)
    from 1(1) [OF False this j(2)] False j show ?thesis by (simp add: hex_digits.simps [of n])
  qed
qed

lemma length_print_0x: "length (print_0x 8 (w :: u32)) = 8"
proof -
  have "unat w < 16 ^ 8" using unsigned_less [of w] by simp
  from length_hex_digits [OF this] show ?thesis by (simp add: print_0x_def print_x_def zero_pad_def)
qed

lemma read_line_start: "read_line (line_start name cir s @ rest) = (get_reg MIPS_R_PC s, cir)"
proof -
  let ?a = "print_x (get_reg MIPS_R_PC s)"
  have "takeWhile (\<lambda>c. c \<noteq> CHR '':'') (?a @ CHR '':'' # cs) = ?a" for cs
    using hex_digits_no_colon by (subst takeWhile_append2) (auto simp: print_x_def)
  moreover have "of_hex (print_0x 8 cir) = unat cir"
    by (simp add: print_0x_def of_hex_zero_pad print_x_def of_hex_digits)
  ultimately show ?thesis
    by (simp add: read_line_def line_start_def Let_def length_print_0x
        print_x_def of_hex_digits del: register_numbers)
qed

text \<open>No part of a line but its end is a newline.\<close>

lemma reg_name_line: "CHR 0x0a \<notin> set (reg_name (get_rs cir))" "CHR 0x0a \<notin> set (reg_name (get_rt cir))"
  "CHR 0x0a \<notin> set (reg_name (get_rd cir))"
proof -
  have "\<forall>r \<in> set [0..<32]. CHR 0x0a \<notin> set (reg_name r)" by code_simp
  then have "CHR 0x0a \<notin> set (reg_name r)" if "r < 32" for r using that by simp
  then show "CHR 0x0a \<notin> set (reg_name (get_rs cir))" "CHR 0x0a \<notin> set (reg_name (get_rt cir))"
    "CHR 0x0a \<notin> set (reg_name (get_rd cir))"
    using reg_fields_less [of cir] by blast+
qed

lemma digits_line: "CHR 0x0a \<notin> set (hex_digits n)" "CHR 0x0a \<notin> set (dec_digits n)"
proof -
  have "\<forall>n \<in> set [0..<16]. hex_digit n \<noteq> CHR 0x0a" by code_simp
  then have d: "hex_digit k \<noteq> CHR 0x0a" if "k < 16" for k using that by simp
  show "CHR 0x0a \<notin> set (hex_digits n)"
  proof (induction n rule: hex_digits.induct)
    case (1 n)
    then show ?case using d [of n] d [of "n mod 16"] by (cases "n < 16") (auto simp: hex_digits.simps [of n])
  qed
  show "CHR 0x0a \<notin> set (dec_digits n)"
  proof (induction n rule: dec_digits.induct)
    case (1 n)
    have "n mod 10 < 16" by (rule less_trans [of _ 10]) simp_all
    with 1 show ?case using d [of n] d [of "n mod 10"] by (cases "n < 10") (auto simp: dec_digits.simps [of n])
  qed
qed

lemma print_line: "CHR 0x0a \<notin> set (print_x w)" "CHR 0x0a \<notin> set (print_0x k w)"
  "CHR 0x0a \<notin> set (print_hd v)" "CHR 0x0a \<notin> set (print_d n)"
  by (simp_all add: print_x_def print_0x_def print_hd_def print_d_def zero_pad_def digits_line)

lemma format_instr_start:
  "\<exists>name rest. format_instr i cir s = line_start name cir s @ rest @ newline \<and>
     CHR 0x0a \<notin> set (line_start name cir s @ rest)"
  by (cases i; force simp: format_defs line_start_def reg_name_line print_line)

lemma read_line_instr: "read_line (format_instr i cir s) = (get_reg MIPS_R_PC s, cir)"
  using format_instr_start [of i cir s] read_line_start by metis

end
