(* ===== verification/Listing.thy ===== *)
theory Listing
  imports Disassembly Interpreter_Spec
begin

text \<open>
  The disassembling builds of the switch, the computed goto and the tail calls: each instruction
  also prints its line, after its body (switch), after its body and the program counters'
  advance (computed goto), or before its body (tail calls). A run returns the text with its
  result; the text is the standard output of the emulator but for what the guest writes itself.
\<close>

section \<open>The interpreters\<close>

abbreviation (input) print_first :: "string \<Rightarrow> string \<times> 'r \<Rightarrow> string \<times> 'r" where
  "print_first t p \<equiv> (t @ fst p, snd p)"

definition switch_body_dis :: "'h os \<Rightarrow> 'h machine \<Rightarrow> (string \<times> 'h machine) result" where
  "switch_body_dis os s =
     bindR (fetch s) (\<lambda>cir.
     bindR (switch_decode (get_reg MIPS_R_PC s) cir) (\<lambda>i.
     bindR (interpret_instr os i cir s) (\<lambda>s.
     Inr (format_instr i cir s, upd_cpu INCREMENT_PC s))))"

primrec interpreter_switch_dis ::
  "'h os \<Rightarrow> nat \<Rightarrow> 'h machine \<Rightarrow> string \<times> 'h machine result option" where
  "interpreter_switch_dis os 0 s = ([], if halted (cpu s) then Some (Inr s) else None)"
| "interpreter_switch_dis os (Suc n) s =
     (if halted (cpu s) then ([], Some (Inr s))
      else case switch_body_dis os s of
             Inl e \<Rightarrow> ([], Some (Inl e))
           | Inr (t, s') \<Rightarrow> print_first t (interpreter_switch_dis os n s'))"

fun goto_DISPATCH_dis :: "'h os \<Rightarrow> nat \<Rightarrow> 'h machine \<Rightarrow> string \<times> 'h machine result option"
  and goto_label_dis ::
    "'h os \<Rightarrow> nat \<Rightarrow> mnemonic \<Rightarrow> u32 \<Rightarrow> 'h machine \<Rightarrow> string \<times> 'h machine result option" where
  "goto_DISPATCH_dis os fuel s =
     (if halted (cpu s) then ([], Some (Inr s))
      else case fuel of
        0 \<Rightarrow> ([], None)
      | Suc n \<Rightarrow>
        (case bindR (fetch s) (\<lambda>cir. bindR (goto_dispatch cir) (\<lambda>i. Inr (i, cir))) of
           Inl e \<Rightarrow> ([], Some (Inl e))
         | Inr (i, cir) \<Rightarrow> goto_label_dis os n i cir s))"
| "goto_label_dis os fuel i cir s =
     (case interpret_instr os i cir s of
        Inl e \<Rightarrow> ([], Some (Inl e))
      | Inr s' \<Rightarrow>
          let s'' = upd_cpu INCREMENT_PC s'
          in print_first (format_instr i cir s'') (goto_DISPATCH_dis os fuel s''))"

declare goto_DISPATCH_dis.simps [simp del] goto_label_dis.simps [simp del]

definition interpreter_computed_goto_dis ::
  "'h os \<Rightarrow> nat \<Rightarrow> 'h machine \<Rightarrow> string \<times> 'h machine result option" where
  "interpreter_computed_goto_dis os fuel s = goto_DISPATCH_dis os fuel s"

fun tail_handler_dis ::
  "'h os \<Rightarrow> nat \<Rightarrow> mnemonic \<Rightarrow> u32 \<Rightarrow> 'h machine \<Rightarrow> string \<times> 'h machine result option" where
  "tail_handler_dis os fuel i cir s =
     (if halted (cpu s) then ([], Some (Inr s))
      else case fuel of
        0 \<Rightarrow> ([], None)
      | Suc n \<Rightarrow>
        print_first (format_instr i cir s)
          (case interpret_instr os i cir s of
             Inl e \<Rightarrow> ([], Some (Inl e))
           | Inr s' \<Rightarrow>
               let s'' = upd_cpu INCREMENT_PC s'
               in case tail_next s'' of
                    Inl e \<Rightarrow> ([], Some (Inl e))
                  | Inr (i', cir') \<Rightarrow> tail_handler_dis os n i' cir' s''))"

declare tail_handler_dis.simps [simp del]

definition interpreter_tail_call_dis ::
  "'h os \<Rightarrow> nat \<Rightarrow> 'h machine \<Rightarrow> string \<times> 'h machine result option" where
  "interpreter_tail_call_dis os fuel s =
     (case tail_next s of
        Inl e \<Rightarrow> ([], Some (Inl e))
      | Inr (i, cir) \<Rightarrow> tail_handler_dis os fuel i cir s)"

section \<open>Printing does not change the run\<close>

lemma switch_body_dis_map:
  "switch_body os s = mapR snd (switch_body_dis os s)"
  unfolding switch_body_def switch_body_dis_def
  by (cases "fetch s") (auto simp: bindR_def mapR_def split: sum.splits)

lemma switch_dis_run: "snd (interpreter_switch_dis os fuel s) = interpreter_switch os fuel s"
proof (induction fuel arbitrary: s)
  case (Suc n)
  then show ?case
    by (cases "switch_body_dis os s") (auto simp: switch_body_dis_map split: prod.splits)
qed simp

lemma goto_dis_run:
  "snd (goto_DISPATCH_dis os fuel s) = goto_DISPATCH os fuel s"
  "snd (goto_label_dis os fuel i cir s) = goto_label os fuel i cir s"
proof (induction os fuel s and os fuel i cir s rule: goto_DISPATCH_dis_goto_label_dis.induct)
  case (1 os fuel s)
  then show ?case
    by (auto simp: goto_DISPATCH_dis.simps [of os fuel s] goto_DISPATCH.simps [of os fuel s]
        split: nat.splits sum.splits prod.splits)
next
  case (2 os fuel i cir s)
  then show ?case
    by (auto simp: goto_label_dis.simps [of os fuel i cir s] goto_label.simps [of os fuel i cir s] Let_def
        split: sum.splits)
qed

lemma tail_dis_run: "snd (tail_handler_dis os fuel i cir s) = tail_handler os fuel i cir s"
proof (induction os fuel i cir s rule: tail_handler_dis.induct)
  case (1 os fuel i cir s)
  then show ?case
    by (auto simp: tail_handler_dis.simps [of os fuel i cir s] tail_handler.simps [of os fuel i cir s] Let_def
        split: nat.splits sum.splits prod.splits)
qed

section \<open>The lines of a run\<close>

fun split_lines :: "string \<Rightarrow> string list" where
  "split_lines [] = []"
| "split_lines (c # cs) =
     (if c = CHR 0x0a then [] # split_lines cs
      else case split_lines cs of [] \<Rightarrow> [[c]] | l # ls \<Rightarrow> (c # l) # ls)"

text \<open>The instructions that the switch completes in a run: the register \<open>r\<close>, the program counter
  or the next one, and the word.\<close>

primrec switch_trace :: "nat \<Rightarrow> 'h os \<Rightarrow> nat \<Rightarrow> 'h machine \<Rightarrow> (u32 \<times> u32) list" where
  "switch_trace r os 0 s = []"
| "switch_trace r os (Suc n) s =
     (if halted (cpu s) then []
      else case bindR (fetch s) (\<lambda>cir. bindR (switch_body os s) (\<lambda>s'. Inr (cir, s'))) of
             Inl e \<Rightarrow> []
           | Inr (cir, s') \<Rightarrow> (get_reg r s, cir) # switch_trace r os n s')"

lemma split_lines_append: "CHR 0x0a \<notin> set l \<Longrightarrow> split_lines (l @ newline @ cs) = l # split_lines cs"
  by (induction l) auto

text \<open>The instruction's line in front of the lines of the rest of the run.\<close>

lemma read_lines_instr:
  "map read_line (split_lines (format_instr i cir s @ cs)) =
     (get_reg MIPS_R_PC s, cir) # map read_line (split_lines cs)"
proof -
  obtain name rest where f: "format_instr i cir s = (line_start name cir s @ rest) @ newline"
    "CHR 0x0a \<notin> set (line_start name cir s @ rest)"
    using format_instr_start [of i cir s] by auto
  then have eq: "format_instr i cir s @ cs = (line_start name cir s @ rest) @ newline @ cs" by simp
  show ?thesis unfolding eq split_lines_append [OF f(2)] by (simp add: read_line_start)
qed

lemma interpret_keeps_pcs:
  assumes "interpret_instr os i cir s = Inr s'"
  shows "get_reg MIPS_R_PC s' = get_reg MIPS_R_PC s" "get_reg MIPS_R_NPC s' = get_reg MIPS_R_NPC s"
  using straight_keeps_high [OF _ assms, of MIPS_R_PC] straight_keeps_high [OF _ assms, of MIPS_R_NPC]
    branch_keeps_high [OF _ assms, of MIPS_R_PC] branch_keeps_high [OF _ assms, of MIPS_R_NPC]
  by (cases "i \<in> jumps"; simp)+

lemma increment_pc: "get_reg MIPS_R_PC (upd_cpu INCREMENT_PC s) = get_reg MIPS_R_NPC s"
  by (simp add: get_reg_def upd_cpu_def INCREMENT_PC_def set_reg_def)

lemma switch_dis_lines:
  "map read_line (split_lines (fst (interpreter_switch_dis os fuel s))) = switch_trace MIPS_R_PC os fuel s"
proof (induction fuel arbitrary: s)
  case (Suc n)
  show ?case
  proof (cases "switch_body_dis os s")
    case (Inl e)
    then show ?thesis by (auto simp: switch_body_dis_map bindR_def split: sum.splits)
  next
    case (Inr p)
    then obtain cir i s1 where s1: "fetch s = Inr cir" "interpret_instr os i cir s = Inr s1"
      "p = (format_instr i cir s1, upd_cpu INCREMENT_PC s1)"
      by (auto simp: switch_body_dis_def elim!: bindR_InrE)
    with Inr have "switch_body os s = Inr (upd_cpu INCREMENT_PC s1)" by (simp add: switch_body_dis_map)
    with s1 Inr Suc.IH [of "upd_cpu INCREMENT_PC s1"] interpret_keeps_pcs(1) [OF s1(2)] show ?thesis
      by (simp add: read_lines_instr)
  qed
qed simp

lemma goto_dis_step:
  assumes "\<not> halted (cpu s)"
  shows "interpreter_computed_goto_dis os (Suc n) s =
    (case bindR (fetch s) (\<lambda>cir. bindR (goto_dispatch cir) (\<lambda>i.
       bindR (interpret_instr os i cir s) (\<lambda>s'. Inr (format_instr i cir (upd_cpu INCREMENT_PC s'), upd_cpu INCREMENT_PC s')))) of
       Inl e \<Rightarrow> ([], Some (Inl e))
     | Inr (t, s') \<Rightarrow> print_first t (interpreter_computed_goto_dis os n s'))"
  using assms
  by (auto simp: interpreter_computed_goto_dis_def goto_DISPATCH_dis.simps [of os "Suc n" s]
      goto_label_dis.simps [of os n _ _ s] Let_def bindR_def split: sum.splits)

lemma goto_dis_lines:
  "map read_line (split_lines (fst (interpreter_computed_goto_dis os fuel s))) = switch_trace MIPS_R_NPC os fuel s"
proof (induction fuel arbitrary: s)
  case 0
  then show ?case by (simp add: interpreter_computed_goto_dis_def goto_DISPATCH_dis.simps [of os 0])
next
  case (Suc n)
  show ?case
  proof (cases "halted (cpu s)")
    case True
    then show ?thesis by (simp add: interpreter_computed_goto_dis_def goto_DISPATCH_dis.simps [of os "Suc n"])
  next
    case False
    show ?thesis
    proof (cases "switch_body os s")
      case (Inl e)
      then have "\<nexists>s'. execute_body (\<lambda>_. goto_dispatch) os s = Inr s'"
        using cg.body_agrees [of os s] by auto
      then show ?thesis using False Inl
        by (auto simp: goto_dis_step execute_body_def bindR_def split: sum.splits)
    next
      case (Inr s2)
      then have "execute_body (\<lambda>_. goto_dispatch) os s = Inr s2"
        using cg.body_agrees [of os s] by (cases "execute_body (\<lambda>_. goto_dispatch) os s") auto
      then obtain cir i s1 where s1: "fetch s = Inr cir" "goto_dispatch cir = Inr i"
        "interpret_instr os i cir s = Inr s1" "s2 = upd_cpu INCREMENT_PC s1"
        by (auto simp: execute_body_def elim!: bindR_InrE)
      with Inr False Suc.IH [of s2] interpret_keeps_pcs(2) [OF s1(3)] increment_pc [of s1] show ?thesis
        by (simp add: goto_dis_step read_lines_instr del: register_numbers)
    qed
  qed
qed

end
