(* ===== verification/Listing_Spec.thy ===== *)
theory Listing_Spec
  imports Listing
begin

text \<open>
  The properties of the disassembling builds: they run as the others, the listing can be read
  back, and what the line of a branch says about its target.
\<close>

section \<open>The line of a branch\<close>

definition ends_at :: "string \<Rightarrow> u32 \<Rightarrow> string \<Rightarrow> bool" where
  "ends_at t a cs \<longleftrightarrow>
     (\<exists>p. CHR 0x0a \<notin> set p \<and> t = p @ ''(0x'' @ print_0x 8 a @ '')'' @ newline @ cs)"

lemma branch_line:
  assumes "i \<in> jumps - {I_jr, I_jalr}"
  shows "ends_at (format_instr i cir s) (get_reg MIPS_R_NNPC s) []"
proof -
  have line: "CHR 0x0a \<notin> set (line_start name cir s)" if "CHR 0x0a \<notin> set name" for name
    using that by (simp add: line_start_def print_line)
  let ?tail = "''(0x'' @ print_0x 8 (get_reg MIPS_R_NNPC s) @ '')'' @ newline"
  let ?rs = "reg_name (get_rs cir)" and ?rt = "reg_name (get_rt cir)" and ?imm = "print_hd (get_imm16 cir)"
  consider name where "format_instr i cir s =
      (line_start name cir s @ '' '' @ ?rs @ '', '' @ ?imm @ '' '') @ ?tail" "CHR 0x0a \<notin> set name"
    | name where "format_instr i cir s =
      (line_start name cir s @ '' 0x'' @ print_0x 7 (get_imm26 cir) @ '' '') @ ?tail" "CHR 0x0a \<notin> set name"
    | name where "format_instr i cir s =
      (line_start name cir s @ '' '' @ ?rs @ '', '' @ ?rt @ '', '' @ ?imm @ '' '') @ ?tail" "CHR 0x0a \<notin> set name"
    using assms unfolding jumps_def by (elim DiffE insertE) (force simp: format_defs)+
  then show ?thesis
  proof cases
    case (1 name)
    then show ?thesis unfolding ends_at_def 1(1) using line [OF 1(2)]
      by (intro exI [of _ "line_start name cir s @ '' '' @ ?rs @ '', '' @ ?imm @ '' ''"])
        (simp add: reg_name_line print_line)
  next
    case (2 name)
    then show ?thesis unfolding ends_at_def 2(1) using line [OF 2(2)]
      by (intro exI [of _ "line_start name cir s @ '' 0x'' @ print_0x 7 (get_imm26 cir) @ '' ''"])
        (simp add: reg_name_line print_line)
  next
    case (3 name)
    then show ?thesis unfolding ends_at_def 3(1) using line [OF 3(2)]
      by (intro exI [of _ "line_start name cir s @ '' '' @ ?rs @ '', '' @ ?rt @ '', '' @ ?imm @ '' ''"])
        (simp add: reg_name_line print_line)
  qed
qed

lemma ends_at_append: "ends_at t a [] \<Longrightarrow> ends_at (t @ cs) a cs"
  unfolding ends_at_def by fastforce

lemma increment_npc: "get_reg MIPS_R_NPC (upd_cpu INCREMENT_PC s) = get_reg MIPS_R_NNPC s"
  "get_reg MIPS_R_NNPC (upd_cpu INCREMENT_PC s) = get_reg MIPS_R_NNPC s + 4"
  by (simp_all add: get_reg_def upd_cpu_def INCREMENT_PC_def set_reg_def)

section \<open>Properties\<close>

text \<open>The disassembling builds of the switch, the computed goto and the tail calls run as those
  that do not print: the same result, fault or state, for every fuel.\<close>

lemma disassembly_transparent:
  "snd (interpreter_switch_dis os fuel s) = interpreter_switch os fuel s \<and>
   snd (interpreter_computed_goto_dis os fuel s) = interpreter_computed_goto os fuel s \<and>
   snd (interpreter_tail_call_dis os fuel s) = interpreter_tail_call os fuel s"
  by (auto simp: switch_dis_run goto_dis_run interpreter_computed_goto_dis_def
      interpreter_computed_goto_def interpreter_tail_call_dis_def interpreter_tail_call_def tail_dis_run
      split: sum.splits)

text \<open>C28: read back, the listing of the switch is the sequence of the addresses and words of the
  instructions that the run completed. The listing of the computed goto has the same words, each
  under the address of the instruction after it.\<close>

theorem listing_reads_back:
  "map read_line (split_lines (fst (interpreter_switch_dis os fuel s))) = switch_trace MIPS_R_PC os fuel s \<and>
   map read_line (split_lines (fst (interpreter_computed_goto_dis os fuel s))) = switch_trace MIPS_R_NPC os fuel s"
  by (simp add: switch_dis_lines goto_dis_lines del: register_numbers)

text \<open>C29: the line that the switch prints for a direct branch ends with the address where the
  process goes after the delay slot. The line of the computed goto ends with the address after
  that, and the line of the tail calls, printed before the branch, with that of the instruction
  that would follow without the branch.\<close>

theorem branch_line_target:
  assumes "fetch s = Inr cir" "tail_dispatch cir = Inr i" "i \<in> jumps - {I_jr, I_jalr}" "\<not> halted (cpu s)"
  shows "\<exists>s'. switch_body os s = Inr s' \<and>
    (\<exists>cs. ends_at (fst (interpreter_switch_dis os (Suc n) s)) (get_reg MIPS_R_NPC s') cs) \<and>
    (\<exists>cs. ends_at (fst (interpreter_computed_goto_dis os (Suc n) s)) (get_reg MIPS_R_NPC s' + 4) cs) \<and>
    (\<exists>cs. ends_at (fst (interpreter_tail_call_dis os (Suc n) s)) (get_reg MIPS_R_NNPC s) cs)"
proof -
  have "switch_decode (get_reg MIPS_R_PC s) cir = Inr i"
    using tail_dispatch_agrees [of cir "get_reg MIPS_R_PC s"] assms(2) by simp
  moreover then have "goto_dispatch cir = Inr i"
    using goto_dispatch_agrees [of cir "get_reg MIPS_R_PC s"] by simp
  ultimately have dec: "switch_decode (get_reg MIPS_R_PC s) cir = Inr i" "goto_dispatch cir = Inr i" .
  obtain s1 where s1: "interpret_instr os i cir s = Inr s1" using branch_total assms(3) by blast
  let ?s = "upd_cpu INCREMENT_PC s1"
  note ends = ends_at_append [OF branch_line [OF assms(3)]]
  have "switch_body os s = Inr ?s" using assms(1) dec(1) s1 by (simp add: switch_body_def)
  moreover have "\<exists>cs. ends_at (fst (interpreter_switch_dis os (Suc n) s)) (get_reg MIPS_R_NPC ?s) cs"
    using assms(1,4) dec(1) s1 ends [of cir s1] unfolding increment_npc
    by (auto simp: switch_body_dis_def)
  moreover have "\<exists>cs. ends_at (fst (interpreter_computed_goto_dis os (Suc n) s)) (get_reg MIPS_R_NPC ?s + 4) cs"
    using assms(1) dec(2) s1 ends [of cir ?s] unfolding increment_npc
    by (auto simp: goto_dis_step [OF assms(4)])
  moreover have "\<exists>cs. ends_at (fst (interpreter_tail_call_dis os (Suc n) s)) (get_reg MIPS_R_NNPC s) cs"
    using assms(1,2,4) ends [of cir s]
    by (auto simp: interpreter_tail_call_dis_def tail_next_def tail_handler_dis.simps [of os "Suc n"])
  ultimately show ?thesis by blast
qed

lemma branch_line_target_witness:
  "\<exists>s' cs. switch_body demo_os (put_reg MIPS_R_PC 4 exit_start) = Inr s' \<and>
     ends_at (fst (interpreter_switch_dis demo_os 1 (put_reg MIPS_R_PC 4 exit_start))) (get_reg MIPS_R_NPC s') cs"
proof -
  let ?s = "put_reg MIPS_R_PC 4 exit_start"
  have "fetch ?s = Inr 0x08000000" by (simp add: fetch_def exit_words)
  moreover have "tail_dispatch 0x08000000 = Inr I_j"
    using tail_dispatch_agrees [of "0x08000000" 0] exit_decode by simp
  moreover have "I_j \<in> jumps - {I_jr, I_jalr}" by (simp add: jumps_def)
  moreover have "\<not> halted (cpu ?s)" by simp
  ultimately show ?thesis
    using branch_line_target [of ?s "0x08000000" I_j demo_os 0] unfolding One_nat_def by blast
qed

section \<open>The operands of a subtraction\<close>

text \<open>\<open>sub %v0, %a0, %a1\<close>, which subtracts \<open>%a1\<close> from \<open>%a0\<close>, is listed with the two exchanged.\<close>

lemma sub_listed_exchanged:
  "\<exists>p. format_instr I_sub 0x00851022 s = p @ ''sub %v0, %a1, %a0'' @ newline"
  "get_rs 0x00851022 = MIPS_R_A0" "get_rt 0x00851022 = MIPS_R_A1"
proof -
  have f: "get_rs 0x00851022 = 4" "get_rt 0x00851022 = 5" "get_rd 0x00851022 = 2"
    by (simp_all add: get_rs_def get_rt_def get_rd_def reg_field_def field_def field_consts)
  then show "get_rs 0x00851022 = MIPS_R_A0" "get_rt 0x00851022 = MIPS_R_A1" by simp_all
  show "\<exists>p. format_instr I_sub 0x00851022 s = p @ ''sub %v0, %a1, %a0'' @ newline"
    unfolding format_instr.simps ITP_FORMAT_ALU_REG_def line_start_def f
    by (simp add: reg_name_def register_names_def)
qed

end
