(* ===== verification/Blocked_Output.thy ===== *)
theory Blocked_Output
  imports Blocked_Chain
begin

text \<open>
  The loops of the block-caching interpreter in the builds that have an output: the listing of
  the disassembling build, the instructions of the host in the profiling build. An action returns
  its output beside its result, so that what has been output before a fault is kept. \<open>call\<close> is the
  call of a handler, \<open>blk_out\<close> the body of the inner loop, \<open>enter_out\<close> the output of the head of
  the outer loop and \<open>exit_out\<close> that of the code behind it. The turns are those of \<open>Blocked\<close>.
\<close>

section \<open>Actions with an output\<close>

definition bindO :: "'o list \<times> 'a result \<Rightarrow> ('a \<Rightarrow> 'o list \<times> 'b result) \<Rightarrow> 'o list \<times> 'b result" where
  "bindO p f =
     (case snd p of
        Inl e \<Rightarrow> (fst p, Inl e)
      | Inr a \<Rightarrow> (fst p @ fst (f a), snd (f a)))"

lemma bindO_simps [simp]:
  "bindO (t, Inl e) f = (t, Inl e)" "bindO (t, Inr a) f = (t @ fst (f a), snd (f a))"
  by (simp_all add: bindO_def)

lemma fst_bindO: "fst (bindO p f) = fst p @ (case snd p of Inl _ \<Rightarrow> [] | Inr a \<Rightarrow> fst (f a))"
  by (simp add: bindO_def split: sum.split)

lemma snd_bindO: "snd (bindO p f) = bindR (snd p) (\<lambda>a. snd (f a))"
  by (simp add: bindO_def bindR_def split: sum.split)

lemma bindO_assoc: "bindO (bindO p f) g = bindO p (\<lambda>a. bindO (f a) g)"
  by (simp add: bindO_def split: sum.split)

lemma bindO_cong [fundef_cong]:
  "p = q \<Longrightarrow> (\<And>a. snd q = Inr a \<Longrightarrow> f a = g a) \<Longrightarrow> bindO p f = bindO q g"
  by (simp add: bindO_def split: sum.split)

lemma bindO_Inr_right [simp]: "bindO p (\<lambda>a. ([], Inr a)) = p"
  by (cases p; cases "snd p") (simp_all add: bindO_def)

abbreviation (input) output_first :: "'o list \<Rightarrow> 'o list \<times> 'r \<Rightarrow> 'o list \<times> 'r" where
  "output_first t p \<equiv> (t @ fst p, snd p)"

section \<open>The unrolled loop\<close>

fun exec_n_out ::
  "(op_t \<Rightarrow> 's \<Rightarrow> 'o list \<times> 's result) \<Rightarrow> nat \<Rightarrow> op_t list \<Rightarrow> 's \<Rightarrow> 'o list \<times> (op_t list \<times> 's) result" where
  "exec_n_out call 0 ops s = ([], Inr (ops, s))"
| "exec_n_out call (Suc n) [] s = ([], Inl HostOverrun)"
| "exec_n_out call (Suc n) (x # ops) s = bindO (call x s) (exec_n_out call n ops)"

lemma exec_n_out_run: "snd (exec_n_out call n ops s) = exec_n (\<lambda>x s. snd (call x s)) n ops s"
  by (induction call n ops s rule: exec_n_out.induct) (simp_all add: snd_bindO cong: bindR_cong)

lemma exec_n_out_ops:
  "snd (exec_n_out call n ops s) = Inr (ops', s') \<Longrightarrow> n \<le> length ops \<and> ops' = drop n ops"
  unfolding exec_n_out_run by (rule exec_n_ops)

function unrolled_while_out ::
  "(op_t \<Rightarrow> 's \<Rightarrow> 'o list \<times> 's result) \<Rightarrow> op_t list \<Rightarrow> 's \<Rightarrow> 'o list \<times> 's result" where
  "unrolled_while_out call ops s =
     (case ops of
        [] \<Rightarrow> ([], Inl HostOverrun)
      | x # _ \<Rightarrow>
          if op_op x \<noteq> None
          then bindO (exec_n_out call UNROLL_SIZE ops s) (\<lambda>(ops', s'). unrolled_while_out call ops' s')
          else ([], Inr s))"
  by pat_completeness auto
termination
  by (relation "measure (\<lambda>(call, ops, s). length ops)")
     (auto simp: UNROLL_SIZE_def dest!: exec_n_out_ops)

declare unrolled_while_out.simps [simp del]

definition unrolled_loop_out ::
  "(op_t \<Rightarrow> 's \<Rightarrow> 'o list \<times> 's result) \<Rightarrow> u32 \<Rightarrow> op_t list \<Rightarrow> 's \<Rightarrow> 'o list \<times> 's result" where
  "unrolled_loop_out call sz ops s =
     (let k = unat (sz - 1) mod UNROLL_SIZE
      in bindO (exec_n_out call (if k = 0 then 8 else k) ops s) (\<lambda>(ops', s').
           unrolled_while_out call ops' s'))"

text \<open>Without the output it is the loop of \<open>Blocked\<close>.\<close>

lemma unrolled_while_out_run:
  "snd (unrolled_while_out call ops s) = unrolled_while (\<lambda>x s. snd (call x s)) ops s"
proof (induction "length ops" arbitrary: ops s rule: less_induct)
  case less
  note unfold = unrolled_while_out.simps [of call ops] unrolled_while.simps [of _ ops]
  show ?case
  proof (cases ops)
    case (Cons x xs)
    have "snd (unrolled_while_out call (fst q) (snd q)) = unrolled_while (\<lambda>x s. snd (call x s)) (fst q) (snd q)"
      if "exec_n (\<lambda>x s. snd (call x s)) UNROLL_SIZE ops s = Inr q" for q
      using exec_n_ops [of _ UNROLL_SIZE ops s "fst q" "snd q"] that Cons
      by (intro less) (simp add: UNROLL_SIZE_def)
    with Cons show ?thesis unfolding unfold
      by (simp add: snd_bindO exec_n_out_run split_def cong: bindR_cong)
  next
    case Nil
    show ?thesis unfolding unfold by (simp add: Nil)
  qed
qed

lemma unrolled_loop_out_run:
  "snd (unrolled_loop_out call sz ops s) = unrolled_loop (\<lambda>x s. snd (call x s)) sz ops s"
  by (simp add: unrolled_loop_out_def unrolled_loop_def Let_def snd_bindO exec_n_out_run
      unrolled_while_out_run split_def cong: bindR_cong)

text \<open>Over the operations of a block it is the plain loop, outputs included.\<close>

primrec exec_all_out ::
  "(op_t \<Rightarrow> 's \<Rightarrow> 'o list \<times> 's result) \<Rightarrow> op_t list \<Rightarrow> 's \<Rightarrow> 'o list \<times> 's result" where
  "exec_all_out call [] s = ([], Inr s)"
| "exec_all_out call (x # ops) s = bindO (call x s) (exec_all_out call ops)"

lemma exec_all_out_append:
  "exec_all_out call (xs @ ys) s = bindO (exec_all_out call xs s) (exec_all_out call ys)"
  by (induction xs arbitrary: s) (auto simp: bindO_assoc intro!: bindO_cong)

lemma exec_all_out_run: "snd (exec_all_out call xs s) = exec_all (\<lambda>x s. snd (call x s)) xs s"
  by (induction xs arbitrary: s) (simp_all add: snd_bindO cong: bindR_cong)

lemma exec_n_out_append:
  "exec_n_out call (length xs) (xs @ ys) s = bindO (exec_all_out call xs s) (\<lambda>s. ([], Inr (ys, s)))"
  by (induction xs arbitrary: s) (auto simp: bindO_assoc intro!: bindO_cong)

lemma unrolled_while_out_exec:
  assumes "length xs = m * UNROLL_SIZE" "\<forall>x \<in> set xs. op_op x \<noteq> None" "op_op z = None"
  shows "unrolled_while_out call (xs @ [z]) s = exec_all_out call xs s"
  using assms(1,2)
proof (induction m arbitrary: xs s)
  case 0
  then show ?case using assms(3) by (simp add: unrolled_while_out.simps [of _ "[z]"])
next
  case (Suc m)
  let ?t = "take UNROLL_SIZE xs" and ?d = "drop UNROLL_SIZE xs"
  have t: "length ?t = UNROLL_SIZE" and d: "length ?d = m * UNROLL_SIZE"
    using Suc.prems(1) by simp_all
  have "xs \<noteq> []" using Suc.prems(1) by (auto simp: UNROLL_SIZE_def)
  then obtain x xs' where x: "xs = x # xs'" "op_op x \<noteq> None" using Suc.prems(2) by (cases xs) auto
  have rest: "unrolled_while_out call (?d @ [z]) s = exec_all_out call ?d s" for s
    using Suc.IH [OF d] Suc.prems(2) in_set_dropD by fast
  have "exec_n_out call UNROLL_SIZE (?t @ ?d @ [z]) s = bindO (exec_all_out call ?t s) (\<lambda>s. ([], Inr (?d @ [z], s)))"
    using exec_n_out_append [of call ?t "?d @ [z]" s] t by simp
  then have "exec_n_out call UNROLL_SIZE (xs @ [z]) s = bindO (exec_all_out call ?t s) (\<lambda>s. ([], Inr (?d @ [z], s)))"
    by (simp flip: append_assoc)
  then have "unrolled_while_out call (xs @ [z]) s = bindO (exec_all_out call ?t s) (exec_all_out call ?d)"
    using x rest by (subst unrolled_while_out.simps) (simp add: bindO_assoc)
  then show ?case using exec_all_out_append [of call ?t ?d s] by simp
qed

lemma unrolled_loop_out_exec:
  assumes "unat sz = Suc (length xs)" "xs \<noteq> []" "\<forall>x \<in> set xs. op_op x \<noteq> None" "op_op z = None"
  shows "unrolled_loop_out call sz (xs @ [z]) s = exec_all_out call xs s"
proof -
  define k where "k = (if length xs mod UNROLL_SIZE = 0 then 8 else length xs mod UNROLL_SIZE)"
  have "unat (sz - 1) = length xs" using assms(1) by (simp add: unat_sub_if')
  then have loop: "unrolled_loop_out call sz (xs @ [z]) s =
      bindO (exec_n_out call k (xs @ [z]) s) (\<lambda>(ops', s'). unrolled_while_out call ops' s')"
    by (simp add: unrolled_loop_out_def k_def Let_def)
  have k: "k \<le> length xs" "UNROLL_SIZE dvd (length xs - k)"
    using assms(2) by (auto simp: k_def UNROLL_SIZE_def dvd_minus_mod mod_less_eq_dividend
        dest: dvd_imp_le intro!: dvd_diff_nat)
  let ?t = "take k xs" and ?d = "drop k xs"
  obtain m where m: "length ?d = m * UNROLL_SIZE" using k(2) unfolding length_drop by (metis dvdE mult.commute)
  have "exec_n_out call k (?t @ ?d @ [z]) s = bindO (exec_all_out call ?t s) (\<lambda>s. ([], Inr (?d @ [z], s)))"
    using exec_n_out_append [of call ?t "?d @ [z]" s] k(1) by simp
  then have "exec_n_out call k (xs @ [z]) s = bindO (exec_all_out call ?t s) (\<lambda>s. ([], Inr (?d @ [z], s)))"
    by (simp flip: append_assoc)
  moreover have "unrolled_while_out call (?d @ [z]) s = exec_all_out call ?d s" for s
    using unrolled_while_out_exec [OF m _ assms(4)] assms(3) in_set_dropD by fast
  moreover have "exec_all_out call xs s = bindO (exec_all_out call ?t s) (exec_all_out call ?d)"
    using exec_all_out_append [of call ?t ?d s] by simp
  ultimately show ?thesis unfolding loop by (simp add: bindO_assoc)
qed

text \<open>A property that the outputs of the calls have, and that concatenation keeps.\<close>

lemma exec_n_out_keeps:
  assumes "P []" "\<And>t u. P t \<Longrightarrow> P u \<Longrightarrow> P (t @ u)" "\<And>x s. P (fst (call x s))"
  shows "P (fst (exec_n_out call n ops s))"
proof (induction n arbitrary: ops s)
  case (Suc n)
  then show ?case by (cases ops) (auto simp: fst_bindO assms split: sum.split)
qed (simp add: assms)

lemma unrolled_while_out_keeps:
  assumes "P []" "\<And>t u. P t \<Longrightarrow> P u \<Longrightarrow> P (t @ u)" "\<And>x s. P (fst (call x s))"
  shows "P (fst (unrolled_while_out call ops s))"
proof (induction "length ops" arbitrary: ops s rule: less_induct)
  case less
  have "P (fst (unrolled_while_out call (fst q) (snd q)))"
    if "snd (exec_n_out call UNROLL_SIZE ops s) = Inr q" "ops \<noteq> []" for q
    using exec_n_out_ops [of call UNROLL_SIZE ops s "fst q" "snd q"] that
    by (intro less) (simp add: UNROLL_SIZE_def)
  with exec_n_out_keeps [where P = P and call = call, OF assms] assms(1,2) show ?case
    by (auto simp: unrolled_while_out.simps [of call ops] fst_bindO split_def split: list.split sum.split)
qed

lemma unrolled_loop_out_keeps:
  assumes "P []" "\<And>t u. P t \<Longrightarrow> P u \<Longrightarrow> P (t @ u)" "\<And>x s. P (fst (call x s))"
  shows "P (fst (unrolled_loop_out call sz ops s))"
  using exec_n_out_keeps [where P = P and call = call, OF assms]
    unrolled_while_out_keeps [where P = P and call = call, OF assms] assms(1,2)
  by (auto simp: unrolled_loop_out_def Let_def fst_bindO split: sum.split)

section \<open>The loops over the blocks\<close>

definition blocked_turn_out ::
  "(block \<Rightarrow> 'h machine \<Rightarrow> 'o list \<times> 'h machine result) \<Rightarrow> u32 \<Rightarrow> 'h blocked \<Rightarrow>
     'o list \<times> (u32 option \<times> 'h blocked) result" where
  "blocked_turn_out blk_out current b =
     (case blocks b current of
        None \<Rightarrow> ([], Inl SegFault)
      | Some blk \<Rightarrow>
          bindO (blk_out blk (bmach b)) (\<lambda>s.
            let nxt = blk_next blk (branched (cpu s));
                b = b\<lparr>bmach := s, previous := Some current\<rparr>
            in ([], Inr (if nxt \<noteq> None \<and> \<not> blk_indirect blk \<and> \<not> halted (cpu s) then nxt else None, b))))"

function blocked_outer_out ::
    "('h blocked \<Rightarrow> 'o list) \<Rightarrow> (block \<Rightarrow> 'h machine \<Rightarrow> 'o list \<times> 'h machine result) \<Rightarrow>
     'h os \<Rightarrow> nat \<Rightarrow> 'h blocked \<Rightarrow> 'o list \<times> 'h blocked result option"
  and blocked_inner_out ::
    "('h blocked \<Rightarrow> 'o list) \<Rightarrow> (block \<Rightarrow> 'h machine \<Rightarrow> 'o list \<times> 'h machine result) \<Rightarrow>
     'h os \<Rightarrow> nat \<Rightarrow> u32 \<Rightarrow> 'h blocked \<Rightarrow> 'o list \<times> 'h blocked result option" where
  "blocked_outer_out enter_out blk_out os fuel b =
     (if halted (cpu (bmach b)) then ([], Some (Inr b))
      else case blocked_enter os b of
             Inl e \<Rightarrow> ([], Some (Inl e))
           | Inr (current, b') \<Rightarrow>
               output_first (enter_out b) (blocked_inner_out enter_out blk_out os fuel current b'))"
| "blocked_inner_out enter_out blk_out os fuel current b =
     (case fuel of
        0 \<Rightarrow> ([], None)
      | Suc n \<Rightarrow>
        (case blocked_turn_out blk_out current b of
           (t, Inl e) \<Rightarrow> (t, Some (Inl e))
         | (t, Inr (Some nxt, b')) \<Rightarrow> output_first t (blocked_inner_out enter_out blk_out os n nxt b')
         | (t, Inr (None, b')) \<Rightarrow> output_first t (blocked_outer_out enter_out blk_out os n b')))"
  by pat_completeness auto
termination
  by (relation "measure (case_sum (\<lambda>(_, _, os, fuel, b). 2 * fuel + 1) (\<lambda>(_, _, os, fuel, c, b). 2 * fuel))")
     auto

declare blocked_outer_out.simps [simp del] blocked_inner_out.simps [simp del]

definition interpreter_blocked_out ::
  "('h blocked \<Rightarrow> 'o list) \<Rightarrow> (block \<Rightarrow> 'h machine \<Rightarrow> 'o list \<times> 'h machine result) \<Rightarrow>
   ('h blocked \<Rightarrow> 'o list) \<Rightarrow> 'h os \<Rightarrow> nat \<Rightarrow> 'h machine \<Rightarrow> 'o list \<times> 'h machine result option" where
  "interpreter_blocked_out enter_out blk_out exit_out os fuel s =
     (let (t, r) = blocked_outer_out enter_out blk_out os fuel (blocked_init s)
      in (t @ (case r of Some (Inr b) \<Rightarrow> exit_out b | _ \<Rightarrow> []),
          map_option (\<lambda>r. bindR r (\<lambda>b. Inr (bmach b))) r))"

section \<open>Two outputs of one run\<close>

text \<open>
  Two ways to execute a block and to report on it that agree in the states in which a run enters
  a block agree on the run: the states are those of \<open>Blocked\<close>, and the outputs are related by \<open>R\<close>
  when the outputs of each block are, whether or not the block faults.
\<close>

definition reports :: "('o list \<Rightarrow> 'p list \<Rightarrow> bool) \<Rightarrow> bool" where
  "reports R \<longleftrightarrow> R [] [] \<and> (\<forall>t u t' u'. R t u \<longrightarrow> R t' u' \<longrightarrow> R (t @ t') (u @ u'))"

definition same_blocks ::
  "('o list \<Rightarrow> 'p list \<Rightarrow> bool) \<Rightarrow> 'h os \<Rightarrow> 'h machine \<Rightarrow>
   (block \<Rightarrow> 'h machine \<Rightarrow> 'o list \<times> 'h machine result) \<Rightarrow>
   (block \<Rightarrow> 'h machine \<Rightarrow> 'p list \<times> 'h machine result) \<Rightarrow> bool" where
  "same_blocks R os s0 f g \<longleftrightarrow>
     (\<forall>cur b blk. blocked_reach os s0 (Some cur) b \<longrightarrow> blocks b cur = Some blk \<longrightarrow>
        snd (f blk (bmach b)) = exec_block os blk (bmach b) \<and>
        snd (g blk (bmach b)) = exec_block os blk (bmach b) \<and>
        R (fst (f blk (bmach b))) (fst (g blk (bmach b))))"

lemma turn_out:
  assumes "blocks b cur = Some blk" "snd (f blk (bmach b)) = exec_block os blk (bmach b)"
  shows "blocked_turn_out f cur b = (fst (f blk (bmach b)), blocked_turn os cur b)"
  using assms
  by (cases "f blk (bmach b)"; cases "snd (f blk (bmach b))")
     (auto simp: blocked_turn_def blocked_turn_out_def Let_def)

lemma blocked_out_related:
  assumes "reports R" "same_blocks R os s0 f g" "\<And>b. R (ef b) (eg b)"
  shows "blocked_reach os s0 None b \<Longrightarrow>
      R (fst (blocked_outer_out ef f os fuel b)) (fst (blocked_outer_out eg g os fuel b)) \<and>
      snd (blocked_outer_out ef f os fuel b) = blocked_outer os fuel b \<and>
      snd (blocked_outer_out eg g os fuel b) = blocked_outer os fuel b"
    and "blocked_reach os s0 (Some cur) b \<Longrightarrow>
      R (fst (blocked_inner_out ef f os fuel cur b)) (fst (blocked_inner_out eg g os fuel cur b)) \<and>
      snd (blocked_inner_out ef f os fuel cur b) = blocked_inner os fuel cur b \<and>
      snd (blocked_inner_out eg g os fuel cur b) = blocked_inner os fuel cur b"
  using assms(2)
proof (induction os fuel b and os fuel cur b rule: blocked_outer_blocked_inner.induct)
  case (1 os fuel b)
  note nil = assms(1) [unfolded reports_def, THEN conjunct1]
  note app = assms(1) [unfolded reports_def, THEN conjunct2, rule_format]
  note unfold = blocked_outer_out.simps [of _ _ os fuel b] blocked_outer.simps [of os fuel b]
  show ?case
  proof (cases "halted (cpu (bmach b)) \<or> (\<exists>e. blocked_enter os b = Inl e)")
    case True
    then show ?thesis unfolding unfold by (auto simp: nil)
  next
    case False
    then obtain cur b' where e: "blocked_enter os b = Inr (cur, b')" and run: "\<not> halted (cpu (bmach b))"
      by (cases "blocked_enter os b") auto
    have "blocked_reach os s0 (Some cur) b'" by (rule at_enter [OF 1(2) run e])
    from 1(1) [OF run e refl this 1(3)] assms(3) [of b] show ?thesis
      unfolding unfold using run e by (simp add: app)
  qed
next
  case (2 os fuel cur b)
  note nil = assms(1) [unfolded reports_def, THEN conjunct1]
  note app = assms(1) [unfolded reports_def, THEN conjunct2, rule_format]
  note unfold = blocked_inner_out.simps [of _ _ os fuel cur b] blocked_inner.simps [of os fuel cur b]
  show ?case
  proof (cases fuel)
    case 0
    then show ?thesis unfolding unfold by (simp add: nil)
  next
    case (Suc n)
    from blocked_reach_chain [OF 2(3), of undefined] obtain blk where blk: "blocks b cur = Some blk"
      by (auto simp: at_ok_def)
    with 2(3,4) have same: "snd (f blk (bmach b)) = exec_block os blk (bmach b)"
      "snd (g blk (bmach b)) = exec_block os blk (bmach b)"
      and out: "R (fst (f blk (bmach b))) (fst (g blk (bmach b)))"
      by (auto simp: same_blocks_def)
    note turns = turn_out [where f = f, OF blk same(1)] turn_out [where f = g, OF blk same(2)]
    show ?thesis
    proof (cases "blocked_turn os cur b")
      case (Inl e)
      with Suc out show ?thesis unfolding unfold turns by simp
    next
      case (Inr p)
      obtain nxt b' where "p = (nxt, b')" by (cases p)
      with Inr have bt: "blocked_turn os cur b = Inr (nxt, b')" by simp
      have reach: "blocked_reach os s0 nxt b'" by (rule at_turn [OF 2(3) bt])
      show ?thesis
      proof (cases nxt)
        case None
        from 2(1) [OF Suc bt refl None] reach None 2(4) out bt Suc show ?thesis
          unfolding unfold turns by (simp add: app)
      next
        case (Some c)
        from 2(2) [OF Suc bt refl Some] reach Some 2(4) out bt Suc show ?thesis
          unfolding unfold turns by (simp add: app)
      qed
    qed
  qed
qed

lemma interpreter_blocked_out_related:
  assumes "reports R" "same_blocks R os s0 f g" "\<And>b. R (ef b) (eg b)" "\<And>b. R (xf b) (xg b)"
  shows "R (fst (interpreter_blocked_out ef f xf os fuel s0)) (fst (interpreter_blocked_out eg g xg os fuel s0)) \<and>
    snd (interpreter_blocked_out ef f xf os fuel s0) = interpreter_blocked os fuel s0 \<and>
    snd (interpreter_blocked_out eg g xg os fuel s0) = interpreter_blocked os fuel s0"
proof -
  have nil: "R [] []" and app: "R t u \<Longrightarrow> R t' u' \<Longrightarrow> R (t @ t') (u @ u')" for t u t' u'
    using assms(1) by (auto simp: reports_def)
  note rel = blocked_out_related(1) [where ef = ef and eg = eg and fuel = fuel, OF assms(1-3) at_start]
  have "R (case blocked_outer os fuel (blocked_init s0) of Some (Inr b) \<Rightarrow> xf b | _ \<Rightarrow> [])
      (case blocked_outer os fuel (blocked_init s0) of Some (Inr b) \<Rightarrow> xg b | _ \<Rightarrow> [])"
    using nil assms(4) by (simp split: option.split sum.split)
  with rel show ?thesis
    by (simp add: interpreter_blocked_out_def interpreter_blocked_def split_def Let_def app)
qed

end
