(* ===== verification/Blocked_Listing.thy ===== *)
theory Blocked_Listing
  imports Listing_Spec Blocked_Spec Blocked_Output
begin

text \<open>
  The disassembling build of the block-caching interpreter: a handler prints its line before its
  body and advances the program counter after it, and a turn does not move the program counter
  to the branch first. The listing of a run that faults ends with the line of the operation that
  faults. Decoding, the table and the loops over the blocks do not differ.
\<close>

section \<open>Executing a block\<close>

definition exec_op_dis :: "'h os \<Rightarrow> op_t \<Rightarrow> 'h machine \<Rightarrow> string \<times> 'h machine result" where
  "exec_op_dis os x s =
     (case op_op x of
        None \<Rightarrow> ([], Inl NullHandler)
      | Some i \<Rightarrow>
          (format_instr i (op_cir x) s,
           bindR (interpret_instr os i (op_cir x) s) (\<lambda>s.
             Inr (put_reg MIPS_R_PC (get_reg MIPS_R_PC s + 4) s))))"

definition exec_block_dis :: "'h os \<Rightarrow> block \<Rightarrow> 'h machine \<Rightarrow> string \<times> 'h machine result" where
  "exec_block_dis os blk s =
     bindO (unrolled_loop_out (exec_op_dis os) (blk_size blk) (blk_ops blk) s) (\<lambda>s.
       ([], Inr (put_reg MIPS_R_PC (get_reg MIPS_R_NNPC s) s)))"

definition interpreter_blocked_dis ::
  "'h os \<Rightarrow> nat \<Rightarrow> 'h machine \<Rightarrow> string \<times> 'h machine result option" where
  "interpreter_blocked_dis os fuel s =
     interpreter_blocked_out (\<lambda>_. []) (exec_block_dis os) (\<lambda>_. []) os fuel s"

text \<open>
  What the plain build executes: the address and the word of each operation that it calls, the one
  that faults included. The operations of a block stand at successive addresses.
\<close>

primrec exec_ops_trace ::
  "'h os \<Rightarrow> u32 \<Rightarrow> op_t list \<Rightarrow> 'h machine \<Rightarrow> (u32 \<times> u32) list \<times> 'h machine result" where
  "exec_ops_trace os a [] s = ([], Inr s)"
| "exec_ops_trace os a (x # ops) s = bindO ([(a, op_cir x)], exec_op os x s) (exec_ops_trace os (a + 4) ops)"

definition exec_block_trace :: "'h os \<Rightarrow> block \<Rightarrow> 'h machine \<Rightarrow> (u32 \<times> u32) list \<times> 'h machine result" where
  "exec_block_trace os blk s =
     bindO (exec_ops_trace os (get_reg MIPS_R_PC s) (block_ops blk)
         (put_reg MIPS_R_PC (branch_pc (get_reg MIPS_R_PC s) (block_ops blk)) s)) (\<lambda>s.
       ([], Inr (put_reg MIPS_R_PC (get_reg MIPS_R_NNPC s) s)))"

definition blocked_trace ::
  "'h os \<Rightarrow> nat \<Rightarrow> 'h machine \<Rightarrow> (u32 \<times> u32) list \<times> 'h machine result option" where
  "blocked_trace os fuel s = interpreter_blocked_out (\<lambda>_. []) (exec_block_trace os) (\<lambda>_. []) os fuel s"

section \<open>Straight operations and the program counter\<close>

lemma exec_op_dis_Some:
  assumes "op_op x = Some i"
  shows "exec_op_dis os x s = (format_instr i (op_cir x) s,
    bindR (exec_op os x s) (\<lambda>s'. Inr (put_reg MIPS_R_PC (get_reg MIPS_R_PC s' + 4) s')))"
  using assms by (simp add: exec_op_dis_def exec_op_def)

lemma straight_commute:
  assumes "straight_op x"
  shows "exec_op os x (put_reg MIPS_R_PC v s) = mapR (put_reg MIPS_R_PC v) (exec_op os x s)"
proof -
  from assms obtain i where "op_op x = Some i" "i \<notin> jumps"
    by (auto simp: op_test_defs is_branch_jumps)
  with pc.straight_U [OF this(2)] show ?thesis by (simp add: exec_op_def del: register_numbers)
qed

lemma exec_ops_trace_append:
  "exec_ops_trace os a (xs @ ys) s =
     bindO (exec_ops_trace os a xs s) (exec_ops_trace os (a + 4 * of_nat (length xs)) ys)"
proof (induction xs arbitrary: a s)
  case (Cons x xs)
  then show ?case by (simp add: bindO_assoc add.assoc cong: bindO_cong del: bindO_simps)
qed simp

lemma exec_ops_trace_run: "snd (exec_ops_trace os a xs s) = exec_ops os xs s"
  by (induction xs arbitrary: a s) (simp_all add: snd_bindO)

lemma straight_trace_commute:
  "list_all straight_op xs \<Longrightarrow>
     exec_ops_trace os a xs (put_reg MIPS_R_PC v s) =
       (fst (exec_ops_trace os a xs s), mapR (put_reg MIPS_R_PC v) (exec_ops os xs s))"
proof (induction xs arbitrary: a s)
  case (Cons x xs)
  then show ?case
    by (cases "exec_op os x s") (simp_all add: straight_commute del: register_numbers)
qed simp

section \<open>The lines of a block\<close>

definition reads :: "string \<Rightarrow> (u32 \<times> u32) list \<Rightarrow> bool" where
  "reads t ls \<longleftrightarrow> (\<forall>cs. map read_line (split_lines (t @ cs)) = ls @ map read_line (split_lines cs))"

lemma reads_simps:
  "reads [] []" "reads t ls \<Longrightarrow> reads t' ls' \<Longrightarrow> reads (t @ t') (ls @ ls')"
  "reads (format_instr i cir s) [(get_reg MIPS_R_PC s, cir)]"
  by (simp_all add: reads_def read_lines_instr del: register_numbers)

lemma reads_listing: "reads t ls \<Longrightarrow> map read_line (split_lines t) = ls"
  using spec [of "\<lambda>cs. map read_line (split_lines (t @ cs)) = ls @ map read_line (split_lines cs)" "[]"]
  by (simp add: reads_def)

lemma reads_bindO:
  assumes "reads (fst p) (fst q)" "snd q = snd p" "\<And>a. snd p = Inr a \<Longrightarrow> reads (fst (f a)) (fst (g a))"
  shows "reads (fst (bindO p f)) (fst (bindO q g))"
  using assms reads_simps(1,2) by (cases "snd p") (simp_all add: fst_bindO)

lemma straight_step_dis:
  assumes "straight_op x"
  shows "snd (exec_op_dis os x (put_reg MIPS_R_PC v s)) = mapR (put_reg MIPS_R_PC (v + 4)) (exec_op os x s)"
    "reads (fst (exec_op_dis os x (put_reg MIPS_R_PC v s))) [(v, op_cir x)]"
proof -
  from assms obtain i where i: "op_op x = Some i" by (auto simp: op_test_defs)
  show "snd (exec_op_dis os x (put_reg MIPS_R_PC v s)) = mapR (put_reg MIPS_R_PC (v + 4)) (exec_op os x s)"
    by (cases "exec_op os x s") (simp_all add: exec_op_dis_Some [OF i] straight_commute [OF assms] del: register_numbers)
  show "reads (fst (exec_op_dis os x (put_reg MIPS_R_PC v s))) [(v, op_cir x)]"
    using reads_simps(3) [of i "op_cir x" "put_reg MIPS_R_PC v s"] by (simp add: exec_op_dis_Some [OF i] del: register_numbers)
qed

lemma straight_run_dis:
  assumes "list_all straight_op xs"
  shows "snd (exec_all_out (exec_op_dis os) xs (put_reg MIPS_R_PC v s)) =
      mapR (put_reg MIPS_R_PC (v + 4 * of_nat (length xs))) (exec_ops os xs s) \<and>
    reads (fst (exec_all_out (exec_op_dis os) xs (put_reg MIPS_R_PC v s))) (fst (exec_ops_trace os v xs s))"
  using assms
proof (induction xs arbitrary: s v)
  case (Cons x xs)
  then have x: "straight_op x" and xs: "list_all straight_op xs" by simp_all
  note step = straight_step_dis [OF x, of os v s]
  show ?case
  proof (cases "exec_op os x s")
    case (Inl e)
    with step show ?thesis by (simp add: fst_bindO snd_bindO del: register_numbers)
  next
    case (Inr s1)
    have "v + 4 + 4 * of_nat (length xs) = v + 4 * of_nat (length (x # xs))" by simp
    with Cons.IH [OF xs, of "v + 4" s1] step Inr reads_simps(2) [OF step(2)] show ?thesis
      by (simp add: fst_bindO snd_bindO del: register_numbers)
  qed
qed (simp_all add: reads_simps)

section \<open>A whole block\<close>

text \<open>The branch and its delay slot: both builds enter the branch with the same program counter.\<close>

lemma branch_run_dis:
  assumes "branch_op b" "straight_op y"
  shows "(\<exists>v. snd (exec_all_out (exec_op_dis os) [b, y] u) = mapR (put_reg MIPS_R_PC v) (exec_ops os [b, y] u)) \<and>
    reads (fst (exec_all_out (exec_op_dis os) [b, y] u)) (fst (exec_ops_trace os (get_reg MIPS_R_PC u) [b, y] u))"
proof -
  from assms(1) obtain i where i: "op_op b = Some i" "i \<in> jumps"
    by (auto simp: op_test_defs is_branch_jumps)
  obtain u1 where u1: "exec_op os b u = Inr u1"
    using branch_total [OF i(2)] i(1) by (force simp: exec_op_def)
  with i have pc: "get_reg MIPS_R_PC u1 = get_reg MIPS_R_PC u"
    using branch_effect [OF i(2), of os "op_cir b" u u1] by (simp add: exec_op_def)
  let ?a = "get_reg MIPS_R_PC u" and ?t = "format_instr i (op_cir b) u"
  have b: "exec_op_dis os b u = (?t, Inr (put_reg MIPS_R_PC (?a + 4) u1))"
    using u1 pc by (simp add: exec_op_dis_Some [OF i(1)] del: register_numbers)
  note step = straight_step_dis [OF assms(2), of os "?a + 4" u1]
  note lines = reads_simps(2) [OF reads_simps(3) step(2), of i "op_cir b" u]
  show ?thesis
    by (cases "exec_op os y u1")
       (use b u1 step lines in \<open>auto simp: fst_bindO snd_bindO simp del: register_numbers\<close>)
qed

lemma exec_block_dis_ops:
  assumes "block_of T mem pc blk"
  shows "exec_block_dis os blk s = bindO (exec_all_out (exec_op_dis os) (block_ops blk) s) (\<lambda>s.
    ([], Inr (put_reg MIPS_R_PC (get_reg MIPS_R_NNPC s) s)))"
proof -
  from assms obtain ops x where ops: "blk_ops blk = ops @ [x]" "op_op x = None"
    "decoded T mem pc ops" "block_shape False ops" "unat (blk_size blk) = Suc (length ops)"
    by (auto simp: block_of_def)
  have "unrolled_loop_out (exec_op_dis os) (blk_size blk) (ops @ [x]) p = exec_all_out (exec_op_dis os) ops p" for p
    by (rule unrolled_loop_out_exec [OF ops(5) block_shape_nonempty [OF ops(4)] decoded_ops_some [OF ops(3)] ops(2)])
  then show ?thesis by (simp add: exec_block_dis_def block_ops_def ops(1))
qed

lemma exec_block_trace_run:
  assumes "block_of T mem (get_reg MIPS_R_PC s) blk"
  shows "snd (exec_block_trace os blk s) = exec_block os blk s"
  by (simp add: exec_block_trace_def snd_bindO exec_ops_trace_run exec_block_ops [OF assms refl] mapR_def
      del: register_numbers)

lemma one_branch_shape:
  assumes "block_shape False ops" "length (filter branch_op ops) = 1"
  obtains xs b y where "ops = xs @ [b, y]" "list_all straight_op xs" "branch_op b" "straight_op y"
proof -
  obtain xs bs y where ops: "ops = xs @ bs @ [y]" "list_all straight_op xs" "list_all branch_op bs"
    "straight_op y" "bs \<noteq> []" using assms(1) by (auto simp: block_shape_def)
  have "\<not> branch_op x" if "straight_op x" for x using that by (auto simp: op_test_defs split: option.splits)
  with ops have "filter branch_op xs = []" "filter branch_op bs = bs" "\<not> branch_op y"
    by (auto simp: list_all_iff filter_empty_conv)
  with assms(2) ops(1) have "length bs = 1" by simp
  then obtain b where "bs = [b]" by (auto simp: length_Suc_conv)
  with ops that show thesis by simp
qed

text \<open>A decoded block with one branch runs alike in both builds, although the one moves the
  program counter to the branch in advance and the other advances it with every operation; and
  its listing reads back as the addresses and words of the operations that were called.\<close>

lemma block_listing:
  assumes "block_of T mem (get_reg MIPS_R_PC s) blk" "length (filter branch_op (block_ops blk)) = 1"
  shows "snd (exec_block_dis os blk s) = exec_block os blk s \<and>
    reads (fst (exec_block_dis os blk s)) (fst (exec_block_trace os blk s))"
proof -
  let ?a = "get_reg MIPS_R_PC s" and ?dis = "exec_all_out (exec_op_dis os)"
  have "block_shape False (block_ops blk)" using assms(1) by (auto simp: block_of_def block_ops_def)
  from one_branch_shape [OF this assms(2)] obtain xs b y where ops: "block_ops blk = xs @ [b, y]"
    "list_all straight_op xs" "branch_op b" "straight_op y" .
  let ?v = "?a + 4 * of_nat (length xs)"
  let ?u = "put_reg MIPS_R_PC ?v"
  have bpc: "branch_pc ?a (xs @ [b, y]) = ?v" by (simp add: branch_pc_def)
  have start: "put_reg MIPS_R_PC ?a s = s" by (rule put_reg_unchanged) simp
  note xs = straight_run_dis [OF ops(2), of os ?a s, unfolded start]
  note by' = branch_run_dis [OF ops(3,4), of os]
  have trace: "exec_ops_trace os ?a (xs @ [b, y]) (?u s) =
      bindO (fst (exec_ops_trace os ?a xs s), mapR ?u (exec_ops os xs s)) (exec_ops_trace os ?v [b, y])"
    unfolding exec_ops_trace_append straight_trace_commute [OF ops(2)] ..
  have lines: "reads (fst (?dis (xs @ [b, y]) s)) (fst (exec_ops_trace os ?a (xs @ [b, y]) (?u s)))"
    unfolding trace exec_all_out_append
  proof (rule reads_bindO)
    fix u assume "snd (?dis xs s) = Inr u"
    with xs have "get_reg MIPS_R_PC u = ?v"
      by (cases "exec_ops os xs s") (auto simp del: register_numbers simp: get_put_reg)
    with by' [of u] show "reads (fst (?dis [b, y] u)) (fst (exec_ops_trace os ?v [b, y] u))"
      by (simp del: register_numbers exec_all_out.simps exec_ops_trace.simps)
  qed (use xs in simp_all)
  have straight: "exec_ops os xs (?u s) = mapR ?u (exec_ops os xs s)"
    using straight_trace_commute [OF ops(2), of os ?a ?v s, THEN arg_cong [where f = snd]]
    unfolding exec_ops_trace_run snd_conv .
  have "snd (exec_block_dis os blk s) = exec_block os blk s"
  proof (cases "exec_ops os xs s")
    case (Inl e)
    with xs straight show ?thesis
      unfolding exec_block_dis_ops [OF assms(1)] exec_block_ops [OF assms(1) refl] ops(1) bpc
      by (simp add: exec_all_out_append exec_ops_append snd_bindO
          del: register_numbers exec_all_out.simps exec_ops_simps)
  next
    case (Inr s1)
    from by' [of "?u s1"] obtain v where
      "snd (?dis [b, y] (?u s1)) = mapR (put_reg MIPS_R_PC v) (exec_ops os [b, y] (?u s1))" by blast
    moreover have "MIPS_R_NNPC \<noteq> MIPS_R_PC" by simp
    ultimately show ?thesis using Inr xs straight
      unfolding exec_block_dis_ops [OF assms(1)] exec_block_ops [OF assms(1) refl] ops(1) bpc
      by (cases "exec_ops os [b, y] (?u s1)")
         (simp_all add: exec_all_out_append exec_ops_append snd_bindO
          del: register_numbers exec_all_out.simps exec_ops_simps)
  qed
  moreover have "reads (fst (exec_block_dis os blk s)) (fst (exec_block_trace os blk s))"
    using lines unfolding exec_block_dis_ops [OF assms(1)] exec_block_trace_def ops(1) bpc
    by (simp add: fst_bindO del: register_numbers exec_all_out.simps exec_ops_trace.simps split: sum.split)
  ultimately show ?thesis ..
qed

text \<open>No block that the run enters has a branch in a delay slot.\<close>

definition one_branch_blocks :: "'h os \<Rightarrow> 'h machine \<Rightarrow> bool" where
  "one_branch_blocks os s0 \<longleftrightarrow>
     (\<forall>cur b blk. blocked_reach os s0 (Some cur) b \<longrightarrow> blocks b cur = Some blk \<longrightarrow>
        length (filter branch_op (block_ops blk)) = 1)"

lemma reads_reports: "reports reads"
  by (auto simp: reports_def reads_simps)

lemma blocked_same_blocks:
  assumes "one_branch_blocks os s0"
  shows "same_blocks reads os s0 (exec_block_dis os) (exec_block_trace os)"
  unfolding same_blocks_def
proof (intro allI impI)
  fix cur b blk
  assume reach: "blocked_reach os s0 (Some cur) b" and blk: "blocks b cur = Some blk"
  let ?s = "bmach b"
  from blocked_reach_chain [OF reach, of "gmem ?s"] blk have "block_of {} (gmem ?s) (get_reg MIPS_R_PC ?s) blk"
    by (auto simp: at_ok_def chain_ok_def blocks_ok_def)
  moreover have "length (filter branch_op (block_ops blk)) = 1"
    using assms reach blk by (auto simp: one_branch_blocks_def)
  ultimately show "snd (exec_block_dis os blk ?s) = exec_block os blk ?s \<and>
      snd (exec_block_trace os blk ?s) = exec_block os blk ?s \<and>
      reads (fst (exec_block_dis os blk ?s)) (fst (exec_block_trace os blk ?s))"
    using block_listing [of "{}" "gmem ?s" ?s blk os] exec_block_trace_run [of "{}" "gmem ?s" ?s blk os]
    by simp
qed

lemma exit_blocked_reach:
  "blocked_reach demo_os exit_start pos b \<Longrightarrow>
     pos = None \<and> (b = blocked_init exit_start \<or> halted (cpu (bmach b))) \<or>
     pos = Some 0 \<and> b = (blocked_init exit_start)\<lparr>blocks := [0 \<mapsto> exit_block]\<rparr>"
proof (induction rule: blocked_reach.induct)
  case (at_enter b cur b')
  then show ?case by (auto simp: exit_enter fun_upd_def)
next
  case (at_turn cur b nxt b')
  obtain s' where "exec_block demo_os exit_block exit_start = Inr s'" "halted (cpu s')"
    using exit_exec by blast
  with at_turn show ?case by (auto simp: blocked_turn_def blocked_init_def Let_def fun_upd_def)
qed simp

lemma exit_one_branch: "one_branch_blocks demo_os exit_start"
  unfolding one_branch_blocks_def
  by (auto dest!: exit_blocked_reach simp: block_ops_def exit_block_def exit_ops_def op_test_defs exit_kinds)

lemma past_blocked_reach:
  "blocked_reach demo_os past_start pos b \<Longrightarrow>
     pos = None \<and> b = blocked_init past_start \<or>
     pos = Some 0 \<and> b = (blocked_init past_start)\<lparr>blocks := [0 \<mapsto> past_block]\<rparr>"
proof (induction rule: blocked_reach.induct)
  case (at_enter b cur b')
  then show ?case by (auto simp: past_enter fun_upd_def)
next
  case (at_turn cur b nxt b')
  then show ?case by (auto simp: blocked_turn_def blocked_init_def past_exec)
qed simp

lemma past_one_branch: "one_branch_blocks demo_os past_start"
  unfolding one_branch_blocks_def
  by (auto dest!: past_blocked_reach
      simp: block_ops_def past_block_def past_ops_def exit_ops_def op_test_defs exit_kinds is_branch_def
        LABELS_BRANCH_def LABELS_BRANCH_INDIRECT_def)

lemma past_trace:
  "exec_ops_trace demo_os 0 (block_ops past_block) (put_reg MIPS_R_PC v past_start) =
     ([(0, 0x0000000c), (4, 0x0000000d)], Inl IllegalBrk)"
proof -
  have "block_ops past_block = past_ops" by (simp add: block_ops_def past_block_def)
  moreover have "regs (cpu exit_start) 2 = 4001" using exit_start_simps(1) [of 2] by (simp add: get_reg_def)
  ultimately show ?thesis
    by (simp add: past_ops_def exec_op_def itp_type_defs ITP_SYSCALL_IMPL_def mips_syscall_exit_def
        NR_exit_def ITP_BRK_IMPL_def)
qed

section \<open>Property\<close>

text \<open>C30: the disassembling build of the block-caching interpreter runs as the plain build, although
  the one moves the program counter to the branch in advance and the other advances it with every
  operation; its listing reads back as the addresses and words of the operations that the plain
  build calls, in order, when no branch is in a delay slot. The listing of a run that faults holds
  the lines of the whole blocks before the fault and of the operations of the last block up to the
  one that faults, the line of that operation included.\<close>

theorem blocked_listing:
  assumes "one_branch_blocks os s0"
  shows "snd (interpreter_blocked_dis os fuel s0) = interpreter_blocked os fuel s0 \<and>
    snd (blocked_trace os fuel s0) = interpreter_blocked os fuel s0 \<and>
    map read_line (split_lines (fst (interpreter_blocked_dis os fuel s0))) = fst (blocked_trace os fuel s0)"
proof -
  from interpreter_blocked_out_related [where ef = "\<lambda>_. []" and eg = "\<lambda>_. []" and xf = "\<lambda>_. []" and xg = "\<lambda>_. []"
      and fuel = fuel, OF reads_reports blocked_same_blocks [OF assms]] reads_simps(1)
  show ?thesis unfolding interpreter_blocked_dis_def blocked_trace_def by (auto intro: reads_listing)
qed

lemma blocked_listing_witness:
  "snd (interpreter_blocked_dis demo_os 1 past_start) = Some (Inl IllegalBrk) \<and>
    map read_line (split_lines (fst (interpreter_blocked_dis demo_os 1 past_start))) =
      [(0, 0x0000000c), (4, 0x0000000d)]"
proof -
  let ?b = "(blocked_init past_start)\<lparr>blocks := [0 \<mapsto> past_block]\<rparr>"
  have "fst (exec_block_trace demo_os past_block past_start) = [(0, 0x0000000c), (4, 0x0000000d)]"
    and "snd (exec_block_trace demo_os past_block past_start) = Inl IllegalBrk"
    by (simp_all add: exec_block_trace_def past_trace [unfolded register_numbers])
  then have "blocked_turn_out (exec_block_trace demo_os) 0 ?b = ([(0, 0x0000000c), (4, 0x0000000d)], Inl IllegalBrk)"
    by (cases "exec_block_trace demo_os past_block past_start") (simp add: blocked_turn_out_def blocked_init_def)
  then have "blocked_trace demo_os 1 past_start = ([(0, 0x0000000c), (4, 0x0000000d)], Some (Inl IllegalBrk))"
    unfolding blocked_trace_def interpreter_blocked_out_def blocked_outer_out.simps [of _ _ _ 1] past_enter
      blocked_inner_out.simps [of _ _ _ 1]
    by (simp add: blocked_init_bmach One_nat_def)
  with blocked_listing [OF past_one_branch, of 1] show ?thesis by simp
qed

end
