(* ===== verification/Loader.thy ===== *)
theory Loader
  imports Machine
begin

text \<open>
  The ELF loader of \<open>src/loader.c\<close>. The executable is an open host file: its bytes and the
  position of the next read. The structures of \<open>elf.h\<close> are read at the offsets of the 32-bit
  little-endian System V ABI. \<open>abort()\<close> is the fault \<open>LoaderAbort\<close>, a write or a read past
  the end of a host buffer is \<open>HostOverrun\<close>. The contents of a buffer fresh from \<open>malloc\<close> are
  indeterminate: the argument \<open>fresh\<close>, the byte at each index.
\<close>

section \<open>Host files\<close>

record host_file =
  contents :: "u8 list"
  file_pos :: nat

definition fseek_set :: "host_file \<Rightarrow> u32 \<Rightarrow> host_file" where
  "fseek_set f off = f\<lparr>file_pos := unat off\<rparr>"

definition fread_bytes :: "host_file \<Rightarrow> nat \<Rightarrow> u8 list \<times> host_file" where
  "fread_bytes f n =
     (let bs = take n (drop (file_pos f) (contents f))
      in (bs, f\<lparr>file_pos := file_pos f + length bs\<rparr>))"

definition guard :: "bool \<Rightarrow> fault \<Rightarrow> unit result" where
  "guard b e = (if b then Inr () else Inl e)"

text \<open>\<open>fseek\<close> and \<open>fread\<close> of exactly \<open>n\<close> bytes, a short read an \<open>abort()\<close>. The offsets are
  unsigned 32-bit values, which \<open>fseek\<close> accepts.\<close>

definition read_at :: "host_file \<Rightarrow> u32 \<Rightarrow> nat \<Rightarrow> (u8 list \<times> host_file) result" where
  "read_at elf off n =
     (let (bs, elf) = fread_bytes (fseek_set elf off) n
      in bindR (guard (length bs = n) LoaderAbort) (\<lambda>_. Inr (bs, elf)))"

section \<open>The structures of an executable\<close>

definition EM_MIPS :: u16 where "EM_MIPS = 8"
definition ELFCLASS32 :: u8 where "ELFCLASS32 = 1"
definition ELFDATA2LSB :: u8 where "ELFDATA2LSB = 1"
definition ET_EXEC :: u16 where "ET_EXEC = 2"
definition PT_LOAD :: u32 where "PT_LOAD = 1"
definition SHT_SYMTAB :: u32 where "SHT_SYMTAB = 2"
definition EI_CLASS :: nat where "EI_CLASS = 4"
definition EI_DATA :: nat where "EI_DATA = 5"

record elf_ehdr =
  e_ident :: "u8 list"
  e_type :: u16
  e_machine :: u16
  e_entry :: u32
  e_phoff :: u32
  e_shoff :: u32
  e_phentsize :: u16
  e_phnum :: u16
  e_shnum :: u16

record elf_phdr =
  p_type :: u32
  p_offset :: u32
  p_vaddr :: u32
  p_filesz :: u32
  p_memsz :: u32

record elf_shdr =
  sh_type :: u32
  sh_offset :: u32
  sh_size :: u32
  sh_link :: u32

record elf_sym =
  st_name :: u32
  st_value :: u32

definition u16_at :: "u8 list \<Rightarrow> nat \<Rightarrow> u16" where
  "u16_at bs off = word_le (take 2 (drop off bs))"

definition u32_at :: "u8 list \<Rightarrow> nat \<Rightarrow> u32" where
  "u32_at bs off = word_le (take 4 (drop off bs))"

definition ehdr_of :: "u8 list \<Rightarrow> elf_ehdr" where
  "ehdr_of bs = \<lparr>e_ident = take 16 bs, e_type = u16_at bs 16, e_machine = u16_at bs 18,
     e_entry = u32_at bs 24, e_phoff = u32_at bs 28, e_shoff = u32_at bs 32,
     e_phentsize = u16_at bs 42, e_phnum = u16_at bs 44, e_shnum = u16_at bs 48\<rparr>"

definition phdr_of :: "u8 list \<Rightarrow> elf_phdr" where
  "phdr_of bs = \<lparr>p_type = u32_at bs 0, p_offset = u32_at bs 4, p_vaddr = u32_at bs 8,
     p_filesz = u32_at bs 16, p_memsz = u32_at bs 20\<rparr>"

definition shdr_of :: "u8 list \<Rightarrow> elf_shdr" where
  "shdr_of bs = \<lparr>sh_type = u32_at bs 4, sh_offset = u32_at bs 16, sh_size = u32_at bs 20,
     sh_link = u32_at bs 24\<rparr>"

definition sym_of :: "u8 list \<Rightarrow> elf_sym" where
  "sym_of bs = \<lparr>st_name = u32_at bs 0, st_value = u32_at bs 4\<rparr>"

text \<open>A buffer of \<open>k\<close> structures of \<open>n\<close> bytes each.\<close>

definition table_of :: "nat \<Rightarrow> (u8 list \<Rightarrow> 'a) \<Rightarrow> nat \<Rightarrow> u8 list \<Rightarrow> 'a list" where
  "table_of n parse k bs = map (\<lambda>i. parse (take n (drop (n * i) bs))) [0..<k]"

section \<open>Headers\<close>

definition loader_load_ehdr :: "'h os \<Rightarrow> host_file \<Rightarrow> (elf_ehdr \<times> host_file) result" where
  "loader_load_ehdr os elf =
     bindR (guard (os_malloc os 52) LoaderAbort) (\<lambda>_.
     let (bs, elf) = fread_bytes elf 52; ehdr = ehdr_of bs
     in bindR (guard (length bs = 52) LoaderAbort) (\<lambda>_.
        bindR (guard (e_machine ehdr = EM_MIPS) LoaderAbort) (\<lambda>_.
        bindR (guard (e_ident ehdr ! EI_CLASS = ELFCLASS32) LoaderAbort) (\<lambda>_.
        bindR (guard (e_ident ehdr ! EI_DATA = ELFDATA2LSB) LoaderAbort) (\<lambda>_.
        bindR (guard (e_type ehdr = ET_EXEC) LoaderAbort) (\<lambda>_.
        Inr (ehdr, elf)))))))"

definition loader_load_phdr ::
  "'h os \<Rightarrow> host_file \<Rightarrow> elf_ehdr \<Rightarrow> (elf_phdr list \<times> host_file) result" where
  "loader_load_phdr os elf ehdr =
     (let size_phdrs = 32 * unat (e_phnum ehdr)
      in bindR (guard (os_malloc os size_phdrs) LoaderAbort) (\<lambda>_.
         bindR (read_at elf (e_phoff ehdr) size_phdrs) (\<lambda>(bs, elf).
         Inr (table_of 32 phdr_of (unat (e_phnum ehdr)) bs, elf))))"

definition loader_load_shdr ::
  "'h os \<Rightarrow> host_file \<Rightarrow> elf_ehdr \<Rightarrow> (elf_shdr list \<times> host_file) result" where
  "loader_load_shdr os elf ehdr =
     (let size_shdrs = 40 * unat (e_shnum ehdr)
      in bindR (guard (os_malloc os size_shdrs) LoaderAbort) (\<lambda>_.
         bindR (read_at elf (e_shoff ehdr) size_shdrs) (\<lambda>(bs, elf).
         Inr (table_of 40 shdr_of (unat (e_shnum ehdr)) bs, elf))))"

text \<open>Both buffers are allocated before either is read.\<close>

definition loader_load_symbols ::
  "'h os \<Rightarrow> host_file \<Rightarrow> elf_shdr \<Rightarrow> elf_shdr \<Rightarrow> (elf_sym list \<times> u8 list \<times> host_file) result" where
  "loader_load_symbols os elf symtab_hdr strtab_hdr =
     (let n = unat (sh_size symtab_hdr); m = unat (sh_size strtab_hdr)
      in bindR (guard (os_malloc os n \<and> os_malloc os m) LoaderAbort) (\<lambda>_.
         bindR (read_at elf (sh_offset symtab_hdr) n) (\<lambda>(symbols, elf).
         bindR (read_at elf (sh_offset strtab_hdr) m) (\<lambda>(strings, elf).
         Inr (table_of 16 sym_of (n div 16) symbols, strings, elf)))))"

section \<open>Segments\<close>

text \<open>One turn of the loop, for a \<open>PT_LOAD\<close> header. The bytes of the buffer behind those read
  are indeterminate; all \<open>p_memsz\<close> are copied, then those behind the file's are cleared.\<close>

definition load_segment ::
  "'h os \<Rightarrow> (nat \<Rightarrow> u8) \<Rightarrow> elf_phdr \<Rightarrow> memory \<times> host_file \<Rightarrow> (memory \<times> host_file) result" where
  "load_segment os fresh phdr = (\<lambda>(mem, elf).
     let top = p_vaddr phdr + p_memsz phdr;
         mem = (if top > brk_heap_start mem
                then mem\<lparr>brk_heap_start := top, brk_heap_end := top\<rparr> else mem)
     in bindR (memory_allocate (os_calloc os) mem (p_vaddr phdr) (p_memsz phdr)) (\<lambda>mem.
        bindR (guard (os_malloc os (unat (p_memsz phdr))) LoaderAbort) (\<lambda>_.
        let (bs, elf) = fread_bytes (fseek_set elf (p_offset phdr)) (unat (p_filesz phdr));
            buffer = bs @ map fresh [length bs..<unat (p_memsz phdr)]
        in bindR (guard (length bs \<le> unat (p_memsz phdr)) HostOverrun) (\<lambda>_.
           bindR (guard (length bs = unat (p_filesz phdr)) LoaderAbort) (\<lambda>_.
           bindR (memory_copy_write mem (p_vaddr phdr) (p_memsz phdr) buffer) (\<lambda>mem.
           bindR (if p_memsz phdr > p_filesz phdr
                  then memory_set mem (p_vaddr phdr + p_filesz phdr)
                         (p_memsz phdr - p_filesz phdr) 0
                  else Inr mem) (\<lambda>mem.
           Inr (mem, elf))))))))"

fun loader_load_segments ::
  "'h os \<Rightarrow> (nat \<Rightarrow> u8) \<Rightarrow> elf_phdr list \<Rightarrow> memory \<times> host_file \<Rightarrow> (memory \<times> host_file) result" where
  "loader_load_segments os fresh [] s = Inr s"
| "loader_load_segments os fresh (phdr # phdrs) s =
     (if p_type phdr \<noteq> PT_LOAD then loader_load_segments os fresh phdrs s
      else bindR (load_segment os fresh phdr s) (loader_load_segments os fresh phdrs))"

section \<open>Registers\<close>

definition loader_load_pc :: "elf_ehdr \<Rightarrow> mips \<Rightarrow> mips" where
  "loader_load_pc ehdr m =
     (let m = set_reg MIPS_R_PC (e_entry ehdr) m;
          m = set_reg MIPS_R_NPC (regs m MIPS_R_PC + 4) m
      in set_reg MIPS_R_NNPC (regs m MIPS_R_PC + 8) m)"

text \<open>\<open>!strcmp(s, t)\<close> where \<open>s\<close> is the rest of a buffer and \<open>t\<close> a literal, both with their
  \<open>NUL\<close>.\<close>

fun same_string :: "u8 list \<Rightarrow> u8 list \<Rightarrow> bool result" where
  "same_string [] _ = Inl HostOverrun"
| "same_string _ [] = Inl HostOverrun"
| "same_string (b # bs) (c # cs) =
     (if b \<noteq> c then Inr False else if c = 0 then Inr True else same_string bs cs)"

definition gp_name :: "u8 list" where
  "gp_name = map (of_nat \<circ> of_char) ''_gp'' @ [0]"

definition gnu_local_gp_name :: "u8 list" where
  "gnu_local_gp_name = map (of_nat \<circ> of_char) ''__gnu_local_gp'' @ [0]"

definition is_gp_symbol :: "u8 list \<Rightarrow> elf_sym \<Rightarrow> bool result" where
  "is_gp_symbol strings symbol =
     (let symbol_name = drop (unat (st_name symbol)) strings
      in bindR (same_string symbol_name gp_name) (\<lambda>eq.
         if eq then Inr True else same_string symbol_name gnu_local_gp_name))"

fun find_gp :: "u8 list \<Rightarrow> elf_sym list \<Rightarrow> u32 option result" where
  "find_gp strings [] = Inr None"
| "find_gp strings (symbol # symbols) =
     bindR (is_gp_symbol strings symbol) (\<lambda>loaded_gp.
     if loaded_gp then Inr (Some (st_value symbol)) else find_gp strings symbols)"

text \<open>The loop over the section headers: \<open>hs\<close> are those still to come.\<close>

fun search_sections ::
  "'h os \<Rightarrow> elf_shdr list \<Rightarrow> host_file \<Rightarrow> elf_shdr list \<Rightarrow> (u32 option \<times> host_file) result" where
  "search_sections os shdr elf [] = Inr (None, elf)"
| "search_sections os shdr elf (h # hs) =
     (if sh_type h \<noteq> SHT_SYMTAB then search_sections os shdr elf hs
      else bindR (guard (unat (sh_link h) < length shdr) HostOverrun) (\<lambda>_.
           bindR (loader_load_symbols os elf h (shdr ! unat (sh_link h))) (\<lambda>(symbols, strings, elf).
           bindR (find_gp strings symbols) (\<lambda>gp.
           case gp of
             Some v \<Rightarrow> Inr (Some v, elf)
           | None \<Rightarrow> search_sections os shdr elf hs))))"

definition loader_load_gp ::
  "'h os \<Rightarrow> host_file \<Rightarrow> elf_shdr list \<Rightarrow> mips \<Rightarrow> (mips \<times> host_file) result" where
  "loader_load_gp os elf shdr m =
     bindR (search_sections os shdr elf shdr) (\<lambda>(gp, elf).
     case gp of
       None \<Rightarrow> Inl LoaderAbort
     | Some v \<Rightarrow> Inr (set_reg MIPS_R_GP v m, elf))"

section \<open>The stack\<close>

text \<open>\<open>memory_write_u32(memory, (mips->r[MIPS_R_SP] -= 4), v)\<close>.\<close>

definition push_word :: "u32 \<Rightarrow> 'h machine \<Rightarrow> 'h machine result" where
  "push_word v s =
     (let s = put_reg MIPS_R_SP (get_reg MIPS_R_SP s - 4) s
      in upd_mem (\<lambda>mem. memory_write_u32 mem (get_reg MIPS_R_SP s) v) s)"

fun push_words :: "u32 list \<Rightarrow> 'h machine \<Rightarrow> 'h machine result" where
  "push_words [] s = Inr s"
| "push_words (v # vs) s = bindR (push_word v s) (push_words vs)"

definition auxv :: "elf_ehdr \<Rightarrow> u32 \<Rightarrow> u32 \<Rightarrow> (u32 \<times> u32) list" where
  "auxv ehdr random_ptr name_ptr =
     [(6, 4096), (25, random_ptr), (3, 0x400000 + e_phoff ehdr), (4, ucast (e_phentsize ehdr)),
      (5, ucast (e_phnum ehdr)), (31, name_ptr), (0, 0)]"

definition random_words :: "u32 list" where
  "random_words = [0xdeadbeef, 0x12345678, 0x87654321, 0xfacefeed]"

definition emulator_name :: "u8 list" where
  "emulator_name = map (of_nat \<circ> of_char) ''emulator'' @ [0]"

definition loader_load_sp :: "'h os \<Rightarrow> elf_ehdr \<Rightarrow> 'h machine \<Rightarrow> 'h machine result" where
  "loader_load_sp os ehdr s =
     bindR (upd_mem (\<lambda>mem. memory_allocate (os_calloc os) mem STACK_BOT (STACK_SIZE + 1)) s) (\<lambda>s.
     bindR (upd_mem (\<lambda>mem. memory_set mem STACK_BOT (STACK_SIZE + 1) 0) s) (\<lambda>s.
     let random_ptr = STACK_TOP - 16;
         s = put_reg MIPS_R_SP random_ptr s
     in bindR (upd_mem (\<lambda>mem. memory_copy_write mem random_ptr 16
                 (concat (map (bytes_le 4) random_words))) s) (\<lambda>s.
     let name_ptr = get_reg MIPS_R_SP s - 8;
         s = put_reg MIPS_R_SP name_ptr s
     in bindR (upd_mem (\<lambda>mem. memory_copy_write mem name_ptr 8 emulator_name) s) (\<lambda>s.
     let s = put_reg MIPS_R_SP (get_reg MIPS_R_SP s AND NOT 0xF) s
     in bindR (push_words (concat (map (\<lambda>(ty, v). [v, ty]) (rev (auxv ehdr random_ptr name_ptr)))) s)
          (push_words [0, 0, name_ptr, 1])))))"

section \<open>The loader\<close>

text \<open>The file is what \<open>fopen\<close> returns, \<open>None\<close> for \<open>NULL\<close>.\<close>

definition loader_elf ::
  "'h os \<Rightarrow> (nat \<Rightarrow> u8) \<Rightarrow> host_file option \<Rightarrow> 'h machine \<Rightarrow> 'h machine result" where
  "loader_elf os fresh file s =
     (case file of
        None \<Rightarrow> Inl LoaderAbort
      | Some elf \<Rightarrow>
          bindR (loader_load_ehdr os elf) (\<lambda>(ehdr, elf).
          bindR (loader_load_phdr os elf ehdr) (\<lambda>(phdr, elf).
          bindR (loader_load_shdr os elf ehdr) (\<lambda>(shdr, elf).
          bindR (loader_load_segments os fresh phdr (gmem s, elf)) (\<lambda>(mem, elf).
          let s = s\<lparr>gmem := mem, cpu := loader_load_pc ehdr (cpu s)\<rparr>
          in bindR (loader_load_gp os elf shdr (cpu s)) (\<lambda>(m, elf).
             loader_load_sp os ehdr (s\<lparr>cpu := m\<rparr>)))))))"

end
