(* ===== verification/Loader_Spec.thy ===== *)
theory Loader_Spec
  imports Loader Examples Syscalls
begin

text \<open>
  What the loader establishes: the segments of the executable in guest memory, the start of the
  heap behind them, the initial stack and the initial registers.
\<close>

section \<open>Lemmas\<close>

lemma guard_InrD [simp]: "guard b e = Inr u \<longleftrightarrow> b"
  by (simp add: guard_def)

lemma guard_True [simp]: "guard True e = Inr ()"
  by (simp add: guard_def)

subsection \<open>Segments\<close>

text \<open>What a segment shows at an address: the bytes of the file, zeros behind them.\<close>

definition segment_byte :: "u8 list \<Rightarrow> elf_phdr \<Rightarrow> (u32 \<Rightarrow> u8) \<Rightarrow> u32 \<Rightarrow> u8" where
  "segment_byte file phdr old x =
     (let k = unat (x - p_vaddr phdr)
      in if k < unat (p_filesz phdr) then file ! (unat (p_offset phdr) + k)
         else if k < unat (p_memsz phdr) then 0 else old x)"

fun segment_image :: "u8 list \<Rightarrow> elf_phdr list \<Rightarrow> (u32 \<Rightarrow> u8) \<Rightarrow> u32 \<Rightarrow> u8" where
  "segment_image file [] old = old"
| "segment_image file (phdr # phdrs) old =
     segment_image file phdrs (if p_type phdr = PT_LOAD then segment_byte file phdr old else old)"

definition segment_top :: "elf_phdr \<Rightarrow> u32" where
  "segment_top phdr = p_vaddr phdr + p_memsz phdr"

lemma load_segmentE:
  assumes "load_segment os fresh phdr (mem, elf) = Inr (mem', elf')"
  obtains m0 m1 m2 bs where
    "m0 = (if brk_heap_start mem < segment_top phdr
       then mem\<lparr>brk_heap_start := segment_top phdr, brk_heap_end := segment_top phdr\<rparr> else mem)"
    "memory_allocate (os_calloc os) m0 (p_vaddr phdr) (p_memsz phdr) = Inr m1"
    "bs = take (unat (p_filesz phdr)) (drop (unat (p_offset phdr)) (contents elf))"
    "length bs = unat (p_filesz phdr)" "unat (p_filesz phdr) \<le> unat (p_memsz phdr)"
    "memory_copy_write m1 (p_vaddr phdr) (p_memsz phdr)
       (bs @ map fresh [length bs..<unat (p_memsz phdr)]) = Inr m2"
    "(if p_filesz phdr < p_memsz phdr
      then memory_set m2 (p_vaddr phdr + p_filesz phdr) (p_memsz phdr - p_filesz phdr) 0
      else Inr m2) = Inr mem'"
    "contents elf' = contents elf"
  using assms
  unfolding load_segment_def fread_bytes_def fseek_set_def Let_def segment_top_def [symmetric]
  by (simp only: prod.case bindR_eq_Inr_iff guard_InrD) (fastforce split: prod.splits)

lemma load_segment_InrD:
  assumes "load_segment os fresh phdr (mem, elf) = Inr (mem', elf')"
  shows "byte_at mem' x = segment_byte (contents elf) phdr (byte_at mem) x"
    and "mapped mem x \<Longrightarrow> mapped mem' x"
    and "unat (x - p_vaddr phdr) < unat (p_memsz phdr) \<Longrightarrow> mapped mem' x"
    and "contents elf' = contents elf"
    and "unat (p_filesz phdr) \<le> unat (p_memsz phdr)"
    and "unat (p_filesz phdr) \<le> length (drop (unat (p_offset phdr)) (contents elf))"
    and "heap_bounds mem' =
      (if brk_heap_start mem < segment_top phdr
       then (segment_top phdr, segment_top phdr, mmap_heap_start mem, mmap_heap_end mem)
       else heap_bounds mem)"
proof -
  from assms obtain m0 m1 m2 bs where m0: "m0 = (if brk_heap_start mem < segment_top phdr
       then mem\<lparr>brk_heap_start := segment_top phdr, brk_heap_end := segment_top phdr\<rparr> else mem)"
    and m1: "memory_allocate (os_calloc os) m0 (p_vaddr phdr) (p_memsz phdr) = Inr m1"
    and bs: "bs = take (unat (p_filesz phdr)) (drop (unat (p_offset phdr)) (contents elf))"
    and len: "length bs = unat (p_filesz phdr)" and le: "unat (p_filesz phdr) \<le> unat (p_memsz phdr)"
    and m2: "memory_copy_write m1 (p_vaddr phdr) (p_memsz phdr)
       (bs @ map fresh [length bs..<unat (p_memsz phdr)]) = Inr m2"
    and last: "(if p_filesz phdr < p_memsz phdr
      then memory_set m2 (p_vaddr phdr + p_filesz phdr) (p_memsz phdr - p_filesz phdr) 0
      else Inr m2) = Inr mem'"
    and same: "contents elf' = contents elf"
    by (rule load_segmentE)
  have le': "p_filesz phdr \<le> p_memsz phdr" using le by (simp add: word_le_nat_alt)
  let ?k = "unat (x - p_vaddr phdr)"
  have z: "mapped mem' x = mapped m2 x \<and> heap_bounds mem' = heap_bounds m2 \<and>
      byte_at mem' x = (if unat (p_filesz phdr) \<le> ?k \<and> ?k < unat (p_memsz phdr) then 0 else byte_at m2 x)"
  proof (cases "p_filesz phdr < p_memsz phdr")
    case True
    with last have s: "memory_set m2 (p_vaddr phdr + p_filesz phdr) (p_memsz phdr - p_filesz phdr) 0 = Inr mem'"
      by simp
    from memory_set_InrD(2,3) [OF s, of x] memory_set_InrD(4) [OF s] range_split(1) [OF le', of x "p_vaddr phdr"]
    show ?thesis by simp
  next
    case False
    with le' have "p_filesz phdr = p_memsz phdr" by simp
    with False last show ?thesis by auto
  qed
  note c = memory_copy_write_InrD [OF m2, of x]
  note al = memory_allocate_flat [OF m1]
  have b0: "byte_at m0 x = byte_at mem x" "mapped m0 x = mapped mem x"
    by (simp_all add: m0 byte_at_def mapped_def page_at_def)
  have from_file: "bs ! k = contents elf ! (unat (p_offset phdr) + k)" if "k < unat (p_filesz phdr)" for k
    using that len bs by (simp add: nth_take)
  show "byte_at mem' x = segment_byte (contents elf) phdr (byte_at mem) x"
    using z c al(2) [of x] b0 le len
    by (auto simp: segment_byte_def Let_def nth_append from_file)
  show "mapped mem' x" if "mapped mem x"
    using z c al(1) [of x] b0 that by simp
  show "mapped mem' x" if k: "?k < unat (p_memsz phdr)"
  proof -
    have "mapped_range m1 (p_vaddr phdr) (p_memsz phdr)"
      using memory_copy_write_result [of "p_memsz phdr" "bs @ map fresh [length bs..<unat (p_memsz phdr)]" m1 "p_vaddr phdr"]
        m2 len le by auto
    with k have "mapped m1 (p_vaddr phdr + of_nat ?k)" unfolding mapped_range_def by blast
    then show ?thesis using z c by simp
  qed
  show "contents elf' = contents elf" by (rule same)
  show "unat (p_filesz phdr) \<le> unat (p_memsz phdr)" by (rule le)
  show "unat (p_filesz phdr) \<le> length (drop (unat (p_offset phdr)) (contents elf))"
    using len bs by simp
  show "heap_bounds mem' =
      (if brk_heap_start mem < segment_top phdr
       then (segment_top phdr, segment_top phdr, mmap_heap_start mem, mmap_heap_end mem)
       else heap_bounds mem)"
    using z c al(3) by (simp add: m0 heap_bounds_def)
qed

text \<open>The start of the heap after the segments.\<close>

fun heap_top :: "u32 \<Rightarrow> elf_phdr list \<Rightarrow> u32" where
  "heap_top b [] = b"
| "heap_top b (phdr # phdrs) =
     heap_top (if p_type phdr = PT_LOAD then max b (segment_top phdr) else b) phdrs"

lemma heap_top_ge: "b \<le> heap_top b phdrs"
proof (induction phdrs arbitrary: b)
  case (Cons phdr phdrs)
  show ?case using Cons [of b] Cons [of "max b (segment_top phdr)"] by (auto elim: order_trans)
qed simp

lemma heap_top_above:
  "phdr \<in> set phdrs \<Longrightarrow> p_type phdr = PT_LOAD \<Longrightarrow> segment_top phdr \<le> heap_top b phdrs"
proof (induction phdrs arbitrary: b)
  case (Cons ph phs)
  then show ?case using heap_top_ge [of "max b (segment_top ph)" phs] by (auto elim: order_trans)
qed simp

lemma loader_load_segments_InrD:
  assumes "loader_load_segments os fresh phdrs (mem, elf) = Inr (mem', elf')"
  shows "contents elf' = contents elf"
    and "byte_at mem' x = segment_image (contents elf) phdrs (byte_at mem) x"
    and "mapped mem x \<Longrightarrow> mapped mem' x"
    and "\<forall>phdr \<in> set phdrs. p_type phdr = PT_LOAD \<longrightarrow>
      unat (x - p_vaddr phdr) < unat (p_memsz phdr) \<longrightarrow> mapped mem' x"
    and "brk_heap_start mem' = heap_top (brk_heap_start mem) phdrs"
    and "brk_heap_end mem = brk_heap_start mem \<Longrightarrow> brk_heap_end mem' = brk_heap_start mem'"
    and "mmap_heap_start mem' = mmap_heap_start mem \<and> mmap_heap_end mem' = mmap_heap_end mem"
proof -
  have "contents elf' = contents elf \<and>
      byte_at mem' = segment_image (contents elf) phdrs (byte_at mem) \<and>
      (mapped mem x \<longrightarrow> mapped mem' x) \<and>
      (\<forall>phdr \<in> set phdrs. p_type phdr = PT_LOAD \<longrightarrow>
        unat (x - p_vaddr phdr) < unat (p_memsz phdr) \<longrightarrow> mapped mem' x) \<and>
      brk_heap_start mem' = heap_top (brk_heap_start mem) phdrs \<and>
      (brk_heap_end mem = brk_heap_start mem \<longrightarrow> brk_heap_end mem' = brk_heap_start mem') \<and>
      mmap_heap_start mem' = mmap_heap_start mem \<and> mmap_heap_end mem' = mmap_heap_end mem"
    using assms
  proof (induction phdrs arbitrary: mem elf)
    case (Cons ph phs)
    show ?case
    proof (cases "p_type ph = PT_LOAD")
      case False
      with Cons show ?thesis by simp
    next
      case True
      with Cons.prems obtain m1 elf1 where seg: "load_segment os fresh ph (mem, elf) = Inr (m1, elf1)"
        and rest: "loader_load_segments os fresh phs (m1, elf1) = Inr (mem', elf')"
        by (auto elim: bindR_InrE)
      note d = load_segment_InrD [OF seg]
      have bytes: "byte_at m1 = segment_byte (contents elf) ph (byte_at mem)"
        by (rule ext) (rule d(1))
      note IH = Cons.IH [OF rest]
      have bounds: "brk_heap_start m1 = max (brk_heap_start mem) (segment_top ph) \<and>
          (brk_heap_end mem = brk_heap_start mem \<longrightarrow> brk_heap_end m1 = brk_heap_start m1) \<and>
          mmap_heap_start m1 = mmap_heap_start mem \<and> mmap_heap_end m1 = mmap_heap_end mem"
        using d(7) by (auto simp: heap_bounds_def max_def split: if_splits)
      show ?thesis using IH bounds d(2,3) [of x] d(4) True by (simp add: bytes)
    qed
  qed simp
  then show "contents elf' = contents elf"
    and "byte_at mem' x = segment_image (contents elf) phdrs (byte_at mem) x"
    and "mapped mem x \<Longrightarrow> mapped mem' x"
    and "\<forall>phdr \<in> set phdrs. p_type phdr = PT_LOAD \<longrightarrow>
      unat (x - p_vaddr phdr) < unat (p_memsz phdr) \<longrightarrow> mapped mem' x"
    and "brk_heap_start mem' = heap_top (brk_heap_start mem) phdrs"
    and "brk_heap_end mem = brk_heap_start mem \<Longrightarrow> brk_heap_end mem' = brk_heap_start mem'"
    and "mmap_heap_start mem' = mmap_heap_start mem \<and> mmap_heap_end mem' = mmap_heap_end mem"
    by simp_all
qed

subsection \<open>Pushing words\<close>

lemma read_u32_cong:
  assumes "mapped mem' a = mapped mem a"
    and "\<And>k. k < 4 \<Longrightarrow> byte_at mem' (a + of_nat k) = byte_at mem (a + of_nat k)"
  shows "memory_read_u32 mem' a = memory_read_u32 mem a"
proof -
  have "map (\<lambda>k. byte_at mem' (a + of_nat k)) [0..<4] = map (\<lambda>k. byte_at mem (a + of_nat k)) [0..<4]"
    using assms(2) by (intro map_cong) auto
  then show ?thesis using assms(1) by (simp only: memory_read_u32_def load_bytes_eq)
qed

lemma near_above:
  assumes "unat (y :: u32) + n \<le> 2 ^ 32" "unat (x - y) < n"
  shows "unat y \<le> unat x \<and> unat x < unat y + n"
  using assms unat_u32_less [of x] by (auto simp: unat_sub_if' split: if_splits)

text \<open>The memory below the stack pointer \<open>sp\<close> after the words \<open>vs\<close> were pushed.\<close>

definition pushed :: "memory \<Rightarrow> u32 \<Rightarrow> u32 list \<Rightarrow> memory \<Rightarrow> bool" where
  "pushed mem sp vs mem' \<longleftrightarrow>
     (\<forall>x. mapped mem' x = mapped mem x) \<and> heap_bounds mem' = heap_bounds mem \<and>
     (\<forall>x. \<not> (unat sp - 4 * length vs \<le> unat x \<and> unat x < unat sp) \<longrightarrow> byte_at mem' x = byte_at mem x) \<and>
     (\<forall>i < length vs. memory_read_u32 mem' (sp - 4 * of_nat (Suc i)) = Inr (vs ! i))"

lemma push_word_ok:
  assumes "4 \<le> unat (get_reg MIPS_R_SP s)" "unat (get_reg MIPS_R_SP s) mod 4 = 0"
    and "mapped (gmem s) (get_reg MIPS_R_SP s - 4)"
  shows "\<exists>mem'. push_word v s = Inr (s\<lparr>cpu := set_reg MIPS_R_SP (get_reg MIPS_R_SP s - 4) (cpu s),
      gmem := mem'\<rparr>) \<and> pushed (gmem s) (get_reg MIPS_R_SP s) [v] mem'"
proof -
  let ?sp = "get_reg MIPS_R_SP s"
  have sp: "unat (?sp - 4) = unat ?sp - 4"
    using assms(1) by (simp add: unat_sub word_le_nat_alt)
  have "unat (?sp - 4) mod 4 = 0" using assms(1,2) sp by presburger
  then obtain mem' where st: "memory_write_u32 (gmem s) (?sp - 4) v = Inr mem'"
    using paged.store_ok [of "gmem s" "?sp - 4" "bytes_le 4 v"] assms(3)
    by (auto simp: memory_write_u32_def aligned_in_page)
  note d = store_bytes_InrD [OF st [unfolded memory_write_u32_def]]
  have bytes: "byte_at mem' x = byte_at (gmem s) x"
    if "\<not> (unat ?sp - 4 \<le> unat x \<and> unat x < unat ?sp)" for x
  proof -
    have "unat (?sp - 4) + 4 \<le> 2 ^ 32" using assms(1) unat_u32_less [of ?sp] unfolding sp by simp
    from near_above [OF this, of x] have "\<not> unat (x - (?sp - 4)) < 4"
      using that assms(1) unfolding sp by linarith
    then show ?thesis
      by (simp add: paged.store_byte [OF st [unfolded memory_write_u32_def], of x])
  qed
  have "push_word v s = Inr (s\<lparr>cpu := set_reg MIPS_R_SP (?sp - 4) (cpu s), gmem := mem'\<rparr>)"
    using st by (simp add: push_word_def Let_def upd_mem_def put_reg_def upd_cpu_def get_reg_def)
  moreover have "pushed (gmem s) ?sp [v] mem'"
    using d bytes memory_write_read_u32 [OF st] by (simp add: pushed_def)
  ultimately show ?thesis by blast
qed

lemma push_words_ok:
  assumes "4 * length vs \<le> unat (get_reg MIPS_R_SP s)" "unat (get_reg MIPS_R_SP s) mod 4 = 0"
    and "\<And>x. unat (get_reg MIPS_R_SP s) - 4 * length vs \<le> unat x \<Longrightarrow>
      unat x < unat (get_reg MIPS_R_SP s) \<Longrightarrow> mapped (gmem s) x"
  shows "\<exists>mem'. push_words vs s =
      Inr (s\<lparr>cpu := set_reg MIPS_R_SP (get_reg MIPS_R_SP s - 4 * of_nat (length vs)) (cpu s), gmem := mem'\<rparr>) \<and>
      pushed (gmem s) (get_reg MIPS_R_SP s) vs mem'"
  using assms
proof (induction vs arbitrary: s)
  case Nil
  have "set_reg MIPS_R_SP (get_reg MIPS_R_SP s) (cpu s) = cpu s"
    by (simp add: set_reg_def get_reg_def)
  then show ?case by (intro exI [of _ "gmem s"]) (simp add: pushed_def)
next
  case (Cons v vs)
  let ?sp = "get_reg MIPS_R_SP s"
  have sp4: "unat (?sp - 4) = unat ?sp - 4"
    using Cons.prems(1) by (simp add: unat_sub word_le_nat_alt)
  have "mapped (gmem s) (?sp - 4)"
    by (rule Cons.prems(3)) (use Cons.prems(1) in \<open>unfold sp4, simp_all\<close>)
  with push_word_ok [of s v] Cons.prems(1,2) obtain m1
    where p1: "push_word v s = Inr (s\<lparr>cpu := set_reg MIPS_R_SP (?sp - 4) (cpu s), gmem := m1\<rparr>)"
      and f1: "pushed (gmem s) ?sp [v] m1" by auto
  let ?s1 = "s\<lparr>cpu := set_reg MIPS_R_SP (?sp - 4) (cpu s), gmem := m1\<rparr>"
  have sp1: "get_reg MIPS_R_SP ?s1 = ?sp - 4" by (simp add: get_reg_def)
  have "\<exists>mem'. push_words vs ?s1 =
      Inr (?s1\<lparr>cpu := set_reg MIPS_R_SP (get_reg MIPS_R_SP ?s1 - 4 * of_nat (length vs)) (cpu ?s1), gmem := mem'\<rparr>) \<and>
      pushed (gmem ?s1) (get_reg MIPS_R_SP ?s1) vs mem'"
  proof (rule Cons.IH)
    show "4 * length vs \<le> unat (get_reg MIPS_R_SP ?s1)" using Cons.prems(1) unfolding sp1 sp4 by simp
    show "unat (get_reg MIPS_R_SP ?s1) mod 4 = 0"
      using Cons.prems(1,2) unfolding sp1 sp4 by (simp add: le_mod_geq [symmetric])
    show "mapped (gmem ?s1) x" if "unat (get_reg MIPS_R_SP ?s1) - 4 * length vs \<le> unat x"
      "unat x < unat (get_reg MIPS_R_SP ?s1)" for x
      using that f1 Cons.prems(3) [of x] unfolding sp1 sp4 by (simp add: pushed_def)
  qed
  then obtain mem' where p2: "push_words vs ?s1 =
      Inr (s\<lparr>cpu := set_reg MIPS_R_SP (?sp - 4 - 4 * of_nat (length vs)) (cpu s), gmem := mem'\<rparr>)"
    and f2: "pushed m1 (?sp - 4) vs mem'"
    unfolding sp1 by auto
  have first: "memory_read_u32 mem' (?sp - 4) = Inr v"
  proof -
    have "memory_read_u32 mem' (?sp - 4) = memory_read_u32 m1 (?sp - 4)"
    proof (rule read_u32_cong)
      show "mapped mem' (?sp - 4) = mapped m1 (?sp - 4)" using f2 by (simp add: pushed_def)
      fix k :: nat assume k: "k < 4"
      have "unat (?sp - 4) + 4 \<le> 2 ^ 32"
        using sp4 Cons.prems(1) unat_u32_less [of ?sp] by simp
      from unat_add_below [OF this k] have "\<not> unat (?sp - 4 + of_nat k) < unat (?sp - 4)" by simp
      with f2 show "byte_at mem' (?sp - 4 + of_nat k) = byte_at m1 (?sp - 4 + of_nat k)"
        unfolding pushed_def by blast
    qed
    then show ?thesis using f1 by (simp add: pushed_def)
  qed
  have "memory_read_u32 mem' (?sp - 4 * of_nat (Suc i)) = Inr ((v # vs) ! i)"
    if "i < length (v # vs)" for i
  proof (cases i)
    case 0
    with first show ?thesis by simp
  next
    case (Suc j)
    with that f2 have "memory_read_u32 mem' (?sp - 4 - 4 * of_nat (Suc j)) = Inr (vs ! j)"
      by (simp add: pushed_def)
    then show ?thesis by (simp add: Suc algebra_simps)
  qed
  moreover have "byte_at mem' x = byte_at (gmem s) x"
    if "\<not> (unat ?sp - 4 * length (v # vs) \<le> unat x \<and> unat x < unat ?sp)" for x
  proof -
    have "\<not> (unat ?sp - 4 - 4 * length vs \<le> unat x \<and> unat x < unat ?sp - 4)"
      "\<not> (unat ?sp - 4 \<le> unat x \<and> unat x < unat ?sp)"
      using that by auto
    with f1 f2 show ?thesis unfolding pushed_def sp4 by simp
  qed
  ultimately have "pushed (gmem s) ?sp (v # vs) mem'"
    using f1 f2 by (simp add: pushed_def)
  with p1 p2 show ?case by (auto simp: algebra_simps)
qed

lemma push_words_append:
  fixes s :: "'h machine"
  shows "push_words (xs @ ys) s = bindR (push_words xs s) (push_words ys)"
proof (induction xs arbitrary: s)
  case (Cons v vs)
  have "push_words (vs @ ys) = (\<lambda>s :: 'h machine. bindR (push_words vs s) (push_words ys))" by (rule ext) (rule Cons)
  then show ?case by (simp add: bindR_assoc)
qed simp

subsection \<open>The stack\<close>

definition stack_words :: "elf_ehdr \<Rightarrow> u32 list" where
  "stack_words ehdr = [1, 0x7fffffe8, 0, 0] @ concat (map (\<lambda>(ty, v). [ty, v]) (auxv ehdr 0x7ffffff0 0x7fffffe8))"

definition stack_strings :: "u8 list" where
  "stack_strings = take 8 emulator_name @ concat (map (bytes_le 4) random_words)"

lemma stack_words_pushed:
  "concat (map (\<lambda>(ty, v). [v, ty]) (rev (auxv ehdr r n))) @ [0, 0, n, 1] =
     rev ([1, n, 0, 0] @ concat (map (\<lambda>(ty, v). [ty, v]) (auxv ehdr r n)))"
  by (simp add: auxv_def)

lemma length_stack_words: "length (stack_words ehdr) = 18"
  by (simp add: stack_words_def auxv_def)

text \<open>The memory before the words are pushed.\<close>

definition stack_cleared :: "memory \<Rightarrow> memory \<Rightarrow> bool" where
  "stack_cleared mem mem' \<longleftrightarrow>
     (\<forall>x. mapped mem' x \<longleftrightarrow> mapped mem x \<or> 0x7fff0 \<le> page_no x \<and> page_no x \<le> 0x80000) \<and>
     heap_bounds mem' = heap_bounds mem \<and>
     (\<forall>x. byte_at mem' x =
       (if unat (x - 0x7fffffe8) < 24 then stack_strings ! unat (x - 0x7fffffe8)
        else if unat (x - 0x7fff0000) < 0x10001 then 0 else byte_at mem x))"

lemma copy_write_ok:
  assumes "unat sz \<le> length buffer" "mapped_range mem a sz"
  shows "\<exists>mem'. memory_copy_write mem a sz buffer = Inr mem' \<and> mapped mem' = mapped mem \<and>
    heap_bounds mem' = heap_bounds mem \<and>
    (\<forall>x. byte_at mem' x = (if unat (x - a) < unat sz then buffer ! unat (x - a) else byte_at mem x))"
  using memory_copy_write_result [OF assms(1), of mem a] memory_copy_write_InrD [of mem a sz buffer] assms(2)
  by (auto simp: fun_eq_iff)

lemma memory_set_ok:
  assumes "mapped_range mem a sz"
  shows "\<exists>mem'. memory_set mem a sz v = Inr mem' \<and> mapped mem' = mapped mem \<and>
    heap_bounds mem' = heap_bounds mem \<and>
    (\<forall>x. byte_at mem' x = (if unat (x - a) < unat sz then ucast v else byte_at mem x))"
  using copy_write_ok [of sz "replicate (unat sz) (ucast v)" mem a] assms
  by (simp add: memory_set_eq_copy cong: if_cong)

lemma stack_cleared_ok:
  assumes "memory_allocate ca mem STACK_BOT (STACK_SIZE + 1) = Inr m1"
  shows "\<exists>m2 m3 m4. memory_set m1 STACK_BOT (STACK_SIZE + 1) 0 = Inr m2 \<and>
    memory_copy_write m2 0x7ffffff0 16 (concat (map (bytes_le 4) random_words)) = Inr m3 \<and>
    memory_copy_write m3 0x7fffffe8 8 emulator_name = Inr m4 \<and> stack_cleared mem m4"
proof -
  have cs: "STACK_BOT = 0x7fff0000" "STACK_SIZE + 1 = 0x10001"
    by (simp_all add: STACK_BOT_def STACK_TOP_def USER_TOP_def STACK_SIZE_def)
  note m1 = assms [unfolded cs]
  have pages: "page_no 0x7fff0000 = 0x7fff0" "page_no (0x7fff0000 + 0x10001 - 1) = 0x80000"
    by (simp_all add: page_no_def)
  note al = memory_allocate_flat [OF m1, unfolded pages]
  have inside: "mapped m1 x" if "0x7fff0000 \<le> unat x" "unat x < 0x80001000" for x :: u32
  proof -
    have "0x7fff0000 div 4096 \<le> page_no x" "page_no x \<le> 0x80000fff div 4096"
      unfolding page_no_def by (rule div_le_mono, use that in linarith)+
    then have "0x7fff0 \<le> page_no x \<and> page_no x \<le> 0x80000" by simp
    with al(1) show ?thesis by blast
  qed
  have range: "mapped_range m1 a sz" if "0x7fff0000 \<le> unat a" "unat a + unat sz \<le> 0x80001000" for a sz :: u32
    unfolding mapped_range_def
  proof (intro allI impI)
    fix k assume "k < unat sz"
    with that have "unat (a + of_nat k) = unat a + k" by (intro unat_add_below [of _ "unat sz"]) simp_all
    with that \<open>k < unat sz\<close> show "mapped m1 (a + of_nat k)" by (intro inside) simp_all
  qed
  have "mapped_range m1 0x7fff0000 0x10001" by (rule range) simp_all
  from memory_set_ok [OF this, of 0] obtain m2
    where m2: "memory_set m1 0x7fff0000 0x10001 0 = Inr m2" and mp2: "mapped m2 = mapped m1"
    and hb2: "heap_bounds m2 = heap_bounds m1"
    and b2: "byte_at m2 x = (if unat (x - 0x7fff0000) < 0x10001 then 0 else byte_at m1 x)" for x
    by auto
  have len: "length (concat (map (bytes_le 4) random_words)) = 16" "length emulator_name = 9"
    by (simp_all add: random_words_def emulator_name_def)
  have "\<exists>m3. memory_copy_write m2 0x7ffffff0 16 (concat (map (bytes_le 4) random_words)) = Inr m3 \<and>
      mapped m3 = mapped m2 \<and> heap_bounds m3 = heap_bounds m2 \<and> (\<forall>x. byte_at m3 x =
        (if unat (x - 0x7ffffff0) < unat (16 :: u32)
         then concat (map (bytes_le 4) random_words) ! unat (x - 0x7ffffff0) else byte_at m2 x))"
    by (rule copy_write_ok) (simp_all add: len mapped_range_cong [OF mp2] range)
  then obtain m3 where m3: "memory_copy_write m2 0x7ffffff0 16 (concat (map (bytes_le 4) random_words)) = Inr m3"
    and mp3: "mapped m3 = mapped m2" and hb3: "heap_bounds m3 = heap_bounds m2"
    and b3: "byte_at m3 x = (if unat (x - 0x7ffffff0) < 16
         then concat (map (bytes_le 4) random_words) ! unat (x - 0x7ffffff0) else byte_at m2 x)" for x
    by auto
  have "\<exists>m4. memory_copy_write m3 0x7fffffe8 8 emulator_name = Inr m4 \<and>
      mapped m4 = mapped m3 \<and> heap_bounds m4 = heap_bounds m3 \<and> (\<forall>x. byte_at m4 x =
        (if unat (x - 0x7fffffe8) < unat (8 :: u32)
         then emulator_name ! unat (x - 0x7fffffe8) else byte_at m3 x))"
    by (rule copy_write_ok) (simp_all add: len mapped_range_cong [OF mp3] mapped_range_cong [OF mp2] range)
  then obtain m4 where m4: "memory_copy_write m3 0x7fffffe8 8 emulator_name = Inr m4"
    and mp4: "mapped m4 = mapped m3" and hb4: "heap_bounds m4 = heap_bounds m3"
    and b4: "byte_at m4 x = (if unat (x - 0x7fffffe8) < 8
         then emulator_name ! unat (x - 0x7fffffe8) else byte_at m3 x)" for x
    by auto
  have "stack_cleared mem m4" unfolding stack_cleared_def
  proof (intro conjI allI)
    show "mapped m4 x \<longleftrightarrow> mapped mem x \<or> 0x7fff0 \<le> page_no x \<and> page_no x \<le> 0x80000" for x
      using al(1) by (simp add: mp2 mp3 mp4)
    show "heap_bounds m4 = heap_bounds mem" by (simp add: hb2 hb3 hb4 al(3))
    fix x :: u32
    have split: "unat (x - 0x7ffffff0) = unat (x - 0x7fffffe8) - 8" if "8 \<le> unat (x - 0x7fffffe8)"
      using range_split(2) [of 8 24 x "0x7fffffe8"] that by simp
    have in_iff: "unat (x - 0x7ffffff0) < 16 \<longleftrightarrow> 8 \<le> unat (x - 0x7fffffe8) \<and> unat (x - 0x7fffffe8) < 24"
      using range_split(1) [of 8 24 x "0x7fffffe8"] by simp
    show "byte_at m4 x = (if unat (x - 0x7fffffe8) < 24 then stack_strings ! unat (x - 0x7fffffe8)
        else if unat (x - 0x7fff0000) < 0x10001 then 0 else byte_at mem x)"
      using split in_iff len
      by (auto simp: b4 b3 b2 al(2) stack_strings_def nth_append min_def not_less)
  qed
  with m2 m3 m4 show ?thesis unfolding cs by blast
qed

lemma loader_load_sp_ok:
  assumes "memory_allocate (os_calloc os) (gmem s) STACK_BOT (STACK_SIZE + 1) = Inr m1"
  shows "\<exists>m4 mem'. loader_load_sp os ehdr s =
      Inr (s\<lparr>cpu := set_reg MIPS_R_SP 0x7fffff98 (cpu s), gmem := mem'\<rparr>) \<and>
    stack_cleared (gmem s) m4 \<and> pushed m4 0x7fffffe0 (rev (stack_words ehdr)) mem'"
proof -
  note m1 = assms
  obtain m2 m3 m4
    where m2: "memory_set m1 STACK_BOT (STACK_SIZE + 1) 0 = Inr m2"
    and m3: "memory_copy_write m2 0x7ffffff0 16 (concat (map (bytes_le 4) random_words)) = Inr m3"
    and m4: "memory_copy_write m3 0x7fffffe8 8 emulator_name = Inr m4"
    and cl: "stack_cleared (gmem s) m4"
    using stack_cleared_ok [OF m1] by blast
  let ?s4 = "s\<lparr>cpu := set_reg MIPS_R_SP 0x7fffffe0 (cpu s), gmem := m4\<rparr>"
  have sp: "get_reg MIPS_R_SP ?s4 = 0x7fffffe0" by (simp add: get_reg_def)
  have "\<exists>mem'. push_words (rev (stack_words ehdr)) ?s4 =
      Inr (?s4\<lparr>cpu := set_reg MIPS_R_SP
        (get_reg MIPS_R_SP ?s4 - 4 * of_nat (length (rev (stack_words ehdr)))) (cpu ?s4), gmem := mem'\<rparr>) \<and>
      pushed (gmem ?s4) (get_reg MIPS_R_SP ?s4) (rev (stack_words ehdr)) mem'"
  proof (rule push_words_ok)
    show "4 * length (rev (stack_words ehdr)) \<le> unat (get_reg MIPS_R_SP ?s4)"
      unfolding sp by (simp add: length_stack_words)
    show "unat (get_reg MIPS_R_SP ?s4) mod 4 = 0" unfolding sp by simp
    fix x :: u32
    assume "unat (get_reg MIPS_R_SP ?s4) - 4 * length (rev (stack_words ehdr)) \<le> unat x"
      "unat x < unat (get_reg MIPS_R_SP ?s4)"
    then have x: "0x7fffff98 \<le> unat x" "unat x < 0x7fffffe0"
      unfolding sp by (simp_all add: length_stack_words)
    have "0x7fff0000 div 4096 \<le> page_no x" "page_no x \<le> 0x80000fff div 4096"
      unfolding page_no_def by (rule div_le_mono, use x in linarith)+
    then have "0x7fff0 \<le> page_no x \<and> page_no x \<le> 0x80000" by simp
    with cl show "mapped (gmem ?s4) x" unfolding stack_cleared_def by simp
  qed
  then obtain mem' where push: "push_words (rev (stack_words ehdr)) ?s4 =
      Inr (s\<lparr>cpu := set_reg MIPS_R_SP 0x7fffff98 (cpu s), gmem := mem'\<rparr>)"
    and pd: "pushed m4 0x7fffffe0 (rev (stack_words ehdr)) mem'"
    unfolding sp by (auto simp: length_stack_words)
  have words: "rev (stack_words ehdr) =
      concat (map (\<lambda>(ty, v). [v, ty]) (rev (auxv ehdr 0x7ffffff0 0x7fffffe8))) @ [0, 0, 0x7fffffe8, 1]"
    by (simp add: stack_words_def auxv_def)
  have comm: "s\<lparr>gmem := m, cpu := c\<rparr> = s\<lparr>cpu := c, gmem := m\<rparr>" for m c by (cases s) simp
  have top: "STACK_TOP - 16 = 0x7ffffff0" by (simp add: STACK_TOP_def USER_TOP_def)
  have "loader_load_sp os ehdr s = push_words (rev (stack_words ehdr)) ?s4"
    unfolding words push_words_append
    by (simp add: loader_load_sp_def Let_def upd_mem_def put_reg_def upd_cpu_def get_reg_def
        m1 m2 m3 m4 top comm)
  with push pd cl show ?thesis by auto
qed

lemma load_segment_ok:
  assumes "\<And>t e. os_calloc os t e" "os_malloc os (unat (p_memsz phdr))"
    and "unat (p_vaddr phdr) + unat (p_memsz phdr) \<le> 2 ^ 32"
    and "unat (p_filesz phdr) \<le> unat (p_memsz phdr)"
    and "unat (p_filesz phdr) \<le> length (drop (unat (p_offset phdr)) (contents elf))"
  shows "\<exists>s'. load_segment os fresh phdr (mem, elf) = Inr s'"
proof -
  define m0 where "m0 = (if brk_heap_start mem < p_vaddr phdr + p_memsz phdr
    then mem\<lparr>brk_heap_start := p_vaddr phdr + p_memsz phdr, brk_heap_end := p_vaddr phdr + p_memsz phdr\<rparr>
    else mem)"
  define bs where "bs = take (unat (p_filesz phdr)) (drop (unat (p_offset phdr)) (contents elf))"
  define buffer where "buffer = bs @ map fresh [unat (p_filesz phdr)..<unat (p_memsz phdr)]"
  have len: "length bs = unat (p_filesz phdr)" using assms(5) by (simp add: bs_def)
  obtain m1 where m1: "memory_allocate (os_calloc os) m0 (p_vaddr phdr) (p_memsz phdr) = Inr m1"
    using memory_allocate_total [of "os_calloc os", OF assms(1)] by blast
  have r1: "mapped_range m1 (p_vaddr phdr) (p_memsz phdr)"
    unfolding mapped_range_def using allocated_range [OF m1 assms(3)] by blast
  obtain m2 where m2: "memory_copy_write m1 (p_vaddr phdr) (p_memsz phdr) buffer = Inr m2"
    and mp: "mapped m2 = mapped m1"
    using copy_write_ok [of "p_memsz phdr" buffer m1 "p_vaddr phdr"] r1 len assms(4)
    by (auto simp: buffer_def)
  have "\<exists>m3. (if p_filesz phdr < p_memsz phdr
      then memory_set m2 (p_vaddr phdr + p_filesz phdr) (p_memsz phdr - p_filesz phdr) 0
      else Inr m2) = Inr m3"
  proof (cases "p_filesz phdr < p_memsz phdr")
    case True
    have "mapped_range m2 (p_vaddr phdr + p_filesz phdr) (p_memsz phdr - p_filesz phdr)"
      unfolding mapped_range_def
    proof (intro allI impI)
      fix k assume "k < unat (p_memsz phdr - p_filesz phdr)"
      then have "unat (p_filesz phdr) + k < unat (p_memsz phdr)"
        using assms(4) by (simp add: unat_sub word_le_nat_alt)
      with r1 have "mapped m1 (p_vaddr phdr + of_nat (unat (p_filesz phdr) + k))"
        unfolding mapped_range_def by blast
      then show "mapped m2 (p_vaddr phdr + p_filesz phdr + of_nat k)" by (simp add: mp add.assoc)
    qed
    from memory_set_ok [OF this] True show ?thesis by auto
  qed simp
  then obtain m3 where m3: "(if p_filesz phdr < p_memsz phdr
      then memory_set m2 (p_vaddr phdr + p_filesz phdr) (p_memsz phdr - p_filesz phdr) 0
      else Inr m2) = Inr m3" ..
  have enough: "min (length (contents elf) - unat (p_offset phdr)) (unat (p_filesz phdr)) = unat (p_filesz phdr)"
    using assms(5) by simp
  have "load_segment os fresh phdr (mem, elf) =
      Inr (m3, elf\<lparr>file_pos := unat (p_offset phdr) + length bs\<rparr>)"
    using m1 m2 m3 assms(2,4) len
    by (simp add: load_segment_def fread_bytes_def fseek_set_def Let_def buffer_def enough
        flip: bs_def m0_def)
  then show ?thesis by blast
qed

text \<open>The loader goes on exactly when the allocation of the stack succeeds.\<close>

lemma loader_load_sp_alloc:
  "loader_load_sp os ehdr s = Inr s' \<Longrightarrow>
     \<exists>m1. memory_allocate (os_calloc os) (gmem s) STACK_BOT (STACK_SIZE + 1) = Inr m1"
  "memory_allocate (os_calloc os) (gmem s) STACK_BOT (STACK_SIZE + 1) = Inl e \<Longrightarrow>
     loader_load_sp os ehdr s = Inl e"
  by (auto simp: loader_load_sp_def upd_mem_def elim!: bindR_InrE)

lemma stack_allocated:
  assumes "\<And>t e. os_calloc os t e"
  obtains m1 where "memory_allocate (os_calloc os) mem STACK_BOT (STACK_SIZE + 1) = Inr m1"
  using memory_allocate_total [of "os_calloc os", OF assms] by blast

lemma loader_load_sp_layout:
  assumes "memory_allocate (os_calloc os) (gmem s) STACK_BOT (STACK_SIZE + 1) = Inr m1"
  shows "\<exists>s'. loader_load_sp os ehdr s = Inr s' \<and>
    cpu s' = set_reg MIPS_R_SP 0x7fffff98 (cpu s) \<and> hstate s' = hstate s \<and>
    (\<forall>i < 18. memory_read_u32 (gmem s') (0x7fffff98 + 4 * of_nat i) = Inr (stack_words ehdr ! i)) \<and>
    (\<forall>k < 24. byte_at (gmem s') (0x7fffffe8 + of_nat k) = stack_strings ! k) \<and>
    (\<forall>x. 0x7fff0000 \<le> x \<and> x < 0x7fffff98 \<or> 0x7fffffe0 \<le> x \<and> x < 0x7fffffe8 \<longrightarrow>
       mapped (gmem s') x \<and> byte_at (gmem s') x = 0) \<and>
    byte_at (gmem s') 0x80000000 = 0 \<and>
    (\<forall>x. x < 0x7fff0000 \<or> 0x80000000 < x \<longrightarrow> byte_at (gmem s') x = byte_at (gmem s) x)"
proof -
  from loader_load_sp_ok [OF assms, of ehdr] obtain m4 mem'
    where res: "loader_load_sp os ehdr s = Inr (s\<lparr>cpu := set_reg MIPS_R_SP 0x7fffff98 (cpu s), gmem := mem'\<rparr>)"
    and cl: "stack_cleared (gmem s) m4" and pd: "pushed m4 0x7fffffe0 (rev (stack_words ehdr)) mem'" by blast
  have same: "byte_at mem' x = byte_at m4 x" if "\<not> (0x7fffff98 \<le> unat x \<and> unat x < 0x7fffffe0)" for x
    using pd that by (simp add: pushed_def length_stack_words)
  have word: "memory_read_u32 mem' (0x7fffff98 + 4 * of_nat i) = Inr (stack_words ehdr ! i)" if "i < 18" for i
  proof -
    have "17 - i < length (rev (stack_words ehdr))" using that by (simp add: length_stack_words)
    with pd have "memory_read_u32 mem' (0x7fffffe0 - 4 * of_nat (Suc (17 - i))) =
        Inr (rev (stack_words ehdr) ! (17 - i))"
      unfolding pushed_def by blast
    moreover have "rev (stack_words ehdr) ! (17 - i) = stack_words ehdr ! i"
      using that by (simp add: rev_nth length_stack_words)
    moreover have "(0x7fffffe0 :: u32) - 4 * of_nat (Suc (17 - i)) = 0x7fffff98 + 4 * of_nat i"
    proof -
      have "of_nat i + of_nat (Suc (17 - i)) = (of_nat 18 :: u32)"
        unfolding of_nat_add [symmetric] using that by simp
      then have "4 * of_nat i + 4 * of_nat (Suc (17 - i)) = (4 * of_nat 18 :: u32)"
        by (simp only: distrib_left [symmetric])
      then show ?thesis unfolding diff_eq_eq add.assoc by simp
    qed
    ultimately show ?thesis by (simp only:)
  qed
  have string: "byte_at mem' (0x7fffffe8 + of_nat k) = stack_strings ! k" if "k < 24" for k
  proof -
    have u: "unat (0x7fffffe8 + of_nat k :: u32) = 0x7fffffe8 + k"
      using unat_add_below [of "0x7fffffe8" 24 k] that by simp
    have "byte_at mem' (0x7fffffe8 + of_nat k) = byte_at m4 (0x7fffffe8 + of_nat k)"
      by (rule same) (simp add: u)
    with cl that show ?thesis by (simp add: stack_cleared_def unat_of_nat)
  qed
  have below: "mapped mem' x \<and> byte_at mem' x = 0" 
    if x: "0x7fff0000 \<le> x \<and> x < 0x7fffff98 \<or> 0x7fffffe0 \<le> x \<and> x < 0x7fffffe8" for x :: u32
  proof
    from x have u: "0x7fff0000 \<le> unat x" "unat x < 0x7fffffe8" "unat x < 0x7fffff98 \<or> 0x7fffffe0 \<le> unat x"
      by (auto simp: word_le_nat_alt word_less_nat_alt)
    then have "0x7fff0000 div 4096 \<le> page_no x" "page_no x \<le> 0x80000fff div 4096"
      unfolding page_no_def by (rule_tac [!] div_le_mono) simp_all
    then show "mapped mem' x" using cl pd by (simp add: stack_cleared_def pushed_def)
    have "byte_at mem' x = byte_at m4 x" by (rule same) (use u in auto)
    moreover have "unat (x - 0x7fff0000) < 0x10001" "\<not> unat (x - 0x7fffffe8) < 24"
      using u by (simp_all add: unat_sub_if' unat_u32_less)
    ultimately show "byte_at mem' x = 0" using cl by (simp add: stack_cleared_def)
  qed
  have outside: "byte_at mem' x = byte_at (gmem s) x" if "x < 0x7fff0000 \<or> 0x80000000 < x" for x :: u32
  proof -
    from that have u: "unat x < 0x7fff0000 \<or> 0x80000000 < unat x" by (simp add: word_less_nat_alt)
    then have "byte_at mem' x = byte_at m4 x" by (intro same) auto
    moreover have "\<not> unat (x - 0x7fff0000) < 0x10001"
      using near_above [of "0x7fff0000" "0x10001" x] u by auto
    moreover have "\<not> unat (x - 0x7fffffe8) < 24"
      using near_above [of "0x7fffffe8" 24 x] u by auto
    ultimately show ?thesis using cl by (simp add: stack_cleared_def)
  qed
  have top: "byte_at mem' 0x80000000 = 0" using cl same [of "0x80000000"] by (simp add: stack_cleared_def)
  let ?s' = "s\<lparr>cpu := set_reg MIPS_R_SP 0x7fffff98 (cpu s), gmem := mem'\<rparr>"
  from res word string below outside top show ?thesis by (intro exI [of _ ?s'] conjI) auto
qed

section \<open>Properties\<close>

text \<open>C14: the segments of the executable are in guest memory: at every address the byte of the
  last \<open>PT_LOAD\<close> segment that covers it, zero behind the bytes of the file, whatever a fresh
  host buffer held, and elsewhere what was there; every address of a segment is mapped, and the
  heap begins at the highest end of a segment.\<close>

theorem segments_loaded:
  assumes "loader_load_segments os fresh phdrs (mem, elf) = Inr (mem', elf')"
  shows "byte_at mem' = segment_image (contents elf) phdrs (byte_at mem) \<and>
    (\<forall>phdr \<in> set phdrs. p_type phdr = PT_LOAD \<longrightarrow>
      (\<forall>x. unat (x - p_vaddr phdr) < unat (p_memsz phdr) \<longrightarrow> mapped mem' x) \<and>
      segment_top phdr \<le> brk_heap_start mem') \<and>
    brk_heap_start mem' = heap_top (brk_heap_start mem) phdrs"
  using loader_load_segments_InrD(2,4,5) [OF assms] by (auto simp: heap_top_above)

definition demo_phdr :: elf_phdr where
  "demo_phdr = \<lparr>p_type = PT_LOAD, p_offset = 1, p_vaddr = 0x1ffe, p_filesz = 2, p_memsz = 4\<rparr>"

lemma segments_loaded_witness:
  "\<exists>mem' elf'. loader_load_segments demo_os (\<lambda>_. 9) [demo_phdr]
      (empty_memory, \<lparr>contents = [7, 1, 2], file_pos = 0\<rparr>) = Inr (mem', elf') \<and>
    byte_at mem' 0x1fff = 2 \<and> byte_at mem' 0x2001 = 0 \<and> mapped mem' 0x2001 \<and>
    brk_heap_start mem' = 0x2002"
proof -
  have "\<exists>s'. load_segment demo_os (\<lambda>_. 9) demo_phdr
      (empty_memory, \<lparr>contents = [7, 1, 2], file_pos = 0\<rparr>) = Inr s'"
    by (rule load_segment_ok) (simp_all add: demo_phdr_def)
  then obtain mem' elf' where l: "loader_load_segments demo_os (\<lambda>_. 9) [demo_phdr]
      (empty_memory, \<lparr>contents = [7, 1, 2], file_pos = 0\<rparr>) = Inr (mem', elf')"
    by (auto simp: demo_phdr_def)
  have "unat (0x2001 - p_vaddr demo_phdr) < unat (p_memsz demo_phdr)"
    by (simp add: demo_phdr_def)
  with segments_loaded [OF l] have "mapped mem' 0x2001" by (simp add: demo_phdr_def)
  with l segments_loaded [OF l] show ?thesis
    by (auto simp: demo_phdr_def segment_byte_def segment_top_def empty_memory_def)
qed

text \<open>C23: when the pages of the stack can be allocated (and if not, it fails as the allocation does) the
  loader leaves 64 KiB and one byte, from \<open>STACK_BOT\<close> to \<open>STACK_TOP\<close> included, that are zero but
  for the argument count, the argument and environment vectors and the auxiliary vector, and eight
  bytes above them the name and the random bytes that they point to. The stack pointer is at the
  argument count, and no other register and no byte outside that range changes.\<close>

theorem stack_layout:
  "case memory_allocate (os_calloc os) (gmem s) STACK_BOT (STACK_SIZE + 1) of
     Inl e \<Rightarrow> loader_load_sp os ehdr s = Inl e
   | Inr _ \<Rightarrow> \<exists>s'. loader_load_sp os ehdr s = Inr s' \<and>
    cpu s' = set_reg MIPS_R_SP 0x7fffff98 (cpu s) \<and> hstate s' = hstate s \<and>
    (\<forall>i < 18. memory_read_u32 (gmem s') (0x7fffff98 + 4 * of_nat i) = Inr (stack_words ehdr ! i)) \<and>
    (\<forall>k < 24. byte_at (gmem s') (0x7fffffe8 + of_nat k) = stack_strings ! k) \<and>
    (\<forall>x. 0x7fff0000 \<le> x \<and> x < 0x7fffff98 \<or> 0x7fffffe0 \<le> x \<and> x < 0x7fffffe8 \<longrightarrow>
       mapped (gmem s') x \<and> byte_at (gmem s') x = 0) \<and>
    byte_at (gmem s') 0x80000000 = 0 \<and>
    (\<forall>x. x < 0x7fff0000 \<or> 0x80000000 < x \<longrightarrow> byte_at (gmem s') x = byte_at (gmem s) x)"
  using loader_load_sp_layout [of os s _ ehdr] loader_load_sp_alloc(2) [of os s _ ehdr]
  by (auto split: sum.split)

lemma stack_layout_witness:
  "\<exists>s'. loader_load_sp demo_os (ehdr_of []) (demo_machine (\<lambda>_. 0)) = Inr s' \<and>
     memory_read_u32 (gmem s') 0x7fffff98 = Inr 1 \<and> get_reg MIPS_R_SP s' = 0x7fffff98"
proof -
  obtain m1 where "memory_allocate (os_calloc demo_os) (gmem (demo_machine (\<lambda>_. 0))) STACK_BOT (STACK_SIZE + 1) = Inr m1"
    by (rule stack_allocated [of demo_os]) simp
  with stack_layout [where os = demo_os and s = "demo_machine (\<lambda>_. 0)" and ehdr = "ehdr_of []"]
  obtain s' where s': "loader_load_sp demo_os (ehdr_of []) (demo_machine (\<lambda>_. 0)) = Inr s'"
    and sp: "cpu s' = set_reg MIPS_R_SP 0x7fffff98 (cpu (demo_machine (\<lambda>_. 0)))"
    and w: "\<forall>i < 18. memory_read_u32 (gmem s') (0x7fffff98 + 4 * of_nat i) = Inr (stack_words (ehdr_of []) ! i)"
    by (simp only: sum.case) blast
  from w [rule_format, of 0] have "memory_read_u32 (gmem s') 0x7fffff98 = Inr 1"
    by (simp add: stack_words_def)
  with s' sp show ?thesis by (auto simp: get_reg_def)
qed

text \<open>\<open>argv[0]\<close> is not the string \<open>"emulator"\<close>: the copy leaves out its NUL, so the string
  the program reads runs through the 16 random bytes and ends 24 bytes on.\<close>

lemma argv0_unterminated:
  assumes "loader_load_sp os ehdr s = Inr s'"
  shows "memory_read_u32 (gmem s') (get_reg MIPS_R_SP s' + 4) = Inr 0x7fffffe8 \<and>
    (\<forall>k < 24. byte_at (gmem s') (0x7fffffe8 + of_nat k) \<noteq> 0) \<and>
    byte_at (gmem s') (0x7fffffe8 + 24) = 0"
proof -
  obtain m1 where "memory_allocate (os_calloc os) (gmem s) STACK_BOT (STACK_SIZE + 1) = Inr m1"
    using loader_load_sp_alloc(1) [OF assms] by blast
  from loader_load_sp_layout [OF this, of ehdr] assms
  have cpu: "cpu s' = set_reg MIPS_R_SP 0x7fffff98 (cpu s)"
    and w: "\<forall>i < 18. memory_read_u32 (gmem s') (0x7fffff98 + 4 * of_nat i) = Inr (stack_words ehdr ! i)"
    and b: "\<forall>k < 24. byte_at (gmem s') (0x7fffffe8 + of_nat k) = stack_strings ! k"
    and z: "byte_at (gmem s') 0x80000000 = 0" by auto
  have "memory_read_u32 (gmem s') (0x7fffff98 + 4) = Inr 0x7fffffe8"
    using w [rule_format, of 1] by (simp add: stack_words_def)
  moreover have "list_all (\<lambda>c. c \<noteq> 0) stack_strings" "length stack_strings = 24"
    by (simp_all add: stack_strings_def emulator_name_def random_words_def bytes_le_def upt_rec)
  then have "\<forall>k < 24. stack_strings ! k \<noteq> 0" by (simp add: list_all_length)
  ultimately show ?thesis using b z cpu by (simp add: get_reg_def)
qed

lemma argv0_unterminated_witness:
  "\<exists>s'. loader_load_sp demo_os (ehdr_of []) (demo_machine (\<lambda>_. 0)) = Inr s' \<and>
     byte_at (gmem s') (0x7fffffe8 + of_nat 8) \<noteq> 0"
proof -
  obtain m1 where "memory_allocate (os_calloc demo_os) (gmem (demo_machine (\<lambda>_. 0))) STACK_BOT (STACK_SIZE + 1) = Inr m1"
    by (rule stack_allocated [of demo_os]) simp
  from loader_load_sp_ok [OF this, of "ehdr_of []"] obtain s'
    where s': "loader_load_sp demo_os (ehdr_of []) (demo_machine (\<lambda>_. 0)) = Inr s'" by blast
  from argv0_unterminated [OF s'] have "byte_at (gmem s') (0x7fffffe8 + of_nat 8) \<noteq> 0"
    by (elim conjE allE [of _ "8::nat"]) simp
  with s' show ?thesis by blast
qed

section \<open>The whole loader\<close>

definition file_ehdr :: "u8 list \<Rightarrow> elf_ehdr" where
  "file_ehdr bs = ehdr_of (take 52 bs)"

definition file_phdrs :: "u8 list \<Rightarrow> elf_phdr list" where
  "file_phdrs bs = (let ehdr = file_ehdr bs; n = unat (e_phnum ehdr)
     in table_of 32 phdr_of n (take (32 * n) (drop (unat (e_phoff ehdr)) bs)))"

lemma read_at_InrD: "read_at elf off n = Inr (bs, elf') \<Longrightarrow>
    bs = take n (drop (unat off) (contents elf)) \<and> length bs = n \<and> contents elf' = contents elf"
  by (auto simp: read_at_def fread_bytes_def fseek_set_def Let_def elim!: bindR_InrE)

lemma loader_load_ehdr_InrD:
  assumes "loader_load_ehdr os elf = Inr (ehdr, elf')" "file_pos elf = 0"
  shows "ehdr = file_ehdr (contents elf)" "contents elf' = contents elf" "52 \<le> length (contents elf)"
    "e_machine ehdr = EM_MIPS" "e_ident ehdr ! EI_CLASS = ELFCLASS32"
    "e_ident ehdr ! EI_DATA = ELFDATA2LSB" "e_type ehdr = ET_EXEC"
  using assms
  by (auto simp: loader_load_ehdr_def file_ehdr_def fread_bytes_def Let_def elim!: bindR_InrE)

lemma loader_load_phdr_InrD:
  assumes "loader_load_phdr os elf ehdr = Inr (phdr, elf')"
  shows "phdr = table_of 32 phdr_of (unat (e_phnum ehdr))
      (take (32 * unat (e_phnum ehdr)) (drop (unat (e_phoff ehdr)) (contents elf)))"
    and "contents elf' = contents elf"
  using assms by (auto simp: loader_load_phdr_def Let_def dest!: read_at_InrD elim!: bindR_InrE)

definition file_shdrs :: "u8 list \<Rightarrow> elf_shdr list" where
  "file_shdrs bs = (let ehdr = file_ehdr bs; n = unat (e_shnum ehdr)
     in table_of 40 shdr_of n (take (40 * n) (drop (unat (e_shoff ehdr)) bs)))"

definition section_bytes :: "u8 list \<Rightarrow> elf_shdr \<Rightarrow> u8 list" where
  "section_bytes bs h = take (unat (sh_size h)) (drop (unat (sh_offset h)) bs)"

text \<open>\<open>v\<close> is the value of the global pointer's symbol in a symbol table of the file.\<close>

definition gp_in_file :: "u8 list \<Rightarrow> u32 \<Rightarrow> bool" where
  "gp_in_file bs v \<longleftrightarrow> (\<exists>h \<in> set (file_shdrs bs). sh_type h = SHT_SYMTAB \<and>
     unat (sh_link h) < length (file_shdrs bs) \<and>
     find_gp (section_bytes bs (file_shdrs bs ! unat (sh_link h)))
       (table_of 16 sym_of (unat (sh_size h) div 16) (section_bytes bs h)) = Inr (Some v))"

lemma loader_load_shdr_InrD:
  assumes "loader_load_shdr os elf ehdr = Inr (shdr, elf')"
  shows "shdr = table_of 40 shdr_of (unat (e_shnum ehdr))
      (take (40 * unat (e_shnum ehdr)) (drop (unat (e_shoff ehdr)) (contents elf)))"
    and "contents elf' = contents elf"
  using assms by (auto simp: loader_load_shdr_def Let_def dest!: read_at_InrD elim!: bindR_InrE)

lemma search_sections_InrD:
  assumes "search_sections os shdr elf hs = Inr (Some v, elf')"
  shows "\<exists>h \<in> set hs. sh_type h = SHT_SYMTAB \<and> unat (sh_link h) < length shdr \<and>
    find_gp (section_bytes (contents elf) (shdr ! unat (sh_link h)))
      (table_of 16 sym_of (unat (sh_size h) div 16) (section_bytes (contents elf) h)) = Inr (Some v)"
  using assms
proof (induction hs arbitrary: elf)
  case (Cons h hs)
  show ?case
  proof (cases "sh_type h = SHT_SYMTAB")
    case False
    with Cons show ?thesis by auto
  next
    case True
    with Cons.prems obtain symbols strings elf1 gp where link: "unat (sh_link h) < length shdr"
      and load: "loader_load_symbols os elf h (shdr ! unat (sh_link h)) = Inr (symbols, strings, elf1)"
      and find: "find_gp strings symbols = Inr gp"
      and rest: "(case gp of Some v \<Rightarrow> Inr (Some v, elf1) | None \<Rightarrow> search_sections os shdr elf1 hs) = Inr (Some v, elf')"
      by (auto elim!: bindR_InrE)
    from load have parts: "contents elf1 = contents elf"
      "strings = section_bytes (contents elf) (shdr ! unat (sh_link h))"
      "symbols = table_of 16 sym_of (unat (sh_size h) div 16) (section_bytes (contents elf) h)"
      by (auto simp: loader_load_symbols_def section_bytes_def Let_def dest!: read_at_InrD elim!: bindR_InrE)
    show ?thesis
    proof (cases gp)
      case None
      with rest Cons.IH [of elf1] parts(1) show ?thesis by auto
    next
      case (Some w)
      with rest find parts True link show ?thesis by auto
    qed
  qed
qed simp

text \<open>What a successful run of the loader did, step by step.\<close>

lemma loader_elf_InrD:
  assumes "loader_elf os fresh (Some elf) s = Inr s'" "file_pos elf = 0"
  shows "\<exists>mem v elf1 elf2. loader_load_segments os fresh (file_phdrs (contents elf)) (gmem s, elf1) = Inr (mem, elf2) \<and>
    contents elf1 = contents elf \<and> gp_in_file (contents elf) v \<and>
    loader_load_sp os (file_ehdr (contents elf)) (s\<lparr>gmem := mem,
      cpu := set_reg MIPS_R_GP v (loader_load_pc (file_ehdr (contents elf)) (cpu s))\<rparr>) = Inr s'"
proof -
  from assms(1) obtain ehdr elfa phdr elfb shdr elfc mem elfd m elfe
    where e: "loader_load_ehdr os elf = Inr (ehdr, elfa)"
    and p: "loader_load_phdr os elfa ehdr = Inr (phdr, elfb)"
    and h: "loader_load_shdr os elfb ehdr = Inr (shdr, elfc)"
    and seg: "loader_load_segments os fresh phdr (gmem s, elfc) = Inr (mem, elfd)"
    and gp: "loader_load_gp os elfd shdr (loader_load_pc ehdr (cpu s)) = Inr (m, elfe)"
    and sp: "loader_load_sp os ehdr (s\<lparr>gmem := mem, cpu := m\<rparr>) = Inr s'"
    by (auto simp: loader_elf_def Let_def elim!: bindR_InrE)
  note ed = loader_load_ehdr_InrD [OF e assms(2)]
  note pd = loader_load_phdr_InrD [OF p]
  note hd = loader_load_shdr_InrD [OF h]
  have phdr: "phdr = file_phdrs (contents elf)" "shdr = file_shdrs (contents elf)"
    using pd(1) hd(1) ed(1,2) pd(2) by (simp_all add: file_phdrs_def file_shdrs_def Let_def)
  have cont: "contents elfc = contents elf" "contents elfd = contents elf"
    using hd(2) pd(2) ed(2) loader_load_segments_InrD(1) [OF seg] by simp_all
  from gp obtain v elf2 where s: "search_sections os shdr elfd shdr = Inr (Some v, elf2)"
    and m: "m = set_reg MIPS_R_GP v (loader_load_pc ehdr (cpu s))"
    by (auto simp: loader_load_gp_def elim!: bindR_InrE split: option.splits)
  have "gp_in_file (contents elf) v"
    using search_sections_InrD [OF s] by (simp add: gp_in_file_def phdr(2) cont(2))
  with seg sp cont(1) show ?thesis unfolding phdr(1) m ed(1) by blast
qed

lemma loader_elf_process:
  assumes "loader_elf os fresh (Some elf) s = Inr s'" "file_pos elf = 0"
  shows "(\<exists>v. gp_in_file (contents elf) v \<and> regs (cpu s') = (regs (cpu s))
       (MIPS_R_PC := e_entry (file_ehdr (contents elf)), MIPS_R_NPC := e_entry (file_ehdr (contents elf)) + 4,
        MIPS_R_NNPC := e_entry (file_ehdr (contents elf)) + 8, MIPS_R_GP := v, MIPS_R_SP := 0x7fffff98)) \<and>
    halted (cpu s') = halted (cpu s) \<and> branched (cpu s') = branched (cpu s) \<and>
    status (cpu s') = status (cpu s) \<and> hstate s' = hstate s \<and>
    (\<forall>x. x < 0x7fff0000 \<or> 0x80000000 < x \<longrightarrow> byte_at (gmem s') x =
      segment_image (contents elf) (file_phdrs (contents elf)) (byte_at (gmem s)) x) \<and>
    e_machine (file_ehdr (contents elf)) = EM_MIPS \<and> e_type (file_ehdr (contents elf)) = ET_EXEC \<and>
    e_ident (file_ehdr (contents elf)) ! EI_CLASS = ELFCLASS32 \<and>
    e_ident (file_ehdr (contents elf)) ! EI_DATA = ELFDATA2LSB"
proof -
  from loader_elf_InrD [OF assms(1,2)] obtain mem v elf1 elf2
    where seg: "loader_load_segments os fresh (file_phdrs (contents elf)) (gmem s, elf1) = Inr (mem, elf2)"
    and same: "contents elf1 = contents elf" and v: "gp_in_file (contents elf) v"
    and sp: "loader_load_sp os (file_ehdr (contents elf)) (s\<lparr>gmem := mem,
      cpu := set_reg MIPS_R_GP v (loader_load_pc (file_ehdr (contents elf)) (cpu s))\<rparr>) = Inr s'" by blast
  from assms(1) obtain ehdr elfa where e: "loader_load_ehdr os elf = Inr (ehdr, elfa)"
    by (auto simp: loader_elf_def elim!: bindR_InrE)
  note ed = loader_load_ehdr_InrD [OF e assms(2)]
  let ?s1 = "s\<lparr>gmem := mem, cpu := set_reg MIPS_R_GP v (loader_load_pc (file_ehdr (contents elf)) (cpu s))\<rparr>"
  obtain s2 where "loader_load_sp os (file_ehdr (contents elf)) ?s1 = Inr s2"
    and st: "cpu s2 = set_reg MIPS_R_SP 0x7fffff98 (cpu ?s1)" "hstate s2 = hstate ?s1"
      "\<forall>x. x < 0x7fff0000 \<or> 0x80000000 < x \<longrightarrow> byte_at (gmem s2) x = byte_at (gmem ?s1) x"
    using loader_load_sp_layout [of os ?s1 _ "file_ehdr (contents elf)"] loader_load_sp_alloc(1) [OF sp] by blast
  with sp have "s2 = s'" by simp
  have cpu: "cpu s' = set_reg MIPS_R_SP 0x7fffff98
      (set_reg MIPS_R_GP v (loader_load_pc (file_ehdr (contents elf)) (cpu s)))"
    and host: "hstate s' = hstate s"
    and out: "\<forall>x. x < 0x7fff0000 \<or> 0x80000000 < x \<longrightarrow> byte_at (gmem s') x = byte_at mem x"
    using st unfolding \<open>s2 = s'\<close> by simp_all
  have "\<forall>x. x < 0x7fff0000 \<or> 0x80000000 < x \<longrightarrow> byte_at (gmem s') x =
      segment_image (contents elf) (file_phdrs (contents elf)) (byte_at (gmem s)) x"
    using out loader_load_segments_InrD(2) [OF seg] same by simp
  with v cpu host ed show ?thesis
    by (auto simp: loader_load_pc_def Let_def fun_eq_iff)
qed

lemma loader_load_sp_mapped:
  assumes "loader_load_sp os ehdr s = Inr s'" "mapped (gmem s) x"
  shows "mapped (gmem s') x"
  using loader_load_sp_ok [of os s _ ehdr] loader_load_sp_alloc(1) [OF assms(1)] assms
  by (fastforce simp: stack_cleared_def pushed_def)

lemma loaded_text_mapped:
  assumes "loader_elf os fresh (Some elf) s = Inr s'" "file_pos elf = 0"
    and "phdr \<in> set (file_phdrs (contents elf))" "p_type phdr = PT_LOAD"
    and "unat (x - p_vaddr phdr) < unat (p_memsz phdr)"
  shows "mapped (gmem s') x"
proof -
  from loader_elf_InrD [OF assms(1,2)] obtain mem v elf1 elf2
    where seg: "loader_load_segments os fresh (file_phdrs (contents elf)) (gmem s, elf1) = Inr (mem, elf2)"
    and sp: "loader_load_sp os (file_ehdr (contents elf)) (s\<lparr>gmem := mem,
      cpu := set_reg MIPS_R_GP v (loader_load_pc (file_ehdr (contents elf)) (cpu s))\<rparr>) = Inr s'" by blast
  have "mapped mem x" using loader_load_segments_InrD(4) [OF seg] assms(3-5) by blast
  with loader_load_sp_mapped [OF sp] show ?thesis by simp
qed

text \<open>A small executable: one segment of two words, a symbol table with \<open>_gp\<close>, its strings.\<close>

definition demo_elf :: "u8 list" where
  "demo_elf = concat (map (bytes_le 4) ([
     0x464c457f, 0x010101, 0, 0, 0x80002, 1, 0x400000, 52, 84, 0, 0x200034, 0x280001, 2,
     1, 184, 0x400000, 0x400000, 4, 8, 5, 0x1000,
     0, 2, 0, 0, 164, 16, 1, 0, 4, 16,
     0, 3, 0, 0, 180, 4, 0, 0, 1, 0,
     0, 0x408000, 0, 0,
     0x70675f,
     0x12345678] :: u32 list))"

definition demo_file :: "nat \<Rightarrow> host_file" where
  "demo_file n = \<lparr>contents = demo_elf, file_pos = n\<rparr>"

definition demo_ehdr :: elf_ehdr where
  "demo_ehdr = \<lparr>e_ident = [0x7f, 0x45, 0x4c, 0x46, 1, 1, 1, 0, 0, 0, 0, 0, 0, 0, 0, 0],
     e_type = 2, e_machine = 8, e_entry = 0x400000, e_phoff = 52, e_shoff = 84,
     e_phentsize = 32, e_phnum = 1, e_shnum = 2\<rparr>"
lemma demo_ehdr: "loader_load_ehdr demo_os (demo_file 0) = Inr (demo_ehdr, demo_file 52)"
  by code_simp

definition demo_text :: elf_phdr where
  "demo_text = \<lparr>p_type = 1, p_offset = 184, p_vaddr = 0x400000, p_filesz = 4, p_memsz = 8\<rparr>"

definition demo_shdrs :: "elf_shdr list" where
  "demo_shdrs = [\<lparr>sh_type = 2, sh_offset = 164, sh_size = 16, sh_link = 1\<rparr>,
     \<lparr>sh_type = 3, sh_offset = 180, sh_size = 4, sh_link = 0\<rparr>]"

lemma demo_phdr_read: "loader_load_phdr demo_os (demo_file 52) demo_ehdr = Inr ([demo_text], demo_file 84)"
  by code_simp

lemma demo_shdr_read: "loader_load_shdr demo_os (demo_file 84) demo_ehdr = Inr (demo_shdrs, demo_file 164)"
  by code_simp

lemma demo_gp: "search_sections demo_os demo_shdrs (demo_file 188) demo_shdrs = Inr (Some 0x408000, demo_file 184)"
  by code_simp

lemma demo_text_read:
  "\<exists>mem. load_segment demo_os fresh demo_text (m, demo_file 164) = Inr (mem, demo_file 188)"
proof -
  have "\<exists>s'. load_segment demo_os fresh demo_text (m, demo_file 164) = Inr s'"
  proof (rule load_segment_ok)
    have "length demo_elf = 188" by code_simp
    then show "unat (p_filesz demo_text) \<le> length (drop (unat (p_offset demo_text)) (contents (demo_file 164)))"
      by (simp add: demo_text_def demo_file_def)
  qed (simp_all add: demo_text_def)
  then obtain mem f where l: "load_segment demo_os fresh demo_text (m, demo_file 164) = Inr (mem, f)" by auto
  have "fread_bytes (fseek_set (demo_file 164) 184) 4 = ([0x78, 0x56, 0x34, 0x12], demo_file 188)" by code_simp
  with l have "f = demo_file 188"
    by (auto simp: load_segment_def Let_def demo_text_def elim!: bindR_InrE)
  with l show ?thesis by blast
qed

text \<open>C13: a loaded process starts at the entry point of the executable with the delay-slot
  registers in sequence, the global pointer of its symbol table and the stack pointer of the
  initial stack, every other register as before; outside the stack its memory is the image of
  the segments; and only a 32-bit little-endian MIPS executable gets that far.\<close>

theorem loaded_process:
  assumes "loader_elf os fresh (Some elf) s = Inr s'" "file_pos elf = 0"
  shows "(\<exists>v. gp_in_file (contents elf) v \<and> regs (cpu s') = (regs (cpu s))
       (MIPS_R_PC := e_entry (file_ehdr (contents elf)), MIPS_R_NPC := e_entry (file_ehdr (contents elf)) + 4,
        MIPS_R_NNPC := e_entry (file_ehdr (contents elf)) + 8, MIPS_R_GP := v, MIPS_R_SP := 0x7fffff98)) \<and>
    halted (cpu s') = halted (cpu s) \<and> branched (cpu s') = branched (cpu s) \<and>
    status (cpu s') = status (cpu s) \<and> hstate s' = hstate s \<and>
    (\<forall>x. x < 0x7fff0000 \<or> 0x80000000 < x \<longrightarrow> byte_at (gmem s') x =
      segment_image (contents elf) (file_phdrs (contents elf)) (byte_at (gmem s)) x) \<and>
    e_machine (file_ehdr (contents elf)) = EM_MIPS \<and> e_type (file_ehdr (contents elf)) = ET_EXEC \<and>
    e_ident (file_ehdr (contents elf)) ! EI_CLASS = ELFCLASS32 \<and>
    e_ident (file_ehdr (contents elf)) ! EI_DATA = ELFDATA2LSB"
  using loader_elf_process [OF assms] .

lemma loaded_process_witness:
  "\<exists>s'. loader_elf demo_os (\<lambda>_. 9) (Some (demo_file 0)) (demo_machine (\<lambda>_. 0)) = Inr s' \<and>
     get_reg MIPS_R_PC s' = 0x400000 \<and> get_reg MIPS_R_NPC s' = 0x400004 \<and>
     byte_at (gmem s') 0x400001 = 0x56"
proof -
  let ?s = "demo_machine (\<lambda>_. 0)"
  obtain mem where seg: "load_segment demo_os (\<lambda>_. 9) demo_text (gmem ?s, demo_file 164) = Inr (mem, demo_file 188)"
    using demo_text_read by blast
  obtain m1 where m1: "memory_allocate (os_calloc demo_os) mem STACK_BOT (STACK_SIZE + 1) = Inr m1"
    by (rule stack_allocated [of demo_os]) simp
  obtain s' where sp: "loader_load_sp demo_os demo_ehdr (?s\<lparr>gmem := mem,
      cpu := set_reg MIPS_R_GP 0x408000 (loader_load_pc demo_ehdr (cpu ?s))\<rparr>) = Inr s'"
    using loader_load_sp_ok [of demo_os "?s\<lparr>gmem := mem, cpu := set_reg MIPS_R_GP 0x408000 (loader_load_pc demo_ehdr (cpu ?s))\<rparr>" m1 demo_ehdr] m1 by auto
  have "loader_load_segments demo_os (\<lambda>_. 9) [demo_text] (gmem ?s, demo_file 164) = Inr (mem, demo_file 188)"
    using seg by (simp add: demo_text_def PT_LOAD_def)
  then have l: "loader_elf demo_os (\<lambda>_. 9) (Some (demo_file 0)) ?s = Inr s'"
    using sp by (simp add: loader_elf_def Let_def demo_ehdr demo_phdr_read demo_shdr_read
        loader_load_gp_def demo_gp del: loader_load_segments.simps)
  have f: "contents (demo_file 0) = demo_elf" "file_pos (demo_file 0) = 0" by (simp_all add: demo_file_def)
  have e: "file_ehdr demo_elf = demo_ehdr" "file_phdrs demo_elf = [demo_text]" by code_simp+
  have "segment_image demo_elf [demo_text] b 0x400001 = 0x56" for b by code_simp
  with loaded_process [OF l f(2)] l show ?thesis
    by (auto simp: f(1) e get_reg_def demo_ehdr_def)
qed

end
