(* ===== verification/Programs.thy ===== *)
theory Programs
  imports Loader Computed_Goto Tail_Call Blocked_Hash
begin

text \<open>
  The \<open>main\<close> functions of the four emulators. The result of a program is its exit status and
  the host's state; the loader and the interpreter may end it with a fault first, and the fuel
  may run out (\<open>None\<close>). The arguments are \<open>argc\<close> and the file that \<open>fopen\<close> of \<open>argv[1]\<close>
  returns. The memory that \<open>memory_delete\<close> frees at the end is not visible in the result.
\<close>

text \<open>\<open>struct mips mips = {}; struct memory memory = {}; memory_create(&memory)\<close>.\<close>

definition fresh_machine :: "'h \<Rightarrow> 'h machine" where
  "fresh_machine h = \<lparr>cpu = zero_mips, gmem = memory_create empty_memory, hstate = h\<rparr>"

definition switch_main ::
  "'h os \<Rightarrow> (nat \<Rightarrow> u8) \<Rightarrow> nat \<Rightarrow> nat \<Rightarrow> host_file option \<Rightarrow> 'h \<Rightarrow> (u32 \<times> 'h) result option" where
  "switch_main os fresh fuel argc file h =
     (if argc \<noteq> 2 then Some (Inr (1, h))
      else case loader_elf os fresh file (fresh_machine h) of
             Inl e \<Rightarrow> Some (Inl e)
           | Inr s \<Rightarrow>
               (case interpreter_switch os fuel s of
                  None \<Rightarrow> None
                | Some (Inl e) \<Rightarrow> Some (Inl e)
                | Some (Inr s) \<Rightarrow> Some (Inr (status (cpu s), hstate s))))"

definition computed_goto_main ::
  "'h os \<Rightarrow> (nat \<Rightarrow> u8) \<Rightarrow> nat \<Rightarrow> nat \<Rightarrow> host_file option \<Rightarrow> 'h \<Rightarrow> (u32 \<times> 'h) result option" where
  "computed_goto_main os fresh fuel argc file h =
     (if argc \<noteq> 2 then Some (Inr (1, h))
      else case loader_elf os fresh file (fresh_machine h) of
             Inl e \<Rightarrow> Some (Inl e)
           | Inr s \<Rightarrow>
               (case interpreter_computed_goto os fuel s of
                  None \<Rightarrow> None
                | Some (Inl e) \<Rightarrow> Some (Inl e)
                | Some (Inr s) \<Rightarrow> Some (Inr (status (cpu s), hstate s))))"

definition tail_call_main ::
  "'h os \<Rightarrow> (nat \<Rightarrow> u8) \<Rightarrow> nat \<Rightarrow> nat \<Rightarrow> host_file option \<Rightarrow> 'h \<Rightarrow> (u32 \<times> 'h) result option" where
  "tail_call_main os fresh fuel argc file h =
     (if argc \<noteq> 2 then Some (Inr (1, h))
      else case loader_elf os fresh file (fresh_machine h) of
             Inl e \<Rightarrow> Some (Inl e)
           | Inr s \<Rightarrow>
               (case interpreter_tail_call os fuel s of
                  None \<Rightarrow> None
                | Some (Inl e) \<Rightarrow> Some (Inl e)
                | Some (Inr s) \<Rightarrow> Some (Inr (status (cpu s), hstate s))))"

text \<open>The block-caching emulator returns 0 whatever the status of the process.\<close>

definition blocked_main ::
  "'h os \<Rightarrow> (nat \<Rightarrow> u8) \<Rightarrow> nat \<Rightarrow> nat \<Rightarrow> host_file option \<Rightarrow> 'h \<Rightarrow> (u32 \<times> 'h) result option" where
  "blocked_main os fresh fuel argc file h =
     (if argc \<noteq> 2 then Some (Inr (1, h))
      else case loader_elf os fresh file (fresh_machine h) of
             Inl e \<Rightarrow> Some (Inl e)
           | Inr s \<Rightarrow>
               (case interpreter_hashed os fuel s of
                  None \<Rightarrow> None
                | Some (Inl e) \<Rightarrow> Some (Inl e)
                | Some (Inr (s, freed)) \<Rightarrow> Some (Inr (0, hstate s))))"

end
