(* ===== verification/Emulator_Spec.thy ===== *)
theory Emulator_Spec
  imports Programs Hash_Spec Loader_Spec
begin

text \<open>
  The block-caching emulator as a whole, from the executable to its exit status: the loader, the
  hash table of blocks, the chained blocks and \<open>main\<close> together, against the switch emulator.
\<close>

section \<open>An executable that exits\<close>

text \<open>\<open>addiu $v0, $zero, 4001\<close>, \<open>syscall\<close>, \<open>j 0x400000\<close> and a \<open>nop\<close>.\<close>

definition exit_elf :: "u8 list" where
  "exit_elf = concat (map (bytes_le 4) ([
     0x464c457f, 0x010101, 0, 0, 0x80002, 1, 0x400000, 52, 84, 0, 0x200034, 0x280001, 2,
     1, 184, 0x400000, 0x400000, 16, 16, 5, 0x1000,
     0, 2, 0, 0, 164, 16, 1, 0, 4, 16,
     0, 3, 0, 0, 180, 4, 0, 0, 1, 0,
     0, 0x408000, 0, 0,
     0x70675f,
     0x24020fa1, 0x0000000c, 0x08100000, 0x00000000] :: u32 list))"

definition exit_file :: "nat \<Rightarrow> host_file" where
  "exit_file n = \<lparr>contents = exit_elf, file_pos = n\<rparr>"

definition exit_text :: elf_phdr where
  "exit_text = \<lparr>p_type = 1, p_offset = 184, p_vaddr = 0x400000, p_filesz = 16, p_memsz = 16\<rparr>"

text \<open>The loader asks the host for a few bytes only; which it gets.\<close>

lemma frugal_ehdr: "loader_load_ehdr frugal_os f = loader_load_ehdr demo_os f"
  by (simp add: loader_load_ehdr_def)

lemma frugal_phdr: "loader_load_phdr frugal_os f demo_ehdr = loader_load_phdr demo_os f demo_ehdr"
  by (simp add: loader_load_phdr_def demo_ehdr_def)

lemma frugal_shdr: "loader_load_shdr frugal_os f demo_ehdr = loader_load_shdr demo_os f demo_ehdr"
  by (simp add: loader_load_shdr_def demo_ehdr_def)

lemma frugal_gp: "search_sections frugal_os demo_shdrs f demo_shdrs = search_sections demo_os demo_shdrs f demo_shdrs"
  by (simp add: demo_shdrs_def loader_load_symbols_def SHT_SYMTAB_def)

lemma exit_file_ehdr: "loader_load_ehdr frugal_os (exit_file 0) = Inr (demo_ehdr, exit_file 52)"
  unfolding frugal_ehdr by code_simp

lemma exit_file_phdr: "loader_load_phdr frugal_os (exit_file 52) demo_ehdr = Inr ([exit_text], exit_file 84)"
  unfolding frugal_phdr by code_simp

lemma exit_file_shdr: "loader_load_shdr frugal_os (exit_file 84) demo_ehdr = Inr (demo_shdrs, exit_file 164)"
  unfolding frugal_shdr by code_simp

lemma exit_file_gp: "search_sections frugal_os demo_shdrs (exit_file 200) demo_shdrs = Inr (Some 0x408000, exit_file 184)"
  unfolding frugal_gp by code_simp

lemma exit_file_text:
  "\<exists>mem. load_segment frugal_os fresh exit_text (m, exit_file 164) = Inr (mem, exit_file 200)"
proof -
  have "\<exists>s'. load_segment frugal_os fresh exit_text (m, exit_file 164) = Inr s'"
  proof (rule load_segment_ok)
    have "length exit_elf = 200" by code_simp
    then show "unat (p_filesz exit_text) \<le> length (drop (unat (p_offset exit_text)) (contents (exit_file 164)))"
      by (simp add: exit_text_def exit_file_def)
  qed (simp_all add: exit_text_def frugal_os_def)
  then obtain mem f where l: "load_segment frugal_os fresh exit_text (m, exit_file 164) = Inr (mem, f)" by auto
  have "fread_bytes (fseek_set (exit_file 164) 184) 16 =
      ([0xa1, 0x0f, 0x02, 0x24, 0x0c, 0, 0, 0, 0, 0, 0x10, 0x08, 0, 0, 0, 0], exit_file 200)" by code_simp
  with l have "f = exit_file 200"
    by (auto simp: load_segment_def Let_def exit_text_def elim!: bindR_InrE)
  with l show ?thesis by blast
qed

lemma frugal_calloc: "os_calloc frugal_os t e"
  by (simp add: frugal_os_def)

lemma exit_loads: "\<exists>s'. loader_elf frugal_os fresh (Some (exit_file 0)) (fresh_machine ()) = Inr s'"
proof -
  let ?s = "fresh_machine ()"
  obtain mem where seg: "load_segment frugal_os fresh exit_text (gmem ?s, exit_file 164) = Inr (mem, exit_file 200)"
    using exit_file_text by blast
  obtain m1 where m1: "memory_allocate (os_calloc frugal_os) mem STACK_BOT (STACK_SIZE + 1) = Inr m1"
    by (rule stack_allocated [of frugal_os, OF frugal_calloc])
  let ?t = "?s\<lparr>gmem := mem, cpu := set_reg MIPS_R_GP 0x408000 (loader_load_pc demo_ehdr (cpu ?s))\<rparr>"
  obtain s' where sp: "loader_load_sp frugal_os demo_ehdr ?t = Inr s'"
    using loader_load_sp_ok [of frugal_os ?t m1 demo_ehdr] m1 by auto
  have "loader_load_segments frugal_os fresh [exit_text] (gmem ?s, exit_file 164) = Inr (mem, exit_file 200)"
    using seg by (simp add: exit_text_def PT_LOAD_def)
  with sp show ?thesis
    by (simp add: loader_elf_def Let_def exit_file_ehdr exit_file_phdr exit_file_shdr
        loader_load_gp_def exit_file_gp del: loader_load_segments.simps)
qed

text \<open>The process it becomes.\<close>

definition exit_words_at :: "(u32 \<times> u32) list" where
  "exit_words_at = [(0x400000, 0x24020fa1), (0x400004, 0x0000000c), (0x400008, 0x08100000), (0x40000c, 0)]"

lemma exit_loaded:
  assumes "loader_elf frugal_os fresh (Some (exit_file 0)) (fresh_machine ()) = Inr s"
  shows "\<forall>(a, w) \<in> set exit_words_at. memory_read_u32 (gmem s) a = Inr w"
    and "regs (cpu s) = (\<lambda>_. 0)(MIPS_R_PC := 0x400000, MIPS_R_NPC := 0x400004, MIPS_R_NNPC := 0x400008,
      MIPS_R_GP := regs (cpu s) MIPS_R_GP, MIPS_R_SP := 0x7fffff98)"
    and "\<not> halted (cpu s)" "status (cpu s) = 0"
proof -
  have f: "contents (exit_file 0) = exit_elf" "file_pos (exit_file 0) = 0" by (simp_all add: exit_file_def)
  have e: "file_ehdr exit_elf = demo_ehdr" "file_phdrs exit_elf = [exit_text]" by code_simp+
  note loaded = loader_elf_process [OF assms f(2), unfolded f(1) e]
  from loaded show "regs (cpu s) = (\<lambda>_. 0)(MIPS_R_PC := 0x400000, MIPS_R_NPC := 0x400004, MIPS_R_NNPC := 0x400008,
      MIPS_R_GP := regs (cpu s) MIPS_R_GP, MIPS_R_SP := 0x7fffff98)"
    "\<not> halted (cpu s)" "status (cpu s) = 0"
    by (auto simp: demo_ehdr_def fresh_machine_def zero_mips_def)
  have image: "segment_image exit_elf [exit_text] b (0x400000 + of_nat k) = drop 184 exit_elf ! k" if "k < 16" for b k
  proof -
    have "\<forall>k \<in> set [0..<16]. segment_image exit_elf [exit_text] b (0x400000 + of_nat k) = drop 184 exit_elf ! k"
      by code_simp
    with that show ?thesis by simp
  qed
  have byte: "byte_at (gmem s) (0x400000 + of_nat k) = drop 184 exit_elf ! k" if "k < 16" for k
  proof -
    have "(0x400000 + of_nat k :: u32) < 0x7fff0000"
    proof -
      have "\<forall>k \<in> set [0..<16]. (0x400000 + of_nat k :: u32) < 0x7fff0000" by code_simp
      with that show ?thesis by simp
    qed
    with loaded image [OF that] show ?thesis by auto
  qed
  have "mapped (gmem s) (0x400000 + of_nat (4 * j))" if "j < 4" for j
  proof (rule loaded_text_mapped [OF assms f(2), of exit_text])
    have "\<forall>j \<in> set [0..<4]. unat (0x400000 + of_nat (4 * j) - p_vaddr exit_text) < unat (p_memsz exit_text)" by code_simp
    with that show "unat (0x400000 + of_nat (4 * j) - p_vaddr exit_text) < unat (p_memsz exit_text)" by simp
  qed (simp_all add: f(1) e exit_text_def PT_LOAD_def)
  moreover have "in_page (0x400000 + of_nat (4 * j)) 4" if "j < 4" for j
  proof -
    have "\<forall>j \<in> set [0..<4]. in_page (0x400000 + of_nat (4 * j)) 4" by code_simp
    with that show ?thesis by simp
  qed
  moreover have "byte_at (gmem s) (0x400000 + of_nat (4 * j) + of_nat k) = drop 184 exit_elf ! (4 * j + k)"
    if "j < 4" "k < 4" for j k
    using byte [of "4 * j + k"] that by (simp add: add.assoc)
  then have "map (\<lambda>k. byte_at (gmem s) (0x400000 + of_nat (4 * j) + of_nat k)) [0..<4] =
      map (\<lambda>k. drop 184 exit_elf ! (4 * j + k)) [0..<4]" if "j < 4" for j
    using that by (intro map_cong refl) simp
  ultimately have read: "memory_read_u32 (gmem s) (0x400000 + of_nat (4 * j)) =
      Inr (word_le (map (\<lambda>k. drop 184 exit_elf ! (4 * j + k)) [0..<4]))" if "j < 4" for j
    using that by (simp add: memory_read_u32_def load_bytes_eq del: of_nat_mult map_eq_conv)
  have words: "\<forall>(a, w) \<in> set exit_words_at. \<exists>j \<in> set [0..<4]. a = 0x400000 + of_nat (4 * j) \<and>
      w = word_le (map (\<lambda>k. drop 184 exit_elf ! (4 * j + k)) [0..<4])" by code_simp
  show "\<forall>(a, w) \<in> set exit_words_at. memory_read_u32 (gmem s) a = Inr w"
    using words read by fastforce
qed

lemma exit_text_decode:
  "switch_decode pc 0x24020fa1 = Inr I_addiu" "switch_decode pc 0x08100000 = Inr I_j"
  by (simp_all add: switch_decode_def INSTRUCTIONS_PRIMARY_def opcode_consts field_def field_consts)

lemma exit_addiu: "get_rs 0x24020fa1 = 0" "get_rt 0x24020fa1 = 2" "get_imm16 0x24020fa1 = 4001"
  by code_simp+

definition exit_first :: "'h machine \<Rightarrow> 'h machine" where
  "exit_first s = upd_cpu INCREMENT_PC (put_reg MIPS_R_V0 4001 s)"

definition exit_second :: "'h machine \<Rightarrow> 'h machine" where
  "exit_second s = upd_cpu INCREMENT_PC (upd_cpu (\<lambda>m. m\<lparr>status := 0, halted := True\<rparr>) (exit_first s))"

lemma exit_steps:
  assumes "loader_elf frugal_os fresh (Some (exit_file 0)) (fresh_machine ()) = Inr s"
  shows "switch_body frugal_os s = Inr (exit_first s)"
    and "switch_body frugal_os (exit_first s) = Inr (exit_second s)"
proof -
  note l = exit_loaded [OF assms]
  have r: "regs (cpu s) 34 = 0x400000" "regs (cpu s) 35 = 0x400004" "regs (cpu s) 36 = 0x400008" "regs (cpu s) 0 = 0"
    "regs (cpu s) 4 = 0"
    by (subst l(2), simp)+
  have m: "memory_read_u32 (gmem s) 0x400000 = Inr 0x24020fa1" "memory_read_u32 (gmem s) 0x400004 = Inr 0x0000000c"
    using l(1) by (simp_all add: exit_words_at_def)
  show "switch_body frugal_os s = Inr (exit_first s)"
    by (simp add: switch_body_def fetch_def get_reg_def r m exit_text_decode itp_type_defs exit_first_def
        ITP_ADDIU_IMPL_def on_cpu_def put_reg_def exit_addiu)
  show "switch_body frugal_os (exit_first s) = Inr (exit_second s)"
    by (simp add: switch_body_def fetch_def exit_first_def exit_second_def get_reg_def r m exit_decode itp_type_defs
        ITP_SYSCALL_IMPL_def mips_syscall_exit_def NR_exit_def)
qed

lemma exit_loaded_reach:
  assumes "loader_elf frugal_os fresh (Some (exit_file 0)) (fresh_machine ()) = Inr s0" "switch_reach frugal_os s0 s"
  shows "s \<in> {s0, exit_first s0, exit_second s0}"
  using assms(2)
proof (induction rule: switch_reach.induct)
  case (reach_step s s')
  have "halted (cpu (exit_second s0))" by (simp add: exit_second_def)
  with reach_step exit_steps [OF assms(1)] show ?case by auto
qed simp

lemma exit_loaded_text:
  assumes "loader_elf frugal_os fresh (Some (exit_file 0)) (fresh_machine ()) = Inr s0"
  shows "text_stable frugal_os {0x400000, 0x400004} s0" "delay_slots_ok {0x400000, 0x400004} (gmem s0)"
proof -
  have pc: "get_reg MIPS_R_PC s0 = 0x400000" "get_reg MIPS_R_NPC s0 = 0x400004"
    unfolding get_reg_def by (subst exit_loaded(2) [OF assms], simp)+
  have "gmem (exit_first s0) = gmem s0" "gmem (exit_second s0) = gmem s0"
    "get_reg MIPS_R_PC (exit_first s0) = get_reg MIPS_R_NPC s0" "halted (cpu (exit_second s0))"
    by (simp_all add: exit_first_def exit_second_def get_reg_def)
  with pc show "text_stable frugal_os {0x400000, 0x400004} s0"
    unfolding text_stable_def by (auto dest!: exit_loaded_reach [OF assms])
  have "\<not> is_branch I_addiu" by (simp add: is_branch_def LABELS_BRANCH_def LABELS_BRANCH_INDIRECT_def)
  moreover have "block_dispatch 0x24020fa1 = Inr I_addiu"
    using exit_text_decode(1) by (simp add: block_dispatch_Inr [of _ _ 0])
  ultimately show "delay_slots_ok {0x400000, 0x400004} (gmem s0)"
    using exit_loaded(1) [OF assms]
    by (simp add: delay_slots_ok_def branch_at_def exit_words_at_def exit_dispatch exit_kinds)
qed

section \<open>Property\<close>

lemma loaded_sequential:
  assumes "loader_elf os fresh (Some elf) s = Inr s'" "file_pos elf = 0"
  shows "sequential s' = s'"
proof -
  from loader_elf_process [OF assms] obtain v where "regs (cpu s') = (regs (cpu s))
     (MIPS_R_PC := e_entry (file_ehdr (contents elf)), MIPS_R_NPC := e_entry (file_ehdr (contents elf)) + 4,
      MIPS_R_NNPC := e_entry (file_ehdr (contents elf)) + 8, MIPS_R_GP := v, MIPS_R_SP := 0x7fffff98)" by blast
  then have "get_reg MIPS_R_NPC s' = get_reg MIPS_R_PC s' + 4" "get_reg MIPS_R_NNPC s' = get_reg MIPS_R_PC s' + 8"
    by (simp_all add: get_reg_def)
  then show ?thesis by (simp add: sequential_def pcs_def put_reg_unchanged)
qed

text \<open>C3: the block-caching emulator against the switch emulator, for an executable that is
  read from the start of its file and loads, and a program that, from its start, does not modify
  the code it executes and has no branch in a delay slot. When the block-caching emulator returns, its exit status is 0, and the switch emulator
  returns too, from a process that differs in the program counters and the operations \<open>zs\<close> that end
  the last block only, with the same state of the host unless they make a system call. When the
  switch emulator ends, so does the other, within as many blocks as the first executes
  instructions, and with a fault if that is how the first ends.\<close>

theorem blocked_emulator:
  assumes "loader_elf os fresh (Some elf) (fresh_machine h) = Inr s0" "file_pos elf = 0"
    and "text_stable os T s0" "delay_slots_ok T (gmem s0)"
  shows "(case blocked_main os fresh fuel 2 (Some elf) h of
      Some (Inr (c, h')) \<Rightarrow> c = 0 \<and> (\<exists>n \<sigma> zs s'.
        switch_main os fresh n 2 (Some elf) h = Some (Inr (status (cpu \<sigma>), hstate \<sigma>)) \<and>
        goes_on os T (gmem s0) zs \<sigma> s' \<and> h' = hstate s' \<and>
        ((\<forall>x \<in> set zs. op_op x \<noteq> Some I_syscall) \<longrightarrow> h' = hstate \<sigma>))
    | _ \<Rightarrow> True) \<and>
   (case switch_main os fresh n 2 (Some elf) h of
      None \<Rightarrow> True
    | Some (Inl e) \<Rightarrow> \<exists>e'. blocked_main os fresh n 2 (Some elf) h = Some (Inl e')
    | Some (Inr _) \<Rightarrow> \<exists>r. blocked_main os fresh n 2 (Some elf) h = Some r)"
proof
  note seq = loaded_sequential [OF assms(1,2)]
  have hashed: "interpreter_hashed os k s0 = Some (Inl OutOfMemory) \<or>
      interpreter_hashed os k s0 = Some (Inl UndefinedShift) \<or>
      interpreter_blocked os k s0 = map_option (mapR fst) (interpreter_hashed os k s0)" for k
  proof -
    have "bindR r (\<lambda>(s', freed). Inr s') = mapR fst r" for r :: "('a machine \<times> u32 list) result"
      by (simp add: mapR_def split_def)
    with hashed_interpreter_eq [of os k s0] show ?thesis by auto
  qed
  have main: "blocked_main os fresh k 2 (Some elf) h = map_option (mapR (\<lambda>(s, _). (0, hstate s))) (interpreter_hashed os k s0)" for k
    using assms(1) by (auto simp: blocked_main_def split: option.split sum.split)
  have switch: "switch_main os fresh k 2 (Some elf) h =
      map_option (mapR (\<lambda>s. (status (cpu s), hstate s))) (interpreter_switch os k s0)" for k
    using assms(1) by (auto simp: switch_main_def split: option.split sum.split)
  show "case blocked_main os fresh fuel 2 (Some elf) h of
      Some (Inr (c, h')) \<Rightarrow> c = 0 \<and> (\<exists>n \<sigma> zs s'.
        switch_main os fresh n 2 (Some elf) h = Some (Inr (status (cpu \<sigma>), hstate \<sigma>)) \<and>
        goes_on os T (gmem s0) zs \<sigma> s' \<and> h' = hstate s' \<and>
        ((\<forall>x \<in> set zs. op_op x \<noteq> Some I_syscall) \<longrightarrow> h' = hstate \<sigma>))
    | _ \<Rightarrow> True"
  proof (cases "\<exists>s' ps. interpreter_hashed os fuel s0 = Some (Inr (s', ps))")
    case True
    then obtain s' ps where s': "interpreter_hashed os fuel s0 = Some (Inr (s', ps))" by blast
    with hashed [of fuel] have "interpreter_blocked os fuel s0 = Some (Inr s')" by simp
    from finished_switch [OF blocked_run_finished [OF assms(3,4) seq this]] obtain n \<sigma> zs
      where run: "interpreter_switch os n s0 = Some (Inr \<sigma>)" "goes_on os T (gmem s0) zs \<sigma> s'" by blast
    have "switch_main os fresh n 2 (Some elf) h = Some (Inr (status (cpu \<sigma>), hstate \<sigma>))"
      by (simp add: switch run(1))
    with run(2) goes_on_no_syscall [OF run(2)] show ?thesis by (simp add: main s') blast
  next
    case False
    then show ?thesis by (auto simp: main mapR_eq_Inr split: option.split sum.split)
  qed
  show "case switch_main os fresh n 2 (Some elf) h of
      None \<Rightarrow> True
    | Some (Inl e) \<Rightarrow> \<exists>e'. blocked_main os fresh n 2 (Some elf) h = Some (Inl e')
    | Some (Inr _) \<Rightarrow> \<exists>r. blocked_main os fresh n 2 (Some elf) h = Some r"
  proof (cases "interpreter_switch os n s0")
    case (Some r)
    from blocked_ends_with_switch [OF assms(3,4) seq Some] hashed [of n] show ?thesis
      by (auto simp: main switch Some mapR_eq_Inl split: sum.splits)
  qed (simp add: switch)
qed

lemma blocked_emulator_witness:
  "\<exists>r. switch_main frugal_os (\<lambda>_. 9) 2 2 (Some (exit_file 0)) () = Some (Inr (0, ())) \<and>
     blocked_main frugal_os (\<lambda>_. 9) 2 2 (Some (exit_file 0)) () = Some r"
proof -
  obtain s0 where l: "loader_elf frugal_os (\<lambda>_. 9) (Some (exit_file 0)) (fresh_machine ()) = Inr s0"
    using exit_loads by blast
  have "interpreter_switch frugal_os 2 s0 = Some (Inr (exit_second s0))"
    using exit_steps [OF l] exit_loaded(3) [OF l]
    by (simp add: numeral_2_eq_2) (simp add: exit_first_def exit_second_def)
  then have s: "switch_main frugal_os (\<lambda>_. 9) 2 2 (Some (exit_file 0)) () = Some (Inr (0, ()))"
    using l by (simp add: switch_main_def) (simp add: exit_second_def)
  have "file_pos (exit_file 0) = 0" by (simp add: exit_file_def)
  from blocked_emulator [OF l this exit_loaded_text [OF l], of 2 2] s show ?thesis by simp
qed

end
