(* ===== verification/Instrumentation.thy ===== *)
theory Instrumentation
  imports Prelude
begin

text \<open>
  The measuring tool of the profiling builds: the four hooks of \<open>src/benchmark.c\<close>, which do
  nothing themselves, and \<open>src/pintool/InterpreterEfficiency.cpp\<close>, which finds them by their
  symbols, has two flags set on their entry and counts the host's instructions by the flags.
  The instrumentation framework is a parameter: \<open>pin calls each a\<close> is what it runs before the
  instruction at \<open>a\<close>, given the calls inserted at routines and those inserted at every instruction.
\<close>

section \<open>The hooks\<close>

datatype hook = ENTER_PROCESSING | EXIT_PROCESSING | ENTER_DISPATCHING | EXIT_DISPATCHING

fun hook_name :: "hook \<Rightarrow> string" where
  "hook_name ENTER_PROCESSING = ''ENTER_PROCESSING''"
| "hook_name EXIT_PROCESSING = ''EXIT_PROCESSING''"
| "hook_name ENTER_DISPATCHING = ''ENTER_DISPATCHING''"
| "hook_name EXIT_DISPATCHING = ''EXIT_DISPATCHING''"

section \<open>The state of the tool and its analysis routines\<close>

record tool =
  g_dispatching_enabled :: bool
  g_processing_enabled :: bool
  g_dispatching_count :: u64
  g_processing_count :: u64

definition tool_start :: tool where
  "tool_start = \<lparr>g_dispatching_enabled = False, g_processing_enabled = False,
     g_dispatching_count = 0, g_processing_count = 0\<rparr>"

definition CountInstruction :: "tool \<Rightarrow> tool" where
  "CountInstruction g =
     (let g = (if g_dispatching_enabled g \<and> \<not> g_processing_enabled g
               then g\<lparr>g_dispatching_count := g_dispatching_count g + 1\<rparr> else g)
      in if g_processing_enabled g
         then g\<lparr>g_processing_count := g_processing_count g + 1\<rparr> else g)"

definition SetProcessingEnabled :: "bool \<Rightarrow> tool \<Rightarrow> tool" where
  "SetProcessingEnabled enabled g = g\<lparr>g_processing_enabled := enabled\<rparr>"

definition SetDispatchingEnabled :: "bool \<Rightarrow> tool \<Rightarrow> tool" where
  "SetDispatchingEnabled enabled g = g\<lparr>g_dispatching_enabled := enabled\<rparr>"

text \<open>The routines with their arguments, as they are inserted.\<close>

datatype analysis = Count | Processing bool | Dispatching bool

fun run_analysis :: "analysis \<Rightarrow> tool \<Rightarrow> tool" where
  "run_analysis Count = CountInstruction"
| "run_analysis (Processing enabled) = SetProcessingEnabled enabled"
| "run_analysis (Dispatching enabled) = SetDispatchingEnabled enabled"

text \<open>\<open>Instruction\<close> inserts the counting before every instruction.\<close>

definition Instruction :: "analysis list" where
  "Instruction = [Count]"

section \<open>Finding the hooks\<close>

record symbol =
  sym_name :: string
  sym_value :: u64

record image =
  img_main :: bool
  img_low :: u64
  img_symbols :: "symbol list"

definition symbol_call :: "string \<Rightarrow> analysis option" where
  "symbol_call name =
     (if name = ''ENTER_PROCESSING'' then Some (Processing True)
      else if name = ''EXIT_PROCESSING'' then Some (Processing False)
      else if name = ''ENTER_DISPATCHING'' then Some (Dispatching True)
      else if name = ''EXIT_DISPATCHING'' then Some (Dispatching False)
      else None)"

text \<open>\<open>find_rtn\<close> is the framework's \<open>RTN_FindByAddress\<close>, \<open>None\<close> an invalid routine.\<close>

definition HookProfilingFunctions ::
  "(u64 \<Rightarrow> u64 option) \<Rightarrow> image \<Rightarrow> (u64 \<times> analysis) list" where
  "HookProfilingFunctions find_rtn img =
     (if \<not> img_main img then []
      else concat (map (\<lambda>sym.
        case symbol_call (sym_name sym) of
          None \<Rightarrow> []
        | Some call \<Rightarrow>
            (case find_rtn (img_low img + sym_value sym) of
               None \<Rightarrow> []
             | Some rtn \<Rightarrow> [(rtn, call)])) (img_symbols img)))"

section \<open>An instrumented execution\<close>

text \<open>\<open>main\<close> registers both and starts the program, which executes the instructions at \<open>as\<close>.\<close>

definition instrumented ::
  "((u64 \<times> analysis) list \<Rightarrow> analysis list \<Rightarrow> u64 \<Rightarrow> analysis list) \<Rightarrow>
   (u64 \<Rightarrow> u64 option) \<Rightarrow> image \<Rightarrow> u64 list \<Rightarrow> tool \<Rightarrow> tool" where
  "instrumented pin find_rtn img as g =
     fold (\<lambda>a. fold run_analysis (pin (HookProfilingFunctions find_rtn img) Instruction a)) as g"

text \<open>
  What the tool relies on: the calls of a routine run before its first instruction, and, as they
  were inserted when the image was loaded, before the call inserted at that instruction itself.
\<close>

definition pin_runs_calls ::
  "((u64 \<times> analysis) list \<Rightarrow> analysis list \<Rightarrow> u64 \<Rightarrow> analysis list) \<Rightarrow> bool" where
  "pin_runs_calls pin \<longleftrightarrow>
     (\<forall>calls each a. pin calls each a = map snd (filter (\<lambda>(rtn, _). rtn = a) calls) @ each)"

text \<open>The image is the emulator's, with a symbol for every hook that leads to its entry.\<close>

definition hooks_located :: "(u64 \<Rightarrow> u64 option) \<Rightarrow> image \<Rightarrow> (hook \<Rightarrow> u64) \<Rightarrow> bool" where
  "hooks_located find_rtn img entry \<longleftrightarrow> img_main img \<and> inj entry \<and>
     (\<forall>k. \<exists>sym \<in> set (img_symbols img). sym_name sym = hook_name k) \<and>
     (\<forall>k. \<forall>sym \<in> set (img_symbols img). sym_name sym = hook_name k \<longrightarrow>
        find_rtn (img_low img + sym_value sym) = Some (entry k))"

fun hook_call :: "hook \<Rightarrow> analysis" where
  "hook_call ENTER_PROCESSING = Processing True"
| "hook_call EXIT_PROCESSING = Processing False"
| "hook_call ENTER_DISPATCHING = Dispatching True"
| "hook_call EXIT_DISPATCHING = Dispatching False"

lemma symbol_call_hook: "symbol_call (hook_name k) = Some (hook_call k)"
  by (cases k) (simp_all add: symbol_call_def)

lemma symbol_call_Some: "symbol_call name = Some c \<Longrightarrow> \<exists>k. name = hook_name k \<and> c = hook_call k"
  by (auto simp: symbol_call_def split: if_splits
      intro: exI [of _ ENTER_PROCESSING] exI [of _ EXIT_PROCESSING] exI [of _ ENTER_DISPATCHING]
        exI [of _ EXIT_DISPATCHING])

text \<open>The inserted calls: one at each hook, perhaps repeated.\<close>

lemma set_hook_calls:
  assumes "hooks_located find_rtn img entry"
  shows "set (HookProfilingFunctions find_rtn img) = range (\<lambda>k. (entry k, hook_call k))"
proof (intro set_eqI iffI)
  fix p assume "p \<in> set (HookProfilingFunctions find_rtn img)"
  then obtain sym call rtn where sym: "sym \<in> set (img_symbols img)" "symbol_call (sym_name sym) = Some call"
    "find_rtn (img_low img + sym_value sym) = Some rtn" "p = (rtn, call)"
    by (fastforce simp: HookProfilingFunctions_def split: if_splits option.splits)
  then obtain k where "sym_name sym = hook_name k" "call = hook_call k" using symbol_call_Some by blast
  with assms sym show "p \<in> range (\<lambda>k. (entry k, hook_call k))" by (auto simp: hooks_located_def)
next
  fix p assume "p \<in> range (\<lambda>k. (entry k, hook_call k))"
  then obtain k where p: "p = (entry k, hook_call k)" by blast
  from assms have "\<forall>k. \<exists>sym \<in> set (img_symbols img). sym_name sym = hook_name k"
    by (simp add: hooks_located_def)
  then obtain sym where "sym \<in> set (img_symbols img)" "sym_name sym = hook_name k" by blast
  with assms p show "p \<in> set (HookProfilingFunctions find_rtn img)"
    by (auto simp: HookProfilingFunctions_def hooks_located_def symbol_call_hook intro!: bexI [of _ sym])
qed

lemma run_analysis_idem: "k \<noteq> Count \<Longrightarrow> run_analysis k (run_analysis k g) = run_analysis k g"
  by (cases k) (simp_all add: SetProcessingEnabled_def SetDispatchingEnabled_def)

lemma run_same:
  assumes "set cs = {c}" "c \<noteq> Count"
  shows "fold run_analysis cs g = run_analysis c g"
  using assms(1)
proof (induction cs arbitrary: g)
  case (Cons d cs)
  then show ?case
    by (cases "cs = []") (auto simp: run_analysis_idem [OF assms(2)] subset_singleton_iff)
qed simp

lemma hook_call_not_Count: "hook_call k \<noteq> Count"
  by (cases k) simp_all

lemma instrumented_at:
  assumes "pin_runs_calls pin" "hooks_located find_rtn img entry"
  shows "fold run_analysis (pin (HookProfilingFunctions find_rtn img) Instruction (entry k)) g =
      CountInstruction (run_analysis (hook_call k) g)"
    and "a \<notin> range entry \<Longrightarrow>
      fold run_analysis (pin (HookProfilingFunctions find_rtn img) Instruction a) g = CountInstruction g"
proof -
  let ?calls = "HookProfilingFunctions find_rtn img"
  have sel: "fold run_analysis (pin ?calls Instruction a) g =
      CountInstruction (fold run_analysis (map snd (filter (\<lambda>(rtn, _). rtn = a) ?calls)) g)" for a
    using assms(1) by (simp add: pin_runs_calls_def Instruction_def)
  have "inj entry" using assms(2) by (simp add: hooks_located_def)
  then have "set (map snd (filter (\<lambda>(rtn, _). rtn = entry k) ?calls)) = {hook_call k}"
    by (auto simp: set_hook_calls [OF assms(2)] dest: injD intro: image_eqI [of _ _ "(entry k, hook_call k)"])
  from run_same [OF this hook_call_not_Count]
  show "fold run_analysis (pin ?calls Instruction (entry k)) g = CountInstruction (run_analysis (hook_call k) g)"
    by (simp add: sel)
  assume "a \<notin> range entry"
  then have "filter (\<lambda>(rtn, _). rtn = a) ?calls = []"
    by (auto simp: filter_empty_conv set_hook_calls [OF assms(2)])
  then show "fold run_analysis (pin ?calls Instruction a) g = CountInstruction g" by (simp add: sel)
qed

end
