(* ===== verification/Profile.thy ===== *)
theory Profile
  imports Instrumentation Computed_Goto Tail_Call Blocked_Output
begin

text \<open>
  The profiling builds of the four interpreters: every instruction's body is bracketed by the
  hooks \<open>ENTER_PROCESSING\<close> and \<open>EXIT_PROCESSING\<close>, and \<open>main\<close> brackets the interpreter by
  \<open>ENTER_DISPATCHING\<close> and \<open>EXIT_DISPATCHING\<close>. A run returns the instructions of the host that it
  executes, in pieces labelled with the part of the source they come from. The compiled code is a
  parameter. The trace of a run that faults ends before the hooks of the instruction that faults.
\<close>

section \<open>The host's instructions\<close>

datatype region = In_hook hook | In_body mnemonic | Elsewhere

type_synonym host_trace = "(region \<times> u64 list) list"

text \<open>
  The compiled code: the addresses executed by the call of a hook, by an instruction's body, by
  the entry of an interpreter up to its first turn, and, in the fetch-execute interpreters, before
  the body (loop test, fetch, dispatch) and after it. The block-caching interpreter has the head of
  its outer loop (lookup, decoding, insertion, chaining), the head and the end of a turn, the code
  around the call of an operation, and the release of the blocks behind the loop.
\<close>

record 'h host_code =
  hook_code :: "hook \<Rightarrow> u64 list"
  body_code :: "mnemonic \<Rightarrow> u32 \<Rightarrow> 'h machine \<Rightarrow> u64 list"
  entry_code :: "'h machine \<Rightarrow> u64 list"
  dispatch_code :: "'h machine \<Rightarrow> u64 list"
  retire_code :: "'h machine \<Rightarrow> u64 list"
  block_enter_code :: "'h blocked \<Rightarrow> u64 list"
  turn_code :: "block \<Rightarrow> 'h machine \<Rightarrow> u64 list"
  call_code :: "op_t \<Rightarrow> 'h machine \<Rightarrow> u64 list"
  return_code :: "op_t \<Rightarrow> 'h machine \<Rightarrow> u64 list"
  turn_end_code :: "block \<Rightarrow> 'h machine \<Rightarrow> u64 list"
  release_code :: "'h blocked \<Rightarrow> u64 list"

definition profile_hook :: "'h host_code \<Rightarrow> hook \<Rightarrow> region \<times> u64 list" where
  "profile_hook hc k = (In_hook k, hook_code hc k)"

text \<open>\<open>PROFILE_ENTER_INSTRUCTION type impl PROFILE_EXIT_INSTRUCTION\<close>.\<close>

definition profiled_body :: "'h host_code \<Rightarrow> mnemonic \<Rightarrow> u32 \<Rightarrow> 'h machine \<Rightarrow> host_trace" where
  "profiled_body hc i cir s =
     [profile_hook hc ENTER_PROCESSING, (In_body i, body_code hc i cir s), profile_hook hc EXIT_PROCESSING]"

section \<open>The interpreters\<close>

definition switch_body_prof ::
  "'h host_code \<Rightarrow> 'h os \<Rightarrow> 'h machine \<Rightarrow> (host_trace \<times> 'h machine) result" where
  "switch_body_prof hc os s =
     bindR (fetch s) (\<lambda>cir.
     bindR (switch_decode (get_reg MIPS_R_PC s) cir) (\<lambda>i.
     bindR (interpret_instr os i cir s) (\<lambda>s'.
     Inr ((Elsewhere, dispatch_code hc s) # profiled_body hc i cir s @ [(Elsewhere, retire_code hc s')],
       upd_cpu INCREMENT_PC s'))))"

primrec interpreter_switch_prof ::
  "'h host_code \<Rightarrow> 'h os \<Rightarrow> nat \<Rightarrow> 'h machine \<Rightarrow> host_trace \<times> 'h machine result option" where
  "interpreter_switch_prof hc os 0 s =
     (if halted (cpu s) then ([(Elsewhere, dispatch_code hc s)], Some (Inr s)) else ([], None))"
| "interpreter_switch_prof hc os (Suc n) s =
     (if halted (cpu s) then ([(Elsewhere, dispatch_code hc s)], Some (Inr s))
      else case switch_body_prof hc os s of
             Inl e \<Rightarrow> ([], Some (Inl e))
           | Inr (t, s') \<Rightarrow> output_first t (interpreter_switch_prof hc os n s'))"

fun goto_DISPATCH_prof ::
    "'h host_code \<Rightarrow> 'h os \<Rightarrow> nat \<Rightarrow> 'h machine \<Rightarrow> host_trace \<times> 'h machine result option"
  and goto_label_prof ::
    "'h host_code \<Rightarrow> 'h os \<Rightarrow> nat \<Rightarrow> mnemonic \<Rightarrow> u32 \<Rightarrow> 'h machine \<Rightarrow> host_trace \<times> 'h machine result option" where
  "goto_DISPATCH_prof hc os fuel s =
     output_first [(Elsewhere, dispatch_code hc s)]
       (if halted (cpu s) then ([], Some (Inr s))
        else case fuel of
          0 \<Rightarrow> ([], None)
        | Suc n \<Rightarrow>
          (case bindR (fetch s) (\<lambda>cir. bindR (goto_dispatch cir) (\<lambda>i. Inr (i, cir))) of
             Inl e \<Rightarrow> ([], Some (Inl e))
           | Inr (i, cir) \<Rightarrow> goto_label_prof hc os n i cir s))"
| "goto_label_prof hc os fuel i cir s =
     (case interpret_instr os i cir s of
        Inl e \<Rightarrow> ([], Some (Inl e))
      | Inr s' \<Rightarrow>
          output_first (profiled_body hc i cir s @ [(Elsewhere, retire_code hc s')])
            (goto_DISPATCH_prof hc os fuel (upd_cpu INCREMENT_PC s')))"

declare goto_DISPATCH_prof.simps [simp del] goto_label_prof.simps [simp del]

definition interpreter_computed_goto_prof ::
  "'h host_code \<Rightarrow> 'h os \<Rightarrow> nat \<Rightarrow> 'h machine \<Rightarrow> host_trace \<times> 'h machine result option" where
  "interpreter_computed_goto_prof hc os fuel s = goto_DISPATCH_prof hc os fuel s"

fun tail_handler_prof ::
  "'h host_code \<Rightarrow> 'h os \<Rightarrow> nat \<Rightarrow> mnemonic \<Rightarrow> u32 \<Rightarrow> 'h machine \<Rightarrow> host_trace \<times> 'h machine result option" where
  "tail_handler_prof hc os fuel i cir s =
     output_first [(Elsewhere, dispatch_code hc s)]
       (if halted (cpu s) then ([], Some (Inr s))
        else case fuel of
          0 \<Rightarrow> ([], None)
        | Suc n \<Rightarrow>
          (case interpret_instr os i cir s of
             Inl e \<Rightarrow> ([], Some (Inl e))
           | Inr s' \<Rightarrow>
               output_first (profiled_body hc i cir s @ [(Elsewhere, retire_code hc s')])
                 (let s'' = upd_cpu INCREMENT_PC s'
                  in case tail_next s'' of
                       Inl e \<Rightarrow> ([], Some (Inl e))
                     | Inr (i', cir') \<Rightarrow> tail_handler_prof hc os n i' cir' s'')))"

declare tail_handler_prof.simps [simp del]

definition interpreter_tail_call_prof ::
  "'h host_code \<Rightarrow> 'h os \<Rightarrow> nat \<Rightarrow> 'h machine \<Rightarrow> host_trace \<times> 'h machine result option" where
  "interpreter_tail_call_prof hc os fuel s =
     (case tail_next s of
        Inl e \<Rightarrow> ([], Some (Inl e))
      | Inr (i, cir) \<Rightarrow> tail_handler_prof hc os fuel i cir s)"

text \<open>
  The handlers of the block-caching interpreter hold the hooks; the unrolled loop calls them. The
  blocks are released between the two hooks of \<open>main\<close>.
\<close>

definition exec_op_prof ::
  "'h host_code \<Rightarrow> 'h os \<Rightarrow> op_t \<Rightarrow> 'h machine \<Rightarrow> host_trace \<times> 'h machine result" where
  "exec_op_prof hc os x s =
     (case op_op x of
        None \<Rightarrow> ([], Inl NullHandler)
      | Some i \<Rightarrow>
          (case interpret_instr os i (op_cir x) s of
             Inl e \<Rightarrow> ([], Inl e)
           | Inr s' \<Rightarrow>
               ((Elsewhere, call_code hc x s) # profiled_body hc i (op_cir x) s @
                  [(Elsewhere, return_code hc x s')], Inr s')))"

definition exec_block_prof ::
  "'h host_code \<Rightarrow> 'h os \<Rightarrow> block \<Rightarrow> 'h machine \<Rightarrow> host_trace \<times> 'h machine result" where
  "exec_block_prof hc os blk s =
     (let s' = put_reg MIPS_R_PC (get_reg MIPS_R_PC s + 4 * (blk_size blk - 3)) s
      in output_first [(Elsewhere, turn_code hc blk s)]
           (bindO (unrolled_loop_out (exec_op_prof hc os) (blk_size blk) (blk_ops blk) s') (\<lambda>s.
              ([(Elsewhere, turn_end_code hc blk s)], Inr (put_reg MIPS_R_PC (get_reg MIPS_R_NNPC s) s)))))"

definition interpreter_blocked_prof ::
  "'h host_code \<Rightarrow> 'h os \<Rightarrow> nat \<Rightarrow> 'h machine \<Rightarrow> host_trace \<times> 'h machine result option" where
  "interpreter_blocked_prof hc os fuel s =
     interpreter_blocked_out (\<lambda>b. [(Elsewhere, block_enter_code hc b)]) (exec_block_prof hc os)
       (\<lambda>b. [(Elsewhere, release_code hc b)]) os fuel s"

text \<open>
  \<open>main\<close> enables the counting around the call of its interpreter; a run that does not return
  never comes to the second hook.
\<close>

definition PROFILE_INTERPRETER ::
  "'h host_code \<Rightarrow> 'h machine \<Rightarrow> host_trace \<times> 'h machine result option \<Rightarrow> host_trace \<times> 'h machine result option" where
  "PROFILE_INTERPRETER hc s p =
     (let (t, r) = p
      in (profile_hook hc ENTER_DISPATCHING # (Elsewhere, entry_code hc s) # t @
           (case r of Some (Inr _) \<Rightarrow> [profile_hook hc EXIT_DISPATCHING] | _ \<Rightarrow> []), r))"

definition switch_profile where
  "switch_profile hc os fuel s = PROFILE_INTERPRETER hc s (interpreter_switch_prof hc os fuel s)"

definition computed_goto_profile where
  "computed_goto_profile hc os fuel s = PROFILE_INTERPRETER hc s (interpreter_computed_goto_prof hc os fuel s)"

definition tail_call_profile where
  "tail_call_profile hc os fuel s = PROFILE_INTERPRETER hc s (interpreter_tail_call_prof hc os fuel s)"

definition blocked_profile where
  "blocked_profile hc os fuel s = PROFILE_INTERPRETER hc s (interpreter_blocked_prof hc os fuel s)"

section \<open>Profiling does not change the run\<close>

lemma switch_body_prof_map: "switch_body os s = mapR snd (switch_body_prof hc os s)"
  unfolding switch_body_def switch_body_prof_def
  by (cases "fetch s") (auto simp: bindR_def mapR_def split: sum.splits)

lemma switch_prof_run: "snd (interpreter_switch_prof hc os fuel s) = interpreter_switch os fuel s"
proof (induction fuel arbitrary: s)
  case (Suc n)
  then show ?case
    by (cases "switch_body_prof hc os s") (auto simp: switch_body_prof_map [of os s hc] split: prod.splits)
qed simp

lemma goto_prof_run:
  "snd (goto_DISPATCH_prof hc os fuel s) = goto_DISPATCH os fuel s"
  "snd (goto_label_prof hc os fuel i cir s) = goto_label os fuel i cir s"
proof (induction hc os fuel s and hc os fuel i cir s rule: goto_DISPATCH_prof_goto_label_prof.induct)
  case (1 hc os fuel s)
  then show ?case
    by (auto simp: goto_DISPATCH_prof.simps [of hc os fuel s] goto_DISPATCH.simps [of os fuel s]
        split: nat.splits sum.splits prod.splits)
next
  case (2 hc os fuel i cir s)
  then show ?case
    by (auto simp: goto_label_prof.simps [of hc os fuel i cir s] goto_label.simps [of os fuel i cir s] Let_def
        split: sum.splits)
qed

lemma tail_prof_run: "snd (tail_handler_prof hc os fuel i cir s) = tail_handler os fuel i cir s"
proof (induction hc os fuel i cir s rule: tail_handler_prof.induct)
  case (1 hc os fuel i cir s)
  then show ?case
    by (auto simp: tail_handler_prof.simps [of hc os fuel i cir s] tail_handler.simps [of os fuel i cir s] Let_def
        split: nat.splits sum.splits prod.splits)
qed

lemma exec_op_prof_run: "snd (exec_op_prof hc os x s) = exec_op os x s"
  by (simp add: exec_op_prof_def exec_op_def split: option.split sum.split)

lemma exec_block_prof_run: "snd (exec_block_prof hc os blk s) = exec_block os blk s"
  by (simp add: exec_block_prof_def exec_block_def Let_def snd_bindO unrolled_loop_out_run exec_op_prof_run)

end
