(* ===== verification/Profile_Spec.thy ===== *)
theory Profile_Spec
  imports Profile Blocked_Spec
begin

text \<open>
  The properties of the profiling builds: profiling does not change what the interpreters do, the
  hooks are well bracketed in every trace, and the tool's two counts are the numbers of host
  instructions inside and outside the bodies of the guest's instructions, plus those of the hooks.
\<close>

section \<open>Bracketed traces\<close>

fun bracketed :: "host_trace \<Rightarrow> bool" where
  "bracketed [] = True"
| "bracketed ((Elsewhere, _) # t) = bracketed t"
| "bracketed ((In_hook ENTER_PROCESSING, _) # (In_body _, _) # (In_hook EXIT_PROCESSING, _) # t) = bracketed t"
| "bracketed _ = False"

definition region_ok :: "'h host_code \<Rightarrow> (hook \<Rightarrow> u64) \<Rightarrow> region \<times> u64 list \<Rightarrow> bool" where
  "region_ok hc entry p \<longleftrightarrow>
     (case fst p of In_hook k \<Rightarrow> p = profile_hook hc k | _ \<Rightarrow> set (snd p) \<inter> range entry = {})"

definition trace_ok :: "'h host_code \<Rightarrow> (hook \<Rightarrow> u64) \<Rightarrow> host_trace \<Rightarrow> bool" where
  "trace_ok hc entry t \<longleftrightarrow> bracketed t \<and> list_all (region_ok hc entry) t"

text \<open>The compiler's part: a hook is entered at its entry, and only by a call of it.\<close>

definition compiled :: "'h host_code \<Rightarrow> (hook \<Rightarrow> u64) \<Rightarrow> bool" where
  "compiled hc entry \<longleftrightarrow>
     (\<forall>k. hook_code hc k \<noteq> [] \<and> hd (hook_code hc k) = entry k \<and> set (tl (hook_code hc k)) \<inter> range entry = {}) \<and>
     (\<forall>i cir s. set (body_code hc i cir s) \<inter> range entry = {}) \<and>
     (\<forall>s. set (entry_code hc s) \<inter> range entry = {} \<and> set (dispatch_code hc s) \<inter> range entry = {} \<and>
        set (retire_code hc s) \<inter> range entry = {}) \<and>
     (\<forall>b. set (block_enter_code hc b) \<inter> range entry = {} \<and> set (release_code hc b) \<inter> range entry = {}) \<and>
     (\<forall>blk s. set (turn_code hc blk s) \<inter> range entry = {} \<and> set (turn_end_code hc blk s) \<inter> range entry = {}) \<and>
     (\<forall>x s. set (call_code hc x s) \<inter> range entry = {} \<and> set (return_code hc x s) \<inter> range entry = {})"

lemma bracketed_append: "bracketed t \<Longrightarrow> bracketed u \<Longrightarrow> bracketed (t @ u)"
  by (induction t rule: bracketed.induct) simp_all

lemma trace_ok_simps [simp]:
  "trace_ok hc entry []" "trace_ok hc entry t \<Longrightarrow> trace_ok hc entry u \<Longrightarrow> trace_ok hc entry (t @ u)"
  by (simp_all add: trace_ok_def bracketed_append)

lemma compiled_pieces:
  assumes "compiled hc entry"
  shows "trace_ok hc entry [(Elsewhere, dispatch_code hc s)]" "trace_ok hc entry [(Elsewhere, retire_code hc s)]"
    "trace_ok hc entry (profiled_body hc i cir s)" "trace_ok hc entry [(Elsewhere, entry_code hc s)]"
    "trace_ok hc entry [(Elsewhere, block_enter_code hc b)]" "trace_ok hc entry [(Elsewhere, release_code hc b)]"
    "trace_ok hc entry [(Elsewhere, turn_code hc blk s)]" "trace_ok hc entry [(Elsewhere, turn_end_code hc blk s)]"
    "trace_ok hc entry [(Elsewhere, call_code hc x s)]" "trace_ok hc entry [(Elsewhere, return_code hc x s)]"
  using assms by (auto simp: trace_ok_def region_ok_def compiled_def profiled_body_def profile_hook_def)

lemma compiled_turn:
  assumes "compiled hc entry"
  shows "trace_ok hc entry ((Elsewhere, dispatch_code hc s) # profiled_body hc i cir s @ [(Elsewhere, retire_code hc s')])"
    "trace_ok hc entry (profiled_body hc i cir s @ [(Elsewhere, retire_code hc s')])"
  using trace_ok_simps(2) [OF compiled_pieces(1) [OF assms] trace_ok_simps(2) [OF compiled_pieces(3,2) [OF assms]]]
    trace_ok_simps(2) [OF compiled_pieces(3,2) [OF assms]] by simp_all

section \<open>The interpreters' traces\<close>

lemma switch_trace_ok:
  assumes "compiled hc entry"
  shows "trace_ok hc entry (fst (interpreter_switch_prof hc os fuel s))"
proof (induction fuel arbitrary: s)
  case (Suc n)
  show ?case
  proof (cases "switch_body_prof hc os s")
    case (Inr p)
    then have "trace_ok hc entry (fst p)"
      by (auto simp: switch_body_prof_def compiled_turn [OF assms] elim!: bindR_InrE)
    with Suc Inr show ?thesis by (cases p) (simp add: compiled_pieces [OF assms])
  qed (simp add: compiled_pieces [OF assms])
qed (simp add: compiled_pieces [OF assms])

lemma goto_trace_ok:
  assumes "compiled hc entry"
  shows "trace_ok hc entry (fst (goto_DISPATCH_prof hc os fuel s))"
    "trace_ok hc entry (fst (goto_label_prof hc os fuel i cir s))"
  using assms
proof (induction hc os fuel s and hc os fuel i cir s rule: goto_DISPATCH_prof_goto_label_prof.induct)
  case (1 hc os fuel s)
  have "trace_ok hc entry ([(Elsewhere, dispatch_code hc s)] @ u)" if "trace_ok hc entry u" for u
    using that 1 by (intro trace_ok_simps(2) compiled_pieces(1))
  with 1 show ?case
    by (auto simp: goto_DISPATCH_prof.simps [of hc os fuel s] split: nat.splits sum.splits prod.splits)
next
  case (2 hc os fuel i cir s)
  have "trace_ok hc entry ((profiled_body hc i cir s @ [(Elsewhere, retire_code hc s')]) @ u)"
    if "trace_ok hc entry u" for s' u
    using that 2 by (intro trace_ok_simps(2) compiled_turn(2))
  with 2 show ?case
    by (auto simp: goto_label_prof.simps [of hc os fuel i cir s] split: sum.splits)
qed

lemma tail_trace_ok:
  assumes "compiled hc entry"
  shows "trace_ok hc entry (fst (tail_handler_prof hc os fuel i cir s))"
  using assms
proof (induction hc os fuel i cir s rule: tail_handler_prof.induct)
  case (1 hc os fuel i cir s)
  have "trace_ok hc entry ([(Elsewhere, dispatch_code hc s)] @ u)" if "trace_ok hc entry u" for u
    using that 1 by (intro trace_ok_simps(2) compiled_pieces(1))
  moreover have "trace_ok hc entry ((profiled_body hc i cir s @ [(Elsewhere, retire_code hc s')]) @ u)"
    if "trace_ok hc entry u" for s' u
    using that 1 by (intro trace_ok_simps(2) compiled_turn(2))
  ultimately show ?case using 1
    by (auto simp: tail_handler_prof.simps [of hc os fuel i cir s] Let_def split: nat.splits sum.splits prod.splits)
qed

lemma exec_op_prof_ok:
  assumes "compiled hc entry"
  shows "trace_ok hc entry (fst (exec_op_prof hc os x s))"
  using trace_ok_simps(2) [OF compiled_pieces(9) [OF assms] trace_ok_simps(2) [OF compiled_pieces(3,10) [OF assms]]]
  by (simp add: exec_op_prof_def split: option.split sum.split)

lemma exec_block_prof_ok:
  assumes "compiled hc entry"
  shows "trace_ok hc entry (fst (exec_block_prof hc os blk s))"
proof -
  have "trace_ok hc entry (fst (unrolled_loop_out (exec_op_prof hc os) (blk_size blk) (blk_ops blk) s))" for s
    by (rule unrolled_loop_out_keeps) (simp_all add: exec_op_prof_ok [OF assms])
  then have "trace_ok hc entry ([(Elsewhere, turn_code hc blk s)] @
      fst (bindO (unrolled_loop_out (exec_op_prof hc os) (blk_size blk) (blk_ops blk) s') (\<lambda>s.
        ([(Elsewhere, turn_end_code hc blk s)], Inr (h s)))))" for s' h
    by (intro trace_ok_simps(2) compiled_pieces(7) [OF assms])
       (simp add: fst_bindO compiled_pieces(8) [OF assms] split: sum.split)
  then show ?thesis by (simp add: exec_block_prof_def Let_def)
qed

text \<open>A property of traces, as a relation to the empty report.\<close>

lemma blocked_prof_related:
  assumes "P []" "\<And>t u. P t \<Longrightarrow> P u \<Longrightarrow> P (t @ u)" "\<And>b. P [(Elsewhere, block_enter_code hc b)]"
    and "\<And>blk s. P (fst (exec_block_prof hc os blk s))" "\<And>b. P [(Elsewhere, release_code hc b)]"
  shows "P (fst (interpreter_blocked_prof hc os fuel s)) \<and>
    snd (interpreter_blocked_prof hc os fuel s) = interpreter_blocked os fuel s"
proof -
  let ?R = "\<lambda>t (u :: unit list). P t"
  have R: "reports ?R" using assms(1,2) by (simp add: reports_def)
  have "same_blocks ?R os s (exec_block_prof hc os) (\<lambda>blk s. ([], exec_block os blk s))"
    by (simp add: same_blocks_def exec_block_prof_run assms(4))
  from interpreter_blocked_out_related [where ef = "\<lambda>b. [(Elsewhere, block_enter_code hc b)]"
      and eg = "\<lambda>_. []" and xf = "\<lambda>b. [(Elsewhere, release_code hc b)]" and xg = "\<lambda>_. []" and fuel = fuel,
      OF R this assms(3,5)]
  show ?thesis unfolding interpreter_blocked_prof_def by simp
qed

lemma blocked_trace_ok:
  assumes "compiled hc entry"
  shows "trace_ok hc entry (fst (interpreter_blocked_prof hc os fuel s))"
  using blocked_prof_related [of "trace_ok hc entry" hc os fuel s] exec_block_prof_ok [OF assms]
    compiled_pieces(5,6) [OF assms] by simp

lemma blocked_prof_run: "snd (interpreter_blocked_prof hc os fuel s) = interpreter_blocked os fuel s"
  using blocked_prof_related [of "\<lambda>_. True" hc os fuel s] by simp

section \<open>What the tool counts\<close>

definition bodies :: "host_trace \<Rightarrow> mnemonic list" where
  "bodies t = concat (map (\<lambda>(r, _). case r of In_body i \<Rightarrow> [i] | _ \<Rightarrow> []) t)"

definition body_length :: "host_trace \<Rightarrow> nat" where
  "body_length t = sum_list (map (\<lambda>(r, as). case r of In_body _ \<Rightarrow> length as | _ \<Rightarrow> 0) t)"

definition rest_length :: "host_trace \<Rightarrow> nat" where
  "rest_length t = sum_list (map (\<lambda>(r, as). case r of Elsewhere \<Rightarrow> length as | _ \<Rightarrow> 0) t)"

definition addresses :: "host_trace \<Rightarrow> u64 list" where
  "addresses t = concat (map snd t)"

definition add_counts :: "nat \<Rightarrow> nat \<Rightarrow> tool \<Rightarrow> tool" where
  "add_counts p d g = g\<lparr>g_processing_count := g_processing_count g + of_nat p,
     g_dispatching_count := g_dispatching_count g + of_nat d\<rparr>"

lemma add_counts_simps [simp]:
  "add_counts 0 0 g = g" "add_counts p d (add_counts p' d' g) = add_counts (p' + p) (d' + d) g"
  "g_processing_enabled (add_counts p d g) = g_processing_enabled g"
  "g_dispatching_enabled (add_counts p d g) = g_dispatching_enabled g"
  "SetProcessingEnabled b (add_counts p d g) = add_counts p d (SetProcessingEnabled b g)"
  "SetDispatchingEnabled b (add_counts p d g) = add_counts p d (SetDispatchingEnabled b g)"
  by (simp_all add: add_counts_def SetProcessingEnabled_def SetDispatchingEnabled_def add.assoc)

lemma CountInstruction_add:
  "CountInstruction g = (if g_processing_enabled g then add_counts 1 0 g
     else if g_dispatching_enabled g then add_counts 0 1 g else g)"
  by (simp add: CountInstruction_def add_counts_def)

lemma count_many:
  "fold (\<lambda>_. CountInstruction) as g = (if g_processing_enabled g then add_counts (length as) 0 g
     else if g_dispatching_enabled g then add_counts 0 (length as) g else g)"
  by (induction as arbitrary: g) (auto simp: CountInstruction_add)

lemma run_append:
  "instrumented pin find_rtn img (as @ bs) g = instrumented pin find_rtn img bs (instrumented pin find_rtn img as g)"
  by (simp add: instrumented_def)

lemma run_other:
  assumes "pin_runs_calls pin" "hooks_located find_rtn img entry" "set as \<inter> range entry = {}"
  shows "instrumented pin find_rtn img as g = fold (\<lambda>_. CountInstruction) as g"
  using assms(3) unfolding instrumented_def
  by (induction as arbitrary: g) (simp_all add: instrumented_at(2) [OF assms(1,2)])

lemma run_hook:
  assumes "pin_runs_calls pin" "hooks_located find_rtn img entry" "compiled hc entry"
  shows "instrumented pin find_rtn img (hook_code hc k) g =
    fold (\<lambda>_. CountInstruction) (hook_code hc k) (run_analysis (hook_call k) g)"
proof -
  from assms(3) obtain as where as: "hook_code hc k = entry k # as" "set as \<inter> range entry = {}"
    unfolding compiled_def by (metis list.collapse)
  have "instrumented pin find_rtn img (entry k # as) g =
      instrumented pin find_rtn img as (CountInstruction (run_analysis (hook_call k) g))"
    by (simp add: instrumented_def instrumented_at(1) [OF assms(1,2)])
  with as(1) show ?thesis by (simp add: run_other [OF assms(1,2) as(2)])
qed

text \<open>The flags at the parts of a trace, and what each part adds.\<close>

lemma run_trace:
  assumes "pin_runs_calls pin" "hooks_located find_rtn img entry" "compiled hc entry"
  shows "trace_ok hc entry t \<Longrightarrow> g_dispatching_enabled g \<Longrightarrow> \<not> g_processing_enabled g \<Longrightarrow>
    instrumented pin find_rtn img (addresses t) g =
      add_counts (body_length t + length (bodies t) * length (hook_code hc ENTER_PROCESSING))
        (rest_length t + length (bodies t) * length (hook_code hc EXIT_PROCESSING)) g"
proof (induction t arbitrary: g rule: bracketed.induct)
  case 1
  then show ?case by (simp add: addresses_def bodies_def body_length_def rest_length_def instrumented_def)
next
  case (2 as t)
  then have t: "trace_ok hc entry t" and as: "set as \<inter> range entry = {}"
    by (simp_all add: trace_ok_def region_ok_def)
  from 2 t show ?case
    by (simp add: addresses_def run_append run_other [OF assms(1,2) as] count_many bodies_def body_length_def rest_length_def
        add.assoc)
next
  case (3 a i b c t)
  then have t: "trace_ok hc entry t" and pieces: "a = hook_code hc ENTER_PROCESSING" "c = hook_code hc EXIT_PROCESSING"
    "set b \<inter> range entry = {}"
    by (simp_all add: trace_ok_def region_ok_def profile_hook_def)
  let ?g = "add_counts (length a + length b) (length c) g"
  have "SetProcessingEnabled True g\<lparr>g_processing_enabled := False\<rparr> = g"
    using 3 by (simp add: SetProcessingEnabled_def)
  then have reset: "SetProcessingEnabled False (SetProcessingEnabled True g) = g"
    using 3 by (simp add: SetProcessingEnabled_def)
  have "instrumented pin find_rtn img (a @ b @ c) g = ?g"
    using 3(3,4) by (simp add: run_append run_other [OF assms(1,2) pieces(3)] pieces(1,2) run_hook [OF assms] count_many reset)
      (simp add: SetProcessingEnabled_def count_many)
  with 3 t show ?case
    by (simp add: addresses_def run_append bodies_def body_length_def rest_length_def algebra_simps pieces(1,2))
qed (simp_all add: trace_ok_def)

text \<open>A whole program: nothing is counted before the interpreter is called, nor after it returns.\<close>

lemma run_program:
  assumes "pin_runs_calls pin" "hooks_located find_rtn img entry" "compiled hc entry" "set pre \<inter> range entry = {}" "set post \<inter> range entry = {}"
    and "trace_ok hc entry t"
  shows "instrumented pin find_rtn img (pre @
      addresses (profile_hook hc ENTER_DISPATCHING # t @ [profile_hook hc EXIT_DISPATCHING]) @ post) tool_start =
    tool_start\<lparr>g_processing_count := of_nat (body_length t + length (bodies t) * length (hook_code hc ENTER_PROCESSING)),
      g_dispatching_count := of_nat (length (hook_code hc ENTER_DISPATCHING) + rest_length t +
        length (bodies t) * length (hook_code hc EXIT_PROCESSING))\<rparr>"
proof -
  let ?ins = "instrumented pin find_rtn img"
  let ?p = "body_length t + length (bodies t) * length (hook_code hc ENTER_PROCESSING)"
  let ?d = "rest_length t + length (bodies t) * length (hook_code hc EXIT_PROCESSING)"
  have quiet: "fold (\<lambda>_. CountInstruction) as g = g"
    if "\<not> g_processing_enabled g" "\<not> g_dispatching_enabled g" for as g
    using that by (simp add: count_many)
  have start: "\<not> g_processing_enabled tool_start" "\<not> g_dispatching_enabled tool_start"
    by (simp_all add: tool_start_def)
  let ?g = "add_counts 0 (length (hook_code hc ENTER_DISPATCHING)) (SetDispatchingEnabled True tool_start)"
  have enter: "?ins (hook_code hc ENTER_DISPATCHING) tool_start = ?g"
    using start by (simp add: run_hook [OF assms(1-3)] count_many) (simp add: SetDispatchingEnabled_def)
  have "g_dispatching_enabled ?g" "\<not> g_processing_enabled ?g"
    using start by (simp_all add: SetDispatchingEnabled_def)
  note body = run_trace [OF assms(1-3,6) this]
  have leave: "?ins (hook_code hc EXIT_DISPATCHING) (add_counts p d (SetDispatchingEnabled True tool_start)) =
      add_counts p d tool_start" for p d
    using start by (simp add: run_hook [OF assms(1-3)] count_many tool_start_def SetDispatchingEnabled_def)
      (simp add: add_counts_def)
  let ?l = "length (hook_code hc ENTER_DISPATCHING)"
  have "?ins pre tool_start = tool_start"
    using start by (simp add: run_other [OF assms(1,2,4)] quiet)
  moreover have "?ins post (add_counts p d tool_start) = add_counts p d tool_start" for p d
    using start by (simp add: run_other [OF assms(1,2,5)] quiet)
  ultimately have "?ins (pre @ hook_code hc ENTER_DISPATCHING @ addresses t @ hook_code hc EXIT_DISPATCHING @ post) tool_start =
      add_counts ?p (?l + ?d) tool_start"
    by (simp only: run_append enter body leave add_counts_simps add_0)
  moreover have "addresses (profile_hook hc ENTER_DISPATCHING # t @ [profile_hook hc EXIT_DISPATCHING]) =
      hook_code hc ENTER_DISPATCHING @ addresses t @ hook_code hc EXIT_DISPATCHING"
    by (simp add: addresses_def profile_hook_def)
  moreover have "add_counts ?p (?l + ?d) tool_start = tool_start\<lparr>g_processing_count := of_nat ?p,
      g_dispatching_count := of_nat (?l + ?d)\<rparr>"
    by (simp add: add_counts_def tool_start_def)
  ultimately show ?thesis by (simp only: append_assoc add.assoc)
qed

text \<open>The framework as its documentation describes it, and nothing else.\<close>

definition plain_pin :: "(u64 \<times> analysis) list \<Rightarrow> analysis list \<Rightarrow> u64 \<Rightarrow> analysis list" where
  "plain_pin calls each a = map snd (filter (\<lambda>(rtn, _). rtn = a) calls) @ each"

lemma plain_pin: "pin_runs_calls plain_pin"
  by (simp add: pin_runs_calls_def plain_pin_def)

section \<open>An emulator with small hooks\<close>

fun demo_entry :: "hook \<Rightarrow> u64" where
  "demo_entry ENTER_PROCESSING = 0x10"
| "demo_entry EXIT_PROCESSING = 0x20"
| "demo_entry ENTER_DISPATCHING = 0x30"
| "demo_entry EXIT_DISPATCHING = 0x40"

definition demo_image :: image where
  "demo_image = \<lparr>img_main = True, img_low = 0,
     img_symbols = map (\<lambda>k. \<lparr>sym_name = hook_name k, sym_value = demo_entry k\<rparr>)
       [ENTER_PROCESSING, EXIT_PROCESSING, ENTER_DISPATCHING, EXIT_DISPATCHING]\<rparr>"

definition demo_code :: "unit host_code" where
  "demo_code = \<lparr>hook_code = (\<lambda>k. [demo_entry k, demo_entry k + 1]), body_code = (\<lambda>_ _ _. [1, 2, 3]),
     entry_code = (\<lambda>_. [4]), dispatch_code = (\<lambda>_. [5]), retire_code = (\<lambda>_. [6, 7]),
     block_enter_code = (\<lambda>_. [8]), turn_code = (\<lambda>_ _. [9]), call_code = (\<lambda>_ _. [10]),
     return_code = (\<lambda>_ _. [11]), turn_end_code = (\<lambda>_ _. [12]), release_code = (\<lambda>_. [13, 14])\<rparr>"

lemma range_hook: "range f = {f ENTER_PROCESSING, f EXIT_PROCESSING, f ENTER_DISPATCHING, f EXIT_DISPATCHING}"
proof (intro equalityI subsetI)
  fix x assume "x \<in> range f"
  then obtain k where "x = f k" by blast
  then show "x \<in> {f ENTER_PROCESSING, f EXIT_PROCESSING, f ENTER_DISPATCHING, f EXIT_DISPATCHING}"
    by (cases k) simp_all
qed auto

lemma demo_located: "hooks_located Some demo_image demo_entry"
proof -
  have "inj demo_entry"
  proof (rule injI)
    fix k l assume "demo_entry k = demo_entry l"
    then show "k = l" by (cases k; cases l) simp_all
  qed
  moreover have "\<exists>sym \<in> set (img_symbols demo_image). sym_name sym = hook_name k" for k
    by (cases k) (simp_all add: demo_image_def)
  moreover have "Some (img_low demo_image + sym_value sym) = Some (demo_entry k)"
    if "sym \<in> set (img_symbols demo_image)" "sym_name sym = hook_name k" for k sym
    using that by (cases k) (auto simp: demo_image_def)
  moreover have "img_main demo_image" by (simp add: demo_image_def)
  ultimately show ?thesis by (simp add: hooks_located_def)
qed

lemma demo_compiled: "compiled demo_code demo_entry"
proof -
  have "hook_code demo_code k \<noteq> [] \<and> hd (hook_code demo_code k) = demo_entry k \<and>
      set (tl (hook_code demo_code k)) \<inter> range demo_entry = {}" for k
    unfolding range_hook by (cases k) (simp_all add: demo_code_def)
  then show ?thesis unfolding compiled_def range_hook by (simp add: demo_code_def)
qed

section \<open>The profiled programs\<close>

lemmas profile_defs = switch_profile_def computed_goto_profile_def tail_call_profile_def blocked_profile_def
  interpreter_computed_goto_prof_def

lemma tail_call_trace_ok:
  "compiled hc entry \<Longrightarrow> trace_ok hc entry (fst (interpreter_tail_call_prof hc os fuel s))"
  by (simp add: interpreter_tail_call_prof_def tail_trace_ok split: sum.splits prod.splits)

lemma tail_call_prof_run: "snd (interpreter_tail_call_prof hc os fuel s) = interpreter_tail_call os fuel s"
  by (simp add: interpreter_tail_call_prof_def interpreter_tail_call_def tail_prof_run split: sum.splits prod.splits)

lemma PROFILE_INTERPRETER_snd [simp]: "snd (PROFILE_INTERPRETER hc s p) = snd p"
  by (simp add: PROFILE_INTERPRETER_def split_def Let_def)

lemma profiled_program:
  assumes "(t, Some (Inr s')) = PROFILE_INTERPRETER hc s p"
  shows "t = profile_hook hc ENTER_DISPATCHING # ((Elsewhere, entry_code hc s) # fst p) @ [profile_hook hc EXIT_DISPATCHING]"
  using assms by (cases p) (auto simp: PROFILE_INTERPRETER_def)

section \<open>The bracketed instructions\<close>

text \<open>The pieces of a trace that the source brackets, and the brackets.\<close>

definition marked :: "host_trace \<Rightarrow> host_trace" where
  "marked t = filter (\<lambda>p. fst p \<noteq> Elsewhere) t"

text \<open>The instructions that the plain switch executes in a run, with the state before each: those
  whose body returns.\<close>

primrec executed :: "'h os \<Rightarrow> nat \<Rightarrow> 'h machine \<Rightarrow> (mnemonic \<times> u32 \<times> 'h machine) list" where
  "executed os 0 s = []"
| "executed os (Suc n) s =
     (if halted (cpu s) then []
      else case bindR (fetch s) (\<lambda>cir.
                bindR (switch_decode (get_reg MIPS_R_PC s) cir) (\<lambda>i.
                bindR (interpret_instr os i cir s) (\<lambda>s'. Inr (i, cir, s')))) of
             Inl e \<Rightarrow> []
           | Inr (i, cir, s') \<Rightarrow> (i, cir, s) # executed os n (upd_cpu INCREMENT_PC s'))"

lemma marked_simps [simp]:
  "marked [] = []" "marked ((Elsewhere, as) # t) = marked t" "marked (t @ u) = marked t @ marked u"
  "marked (profiled_body hc i cir s) = profiled_body hc i cir s" "marked [profile_hook hc k] = [profile_hook hc k]"
  "marked (profile_hook hc k # t) = profile_hook hc k # marked t"
  by (simp_all add: marked_def profiled_body_def profile_hook_def)

abbreviation bodies_of :: "'h host_code \<Rightarrow> (mnemonic \<times> u32 \<times> 'h machine) list \<Rightarrow> host_trace" where
  "bodies_of hc xs \<equiv> concat (map (\<lambda>(i, cir, s). profiled_body hc i cir s) xs)"

lemma switch_marked:
  "marked (fst (interpreter_switch_prof hc os fuel s)) = bodies_of hc (executed os fuel s)"
proof (induction fuel arbitrary: s)
  case (Suc n)
  show ?case
  proof (cases "halted (cpu s) \<or> (\<exists>e. switch_body_prof hc os s = Inl e)")
    case True
    then show ?thesis
      by (auto simp: switch_body_prof_def bindR_def split: sum.splits)
  next
    case False
    then obtain cir i s' where "fetch s = Inr cir" "switch_decode (get_reg MIPS_R_PC s) cir = Inr i"
      "interpret_instr os i cir s = Inr s'" "\<not> halted (cpu s)"
      by (auto simp: switch_body_prof_def bindR_def split: sum.splits)
    with Suc show ?thesis by (simp add: switch_body_prof_def)
  qed
qed simp

lemma goto_marked:
  "marked (fst (goto_DISPATCH_prof hc os fuel s)) = bodies_of hc (executed os fuel s)"
proof (induction fuel arbitrary: s)
  case 0
  then show ?case by (simp add: goto_DISPATCH_prof.simps [of hc os 0])
next
  case (Suc n)
  note unfold = goto_DISPATCH_prof.simps [of hc os "Suc n" s]
  show ?case
  proof (cases "halted (cpu s) \<or> (\<exists>e. fetch s = Inl e)")
    case True
    then show ?thesis by (auto simp: unfold)
  next
    case False
    then obtain cir where cir: "fetch s = Inr cir" by (cases "fetch s") auto
    note agrees = goto_dispatch_agrees [of cir "get_reg MIPS_R_PC s"]
    show ?thesis
    proof (cases "goto_dispatch cir")
      case (Inl e)
      with agrees have "\<exists>f. switch_decode (get_reg MIPS_R_PC s) cir = Inl f"
        by (cases "switch_decode (get_reg MIPS_R_PC s) cir") simp_all
      with False cir Inl show ?thesis by (auto simp: unfold)
    next
      case (Inr i)
      with agrees have "switch_decode (get_reg MIPS_R_PC s) cir = Inr i" by simp
      with False cir Inr Suc show ?thesis
        by (cases "interpret_instr os i cir s")
           (simp_all add: unfold goto_label_prof.simps [of hc os n i cir s])
    qed
  qed
qed

lemma tail_handler_marked:
  assumes "tail_handler os n i cir s = Some (Inr s')" "tail_next s = Inr (i, cir)"
  shows "marked (fst (tail_handler_prof hc os n i cir s)) = bodies_of hc (executed os n s)"
  using assms
proof (induction n arbitrary: s i cir)
  case 0
  then show ?case by (simp add: tail_handler.simps tail_handler_prof.simps [of hc os 0] split: if_splits)
next
  case (Suc n)
  show ?case
  proof (cases "halted (cpu s)")
    case True
    then show ?thesis by (simp add: tail_handler_prof.simps [of hc os "Suc n"])
  next
    case False
    with Suc.prems obtain s1 i' cir' where s1: "interpret_instr os i cir s = Inr s1"
      and nxt: "tail_next (upd_cpu INCREMENT_PC s1) = Inr (i', cir')"
      and rest: "tail_handler os n i' cir' (upd_cpu INCREMENT_PC s1) = Some (Inr s')"
      by (auto simp: tail_handler.simps [of os "Suc n"] Let_def split: sum.splits)
    from Suc.IH [OF rest nxt] False s1 nxt tail_next_Inr [OF Suc.prems(2)] show ?thesis
      by (simp add: tail_handler_prof.simps [of hc os "Suc n"] Let_def)
  qed
qed

lemma tail_call_marked:
  "interpreter_tail_call os n s = Some (Inr s') \<Longrightarrow>
     marked (fst (interpreter_tail_call_prof hc os n s)) = bodies_of hc (executed os n s)"
  by (auto simp: interpreter_tail_call_def interpreter_tail_call_prof_def split: sum.splits
      intro: tail_handler_marked)

section \<open>Properties\<close>

text \<open>What a profiled program is to execute of hooks and bodies: the hook that opens the measurement,
  each instruction's body between its two hooks, and, when the run returns, the hook that ends it.\<close>

definition brackets ::
  "'h host_code \<Rightarrow> (mnemonic \<times> u32 \<times> 'h machine) list \<Rightarrow> 'h machine result option \<Rightarrow> host_trace" where
  "brackets hc xs r =
     (In_hook ENTER_DISPATCHING, hook_code hc ENTER_DISPATCHING) #
     concat (map (\<lambda>(i, cir, s).
       [(In_hook ENTER_PROCESSING, hook_code hc ENTER_PROCESSING), (In_body i, body_code hc i cir s),
        (In_hook EXIT_PROCESSING, hook_code hc EXIT_PROCESSING)]) xs) @
     (case r of Some (Inr _) \<Rightarrow> [(In_hook EXIT_DISPATCHING, hook_code hc EXIT_DISPATCHING)] | _ \<Rightarrow> [])"

lemma marked_program:
  assumes "marked (fst p) = bodies_of hc xs"
  shows "marked (fst (PROFILE_INTERPRETER hc s p)) = brackets hc xs (snd p)"
proof -
  have "bodies_of hc xs = concat (map (\<lambda>(i, cir, s).
       [(In_hook ENTER_PROCESSING, hook_code hc ENTER_PROCESSING), (In_body i, body_code hc i cir s),
        (In_hook EXIT_PROCESSING, hook_code hc EXIT_PROCESSING)]) xs)"
    by (simp add: profiled_body_def profile_hook_def)
  with assms show ?thesis
    by (auto simp: PROFILE_INTERPRETER_def brackets_def split_def Let_def profile_hook_def [symmetric]
        split: option.split sum.split)
qed

text \<open>C32: the four profiling builds run as the plain ones. In the switch and the computed goto, for
  every run, and in the tail calls, for the runs that return, the hooks and the bodies that are
  executed are those of the instructions that the plain switch executes, in order: the hook that
  opens the measurement, each body between the hooks that open and close its processing, and,
  when the run returns, the hook that closes the measurement. An instruction that faults is not
  among them: the trace ends before its hooks.\<close>

theorem profiling_transparent:
  "snd (switch_profile hc os fuel s) = interpreter_switch os fuel s \<and>
   snd (computed_goto_profile hc os fuel s) = interpreter_computed_goto os fuel s \<and>
   snd (tail_call_profile hc os fuel s) = interpreter_tail_call os fuel s \<and>
   snd (blocked_profile hc os fuel s) = interpreter_blocked os fuel s \<and>
   marked (fst (switch_profile hc os fuel s)) = brackets hc (executed os fuel s) (interpreter_switch os fuel s) \<and>
   marked (fst (computed_goto_profile hc os fuel s)) =
     brackets hc (executed os fuel s) (interpreter_computed_goto os fuel s) \<and>
   (case interpreter_tail_call os fuel s of
      Some (Inr s') \<Rightarrow> marked (fst (tail_call_profile hc os fuel s)) = brackets hc (executed os fuel s) (Some (Inr s'))
    | _ \<Rightarrow> True)"
proof -
  have runs: "snd (switch_profile hc os fuel s) = interpreter_switch os fuel s"
    "snd (computed_goto_profile hc os fuel s) = interpreter_computed_goto os fuel s"
    "snd (tail_call_profile hc os fuel s) = interpreter_tail_call os fuel s"
    "snd (blocked_profile hc os fuel s) = interpreter_blocked os fuel s"
    by (simp_all add: profile_defs interpreter_computed_goto_def goto_prof_run tail_call_prof_run switch_prof_run
        blocked_prof_run)
  moreover have "marked (fst (switch_profile hc os fuel s)) =
      brackets hc (executed os fuel s) (interpreter_switch os fuel s)"
    by (simp add: profile_defs marked_program [OF switch_marked] switch_prof_run)
  moreover have "marked (fst (computed_goto_profile hc os fuel s)) =
      brackets hc (executed os fuel s) (interpreter_computed_goto os fuel s)"
    by (simp add: profile_defs marked_program [OF goto_marked] goto_prof_run interpreter_computed_goto_def)
  moreover have "marked (fst (tail_call_profile hc os fuel s)) = brackets hc (executed os fuel s) (Some (Inr s'))"
    if "interpreter_tail_call os fuel s = Some (Inr s')" for s'
    by (simp add: profile_defs marked_program [OF tail_call_marked [OF that]] tail_call_prof_run that)
  ultimately show ?thesis by (simp split: option.split sum.split)
qed

text \<open>C31: for a run that returns, the tool's processing count is the number of host instructions in
  the bodies of the executed guest instructions plus, for each of them, those of the call that
  opens the bracket; the dispatching count is the rest of the interpreter, the release of the
  blocks of the block-caching interpreter included, with the calls that close the brackets and the
  one that opens the measurement. The code before the first hook of \<open>main\<close> and behind its second,
  loading and the release of the guest's memory, is not counted. The code that the framework runs
  is a parameter: a hook is entered at its entry, and only by a call of it.\<close>

theorem profile_counts:
  assumes "pin_runs_calls pin" "hooks_located find_rtn img entry" "compiled hc entry"
    and "set pre \<inter> range entry = {}" "set post \<inter> range entry = {}"
    and "(t, Some (Inr s')) \<in> {switch_profile hc os fuel s, computed_goto_profile hc os fuel s,
      tail_call_profile hc os fuel s, blocked_profile hc os fuel s}"
  shows "instrumented pin find_rtn img (pre @ addresses t @ post) tool_start =
    tool_start\<lparr>g_processing_count := of_nat (body_length t + length (bodies t) * length (hook_code hc ENTER_PROCESSING)),
      g_dispatching_count := of_nat (length (hook_code hc ENTER_DISPATCHING) + rest_length t +
        length (bodies t) * length (hook_code hc EXIT_PROCESSING))\<rparr>"
proof -
  from assms(6) obtain p where p: "(t, Some (Inr s')) = PROFILE_INTERPRETER hc s p" "trace_ok hc entry (fst p)"
    using switch_trace_ok [OF assms(3)] goto_trace_ok(1) [OF assms(3)] tail_call_trace_ok [OF assms(3)]
      blocked_trace_ok [OF assms(3)]
    unfolding profile_defs by (elim insertE) blast+
  define u where "u = (Elsewhere, entry_code hc s) # fst p"
  have u: "trace_ok hc entry u"
    using trace_ok_simps(2) [OF compiled_pieces(4) [OF assms(3)] p(2), of s] by (simp add: u_def)
  have t: "t = profile_hook hc ENTER_DISPATCHING # u @ [profile_hook hc EXIT_DISPATCHING]"
    unfolding u_def by (rule profiled_program [OF p(1)])
  have same: "bodies t = bodies u" "body_length t = body_length u" "rest_length t = rest_length u"
    by (simp_all add: t profile_hook_def bodies_def body_length_def rest_length_def)
  show ?thesis unfolding same unfolding t by (rule run_program [OF assms(1-5) u])
qed

lemma length_simps [simp]:
  "body_length [] = 0" "rest_length [] = 0" "body_length (t @ u) = body_length t + body_length u"
  "rest_length (t @ u) = rest_length t + rest_length u" "body_length ((Elsewhere, as) # t) = body_length t"
  "rest_length ((Elsewhere, as) # t) = length as + rest_length t"
  "body_length (profile_hook hc k # t) = body_length t" "rest_length (profile_hook hc k # t) = rest_length t"
  "bodies [] = []" "bodies (t @ u) = bodies t @ bodies u" "bodies ((Elsewhere, as) # t) = bodies t"
  "bodies (profile_hook hc k # t) = bodies t" "bodies (profiled_body hc i cir s) = [i]"
  "body_length (profiled_body hc i cir s) = length (body_code hc i cir s)" "rest_length (profiled_body hc i cir s) = 0"
  by (simp_all add: body_length_def rest_length_def bodies_def profile_hook_def profiled_body_def)

lemma demo_ops_lengths:
  "exec_ops os xs s = Inr s' \<Longrightarrow>
     snd (exec_all_out (exec_op_prof demo_code os) xs s) = Inr s' \<and>
     length (bodies (fst (exec_all_out (exec_op_prof demo_code os) xs s))) = length xs \<and>
     body_length (fst (exec_all_out (exec_op_prof demo_code os) xs s)) = 3 * length xs \<and>
     rest_length (fst (exec_all_out (exec_op_prof demo_code os) xs s)) = 2 * length xs"
proof (induction xs arbitrary: s)
  case (Cons x xs)
  then obtain s1 where "exec_op os x s = Inr s1" "exec_ops os xs s1 = Inr s'" by (auto elim!: bindR_InrE)
  moreover from this(1) obtain i where "op_op x = Some i" "interpret_instr os i (op_cir x) s = Inr s1"
    by (auto simp: exec_op_def split: option.splits)
  ultimately show ?case using Cons.IH [of s1]
    by (simp add: exec_op_prof_def demo_code_def)
qed simp

lemma exit_blocked_profile:
  defines "t \<equiv> fst (blocked_profile demo_code demo_os 1 exit_start)"
  shows "length (bodies t) = 3" "body_length t = 9" "rest_length t = 12"
proof -
  obtain s' where s': "exec_block demo_os exit_block exit_start = Inr s'" "halted (cpu s')"
    using exit_exec by blast
  have ops: "block_ops exit_block = exit_ops" by (simp add: block_ops_def exit_block_def)
  let ?s = "put_reg MIPS_R_PC (branch_pc 0 exit_ops) exit_start"
  have "mapR (\<lambda>s'. put_reg MIPS_R_PC (get_reg MIPS_R_NNPC s') s') (exec_ops demo_os exit_ops ?s) = Inr s'"
    using exec_block_ops [OF exit_block_of, of exit_start demo_os] s'(1) by (simp add: ops)
  then obtain u where u: "exec_ops demo_os exit_ops ?s = Inr u"
    by (cases "exec_ops demo_os exit_ops ?s") simp_all
  note lens = demo_ops_lengths [OF u]
  have "unrolled_loop_out (exec_op_prof demo_code demo_os) 4 (exit_ops @ [\<lparr>op_cir = 0, op_op = None\<rparr>]) s =
      exec_all_out (exec_op_prof demo_code demo_os) exit_ops s" for s
    by (rule unrolled_loop_out_exec) (simp_all add: exit_ops_def)
  moreover have "length exit_ops = 3" by (simp add: exit_ops_def)
  ultimately have blk: "length (bodies (fst (exec_block_prof demo_code demo_os exit_block exit_start))) = 3"
    "body_length (fst (exec_block_prof demo_code demo_os exit_block exit_start)) = 9"
    "rest_length (fst (exec_block_prof demo_code demo_os exit_block exit_start)) = 8"
    using lens
    by (simp_all add: exec_block_prof_def exit_block_def Let_def fst_bindO branch_pc_def demo_code_def)
  let ?b = "(blocked_init exit_start)\<lparr>blocks := [0 \<mapsto> exit_block]\<rparr>"
  have "blocked_turn_out (exec_block_prof demo_code demo_os) 0 ?b =
      (fst (exec_block_prof demo_code demo_os exit_block exit_start), Inr (None, ?b\<lparr>bmach := s', previous := Some 0\<rparr>))"
    using s' exec_block_prof_run [of demo_code demo_os exit_block exit_start]
    by (cases "exec_block_prof demo_code demo_os exit_block exit_start")
       (simp add: blocked_turn_out_def blocked_init_def Let_def)
  then have "t = profile_hook demo_code ENTER_DISPATCHING # (Elsewhere, [4]) # (Elsewhere, [8]) #
      fst (exec_block_prof demo_code demo_os exit_block exit_start) @
      [(Elsewhere, [13, 14]), profile_hook demo_code EXIT_DISPATCHING]"
    unfolding t_def blocked_profile_def PROFILE_INTERPRETER_def interpreter_blocked_prof_def
      interpreter_blocked_out_def blocked_outer_out.simps [of _ _ _ 1] exit_enter blocked_inner_out.simps [of _ _ _ 1]
    using s'(2)
    by (simp add: blocked_init_bmach One_nat_def blocked_outer_out.simps [of _ _ _ 0] demo_code_def)
  with blk show "length (bodies t) = 3" "body_length t = 9" "rest_length t = 12"
    by simp_all
qed

lemma profile_counts_witness:
  "g_processing_count (instrumented plain_pin Some demo_image
     (addresses (fst (blocked_profile demo_code demo_os 1 exit_start))) tool_start) = 15 \<and>
   g_dispatching_count (instrumented plain_pin Some demo_image
     (addresses (fst (blocked_profile demo_code demo_os 1 exit_start))) tool_start) = 20"
proof -
  let ?t = "fst (blocked_profile demo_code demo_os 1 exit_start)"
  obtain s' where "interpreter_blocked demo_os 1 exit_start = Some (Inr s')" using exit_blocked_run by blast
  then have "snd (blocked_profile demo_code demo_os 1 exit_start) = Some (Inr s')"
    by (simp add: blocked_profile_def blocked_prof_run)
  then have run: "(?t, Some (Inr s')) = blocked_profile demo_code demo_os 1 exit_start"
    by (metis prod.collapse)
  from profile_counts [OF plain_pin demo_located demo_compiled, of "[]" "[]" ?t s' demo_os 1 exit_start]
  have "instrumented plain_pin Some demo_image (addresses ?t) tool_start = tool_start\<lparr>g_processing_count := 15,
      g_dispatching_count := 20\<rparr>"
    unfolding exit_blocked_profile using run by (simp add: demo_code_def del: One_nat_def)
  then show ?thesis by simp
qed

end
