(* ===== verification/Sample_Crc.thy ===== *)
theory Sample_Crc
  imports Prelude
begin

text \<open>
  The guest program \<open>src/samples/crc.c\<close>: the table-driven CRC-32 of a buffer. It is compared with
  the division of the message by the polynomial, one bit at a time.
\<close>

unbundle bit_operations_syntax

section \<open>The program\<close>

text \<open>The body of the inner loop of \<open>init_crc32_table\<close>, and its eight turns.\<close>

definition crc_shift :: "u32 \<Rightarrow> u32" where
  "crc_shift ch = drop_bit 1 ch XOR (0xEDB88320 AND (- (ch AND 1)))"

fun crc_entry :: "nat \<Rightarrow> u32 \<Rightarrow> u32" where
  "crc_entry 0 ch = ch"
| "crc_entry (Suc j) ch = crc_entry j (crc_shift ch)"

text \<open>\<open>crc32_table\<close> has 256 entries, which start as 0; \<open>i\<close> is the entry to be filled next.\<close>

fun init_table :: "nat \<Rightarrow> nat \<Rightarrow> u32 list \<Rightarrow> u32 list" where
  "init_table 0 i table = table"
| "init_table (Suc k) i table = init_table k (i + 1) (table[i := crc_entry 8 (of_nat i)])"

definition init_crc32_table :: "u32 list" where
  "init_crc32_table = init_table 256 0 (replicate 256 0)"

definition crc_step :: "u32 list \<Rightarrow> u32 \<Rightarrow> u8 \<Rightarrow> u32" where
  "crc_step table crc b = drop_bit 8 crc XOR table ! unat ((crc XOR ucast b) AND 0xFF)"

definition crc32 :: "u32 list \<Rightarrow> u8 list \<Rightarrow> u32" where
  "crc32 table data = foldl (crc_step table) 0xFFFFFFFF data XOR 0xFFFFFFFF"

text \<open>\<open>main\<close>: the checksum of a buffer that counts through the bytes, computed again and again.\<close>

definition crc_buffer :: "nat \<Rightarrow> u8 list" where
  "crc_buffer sz = map (\<lambda>i. of_nat i AND 0xFF) [0..<sz]"

definition crc_main :: "nat \<Rightarrow> nat \<Rightarrow> u32" where
  "crc_main sz rounds =
     (let table = init_crc32_table; buffer = crc_buffer sz
      in foldl (\<lambda>result r. crc32 table buffer) 0 [0..<rounds])"

section \<open>One bit at a time\<close>

text \<open>
  The reference. A message bit is added to the low bit of the register, which is then divided: a
  shift, and the subtraction of the (reflected) polynomial when the bit shifted out is 1.
\<close>

definition crc_bit :: "u32 \<Rightarrow> bool \<Rightarrow> u32" where
  "crc_bit crc b =
     (let out = (bit crc 0 \<noteq> b) in if out then drop_bit 1 crc XOR 0xEDB88320 else drop_bit 1 crc)"

definition byte_bits :: "u8 \<Rightarrow> bool list" where
  "byte_bits b = map (bit b) [0..<8]"

definition crc32_reference :: "u8 list \<Rightarrow> u32" where
  "crc32_reference data = foldl crc_bit 0xFFFFFFFF (concat (map byte_bits data)) XOR 0xFFFFFFFF"

section \<open>The table\<close>

lemma init_table_length [simp]: "length (init_table k i table) = length table"
  by (induction k arbitrary: i table) simp_all

lemma init_table_nth:
  assumes "i + k = length table" "j < length table"
  shows "init_table k i table ! j = (if i \<le> j then crc_entry 8 (of_nat j) else table ! j)"
  using assms
proof (induction k arbitrary: i table)
  case (Suc k)
  then show ?case by (cases "i = j") (auto simp: nth_list_update)
qed simp

lemma crc_table_nth: "j < 256 \<Longrightarrow> init_crc32_table ! j = crc_entry 8 (of_nat j)"
  by (simp add: init_crc32_table_def init_table_nth)

section \<open>Linearity\<close>

lemma crc_shift_bit: "crc_shift ch = drop_bit 1 ch XOR (if bit ch 0 then 0xEDB88320 else 0)"
proof -
  have "ch AND 1 = (if bit ch 0 then 1 else 0)" by (simp add: and_one_eq bit_0 mod_2_eq_odd)
  then show ?thesis by (simp add: crc_shift_def)
qed

lemma crc_shift_xor: "crc_shift (x XOR y) = crc_shift x XOR crc_shift y"
proof (rule bit_word_eqI)
  fix n assume "n < LENGTH(32)"
  show "bit (crc_shift (x XOR y)) n = bit (crc_shift x XOR crc_shift y) n"
    unfolding crc_shift_bit by (cases "bit x 0"; cases "bit y 0") (auto simp: bit_xor_iff bit_drop_bit_eq)
qed

lemma crc_entry_xor: "crc_entry k (x XOR y) = crc_entry k x XOR crc_entry k y"
  by (induction k arbitrary: x y) (simp_all add: crc_shift_xor)

text \<open>A register whose low \<open>k\<close> bits are 0 is only shifted.\<close>

lemma crc_entry_shift: "(\<And>j. j < k \<Longrightarrow> \<not> bit x j) \<Longrightarrow> crc_entry k x = drop_bit k x"
proof (induction k arbitrary: x)
  case (Suc k)
  have "crc_shift x = drop_bit 1 x" using Suc.prems [of 0] by (simp add: crc_shift_bit)
  moreover have "crc_entry k (drop_bit 1 x) = drop_bit k (drop_bit 1 x)"
    using Suc.prems by (intro Suc.IH) (simp add: bit_drop_bit_eq)
  ultimately show ?case by simp
qed simp

lemma crc_step_entry: "crc_step init_crc32_table crc b = crc_entry 8 (crc XOR ucast b)"
proof -
  let ?x = "crc XOR ucast b"
  have ff: "(0xFF :: u32) = mask 8" by (simp add: mask_eq_exp_minus_1)
  have "unat (?x AND 0xFF) < 256"
    using word_and_le1 [of ?x "0xFF"] by (simp add: word_le_nat_alt)
  then have "init_crc32_table ! unat (?x AND 0xFF) = crc_entry 8 (?x AND 0xFF)"
    by (simp add: crc_table_nth)
  moreover have "drop_bit 8 crc = crc_entry 8 (?x AND NOT 0xFF)"
  proof -
    have "crc_entry 8 (?x AND NOT 0xFF) = drop_bit 8 (?x AND NOT 0xFF)"
      unfolding ff by (intro crc_entry_shift) (auto simp: bit_simps)
    also have "\<dots> = drop_bit 8 crc"
      unfolding ff by (rule bit_word_eqI) (auto simp: bit_simps dest: bit_imp_le_length)
    finally show ?thesis ..
  qed
  moreover have "(?x AND NOT 0xFF) XOR (?x AND 0xFF) = ?x"
    by (rule bit_word_eqI) (auto simp: bit_simps)
  ultimately show ?thesis by (metis crc_entry_xor crc_step_def)
qed

lemma crc_shift_xor_word: "crc_shift (crc XOR w) = crc_bit crc (bit w 0) XOR drop_bit 1 w"
proof (rule bit_word_eqI)
  fix n assume "n < LENGTH(32)"
  show "bit (crc_shift (crc XOR w)) n = bit (crc_bit crc (bit w 0) XOR drop_bit 1 w) n"
    unfolding crc_shift_bit crc_bit_def Let_def
    by (cases "bit crc 0"; cases "bit w 0") (auto simp: bit_xor_iff bit_drop_bit_eq)
qed

lemma crc_entry_bits:
  "(\<And>j. k \<le> j \<Longrightarrow> \<not> bit w j) \<Longrightarrow> crc_entry k (crc XOR w) = foldl crc_bit crc (map (bit w) [0..<k])"
proof (induction k arbitrary: crc w)
  case 0
  then have "w = 0" by (intro bit_word_eqI) simp
  then show ?case by simp
next
  case (Suc k)
  have bits: "map (bit w) [0..<Suc k] = bit w 0 # map (bit (drop_bit 1 w)) [0..<k]"
    unfolding upt_conv_Cons [OF zero_less_Suc] map_Suc_upt [symmetric] by (simp add: bit_drop_bit_eq comp_def)
  have "crc_entry k (crc_bit crc (bit w 0) XOR drop_bit 1 w) =
      foldl crc_bit (crc_bit crc (bit w 0)) (map (bit (drop_bit 1 w)) [0..<k])"
    using Suc.prems by (intro Suc.IH) (simp add: bit_drop_bit_eq)
  then show ?case unfolding bits by (simp add: crc_shift_xor_word)
qed

lemma crc_step_bits: "crc_step init_crc32_table crc b = foldl crc_bit crc (byte_bits b)"
proof -
  have "crc_entry 8 (crc XOR ucast b) = foldl crc_bit crc (map (bit (ucast b :: u32)) [0..<8])"
    by (rule crc_entry_bits) (auto simp: bit_simps dest: bit_imp_le_length)
  moreover have "map (bit (ucast b :: u32)) [0..<8] = byte_bits b"
    unfolding byte_bits_def by (intro map_cong refl) (simp add: bit_simps)
  ultimately show ?thesis by (simp add: crc_step_entry)
qed

lemma crc_steps: "foldl (crc_step init_crc32_table) crc data = foldl crc_bit crc (concat (map byte_bits data))"
  by (induction data arbitrary: crc) (simp_all add: crc_step_bits)

section \<open>Property\<close>

text \<open>C37: the table-driven checksum is the bit-by-bit one, for every buffer, and the program prints
  that of its buffer.\<close>

theorem crc32_table_driven:
  "crc32 init_crc32_table data = crc32_reference data \<and>
   crc_main sz (Suc rounds) = crc32_reference (crc_buffer sz)"
  by (simp add: crc32_def crc32_reference_def crc_steps crc_main_def)

text \<open>The published check value of CRC-32.\<close>

lemma crc32_check: "crc32_reference (map (of_nat \<circ> of_char) ''123456789'') = 0xCBF43926"
  by code_simp

end
