(* ===== verification/Sample_Programs.thy ===== *)
theory Sample_Programs
  imports Prelude
begin

text \<open>
  The guest programs \<open>src/samples/binary_search.c\<close>, \<open>linked_list.c\<close> and \<open>quicksort.c\<close>. An
  \<open>int\<close> is an integer of 32 bits, and \<open>None\<close> is undefined behaviour: an overflow, a read outside
  the array, or a dereferenced null pointer. \<open>malloc\<close> and \<open>qsort\<close> belong to the C library.
\<close>

section \<open>Binary search\<close>

definition cint :: "int \<Rightarrow> int option" where
  "cint x = (if - (2 ^ 31) \<le> x \<and> x < 2 ^ 31 then Some x else None)"

definition read_int :: "int list \<Rightarrow> int \<Rightarrow> int option" where
  "read_int arr i = (if 0 \<le> i \<and> i < int (length arr) then Some (arr ! nat i) else None)"

function search_loop :: "int list \<Rightarrow> int \<Rightarrow> int \<Rightarrow> int \<Rightarrow> int option" where
  "search_loop arr target low high =
     (if low \<le> high then
        (case cint (high - low) of
           None \<Rightarrow> None
         | Some d \<Rightarrow>
             (case cint (low + d div 2) of
                None \<Rightarrow> None
              | Some mid \<Rightarrow>
                  (case read_int arr mid of
                     None \<Rightarrow> None
                   | Some x \<Rightarrow>
                       if x = target then Some mid
                       else if x < target then
                         (case cint (mid + 1) of None \<Rightarrow> None | Some low \<Rightarrow> search_loop arr target low high)
                       else
                         (case cint (mid - 1) of None \<Rightarrow> None | Some high \<Rightarrow> search_loop arr target low high))))
      else Some (- 1))"
  by pat_completeness auto
termination
  by (relation "measure (\<lambda>(arr, target, low, high). nat (high - low + 1))")
     (auto simp: cint_def split: if_splits)

declare search_loop.simps [simp del]

definition binary_search :: "int list \<Rightarrow> int \<Rightarrow> int \<Rightarrow> int option" where
  "binary_search arr n target =
     (case cint (n - 1) of None \<Rightarrow> None | Some high \<Rightarrow> search_loop arr target 0 high)"

text \<open>\<open>main\<close>, with \<open>SIZE\<close> and the number of searches as arguments.\<close>

definition search_data :: "nat \<Rightarrow> int list" where
  "search_data n = map (\<lambda>i. int i * 2) [0..<n]"

fun search_hits :: "int list \<Rightarrow> nat \<Rightarrow> nat \<Rightarrow> nat \<Rightarrow> nat \<Rightarrow> nat option" where
  "search_hits data n 0 i hits = Some hits"
| "search_hits data n (Suc k) i hits =
     (case binary_search data (int n) (int (i mod (n * 2))) of
        None \<Rightarrow> None
      | Some r \<Rightarrow> search_hits data n k (i + 1) (if r \<noteq> - 1 then hits + 1 else hits))"

definition search_main :: "nat \<Rightarrow> nat \<Rightarrow> nat option" where
  "search_main n searches = search_hits (search_data n) n searches 0 0"

text \<open>The loop's invariant: what is sought is not outside the range still searched.\<close>

definition outside :: "int list \<Rightarrow> int \<Rightarrow> int \<Rightarrow> int \<Rightarrow> bool" where
  "outside arr target low high \<longleftrightarrow>
     (\<forall>i < length arr. (int i < low \<longrightarrow> arr ! i < target) \<and> (high < int i \<longrightarrow> target < arr ! i))"

lemma search_loop_correct:
  assumes "sorted arr" "length arr < 2 ^ 31"
  shows "0 \<le> low \<Longrightarrow> high < int (length arr) \<Longrightarrow> - 1 \<le> high \<Longrightarrow> low \<le> int (length arr) \<Longrightarrow>
    outside arr target low high \<Longrightarrow>
    \<exists>i. search_loop arr target low high = Some i \<and>
      (if target \<in> set arr then 0 \<le> i \<and> i < int (length arr) \<and> arr ! nat i = target else i = - 1)"
proof (induction "nat (high - low + 1)" arbitrary: low high rule: less_induct)
  case less
  have len: "int (length arr) < 2 ^ 31" using assms(2) by simp
  show ?case
  proof (cases "low \<le> high")
    case False
    then have "arr ! i \<noteq> target" if "i < length arr" for i
      using less.prems(5) that unfolding outside_def by (cases "int i < low") fastforce+
    then have "target \<notin> set arr" by (auto simp: in_set_conv_nth)
    with False show ?thesis by (simp add: search_loop.simps [of arr target low high])
  next
    case True
    define mid where "mid = low + (high - low) div 2"
    have mid: "low \<le> mid" "mid \<le> high" using True unfolding mid_def by auto
    define x where "x = arr ! nat mid"
    have c: "cint (high - low) = Some (high - low)" "cint (low + (high - low) div 2) = Some mid"
      "cint (mid + 1) = Some (mid + 1)" "cint (mid - 1) = Some (mid - 1)" "read_int arr mid = Some x"
      using mid less.prems(1-4) len unfolding mid_def [symmetric] by (auto simp: cint_def read_int_def x_def)
    note unfold = search_loop.simps [of arr target low high] c
    have nm: "nat mid < length arr" using mid less.prems(1,2) by simp
    have above: "x \<le> arr ! i" if "mid < int i" "i < length arr" for i
      using sorted_nth_mono [OF assms(1), of "nat mid" i] that mid less.prems(1) by (simp add: x_def)
    have below: "arr ! i \<le> x" if "int i < mid" for i
      using sorted_nth_mono [OF assms(1), of i "nat mid"] that nm by (simp add: x_def)
    consider "x = target" | "x < target" | "target < x" by linarith
    then show ?thesis
    proof cases
      case 1
      then have "target \<in> set arr" using nm by (auto simp: x_def)
      with 1 mid less.prems(1,2) show ?thesis using True by (simp add: unfold x_def)
    next
      case 2
      have "arr ! i < target" if "int i < mid + 1" for i
        using below [of i] that 2 by (cases "int i = mid") (auto simp: x_def)
      then have "outside arr target (mid + 1) high"
        using less.prems(5) by (auto simp: outside_def)
      with less.hyps [of high "mid + 1"] less.prems mid True 2 show ?thesis by (simp add: unfold)
    next
      case 3
      have "target < arr ! i" if "mid - 1 < int i" "i < length arr" for i
        using above [of i] that 3 by (cases "int i = mid") (auto simp: x_def)
      then have "outside arr target low (mid - 1)"
        using less.prems(5) by (auto simp: outside_def)
      with less.hyps [of "mid - 1" low] less.prems mid True 3 show ?thesis by (simp add: unfold)
    qed
  qed
qed

lemma binary_search_finds:
  assumes "sorted arr" "length arr < 2 ^ 31"
  shows "\<exists>i. binary_search arr (int (length arr)) target = Some i \<and>
      (if target \<in> set arr then 0 \<le> i \<and> i < int (length arr) \<and> arr ! nat i = target else i = - 1)"
proof -
  have "cint (int (length arr) - 1) = Some (int (length arr) - 1)"
    using assms(2) by (auto simp: cint_def)
  moreover have "outside arr target 0 (int (length arr) - 1)" by (auto simp: outside_def)
  ultimately show ?thesis
    using search_loop_correct [OF assms, of 0 "int (length arr) - 1" target] by (simp add: binary_search_def)
qed

lemma search_data_mem: "int j \<in> set (search_data n) \<longleftrightarrow> even j \<and> j < 2 * n"
proof
  assume "int j \<in> set (search_data n)"
  then obtain i where "i < n" "int j = int i * 2" by (auto simp: search_data_def)
  then have "j = i * 2" by linarith
  with \<open>i < n\<close> show "even j \<and> j < 2 * n" by simp
next
  assume "even j \<and> j < 2 * n"
  then obtain i where "j = 2 * i" "i < n" by (auto elim: evenE)
  then show "int j \<in> set (search_data n)" by (auto simp: search_data_def intro!: image_eqI [of _ _ i])
qed

lemma search_data_sorted: "sorted (search_data n)"
  by (simp add: search_data_def sorted_iff_nth_mono)

lemma search_hits_even:
  assumes "0 < n" "n < 2 ^ 30"
  shows "search_hits (search_data n) n k i hits = Some (hits + card {j. i \<le> j \<and> j < i + k \<and> even j})"
proof (induction k arbitrary: i hits)
  case (Suc k)
  have len: "length (search_data n) = n" by (simp add: search_data_def)
  with assms have "length (search_data n) < 2 ^ 31" by simp
  from binary_search_finds [OF search_data_sorted this, of "int (i mod (n * 2))", unfolded len] obtain r
    where r: "binary_search (search_data n) (int n) (int (i mod (n * 2))) = Some r"
      "if int (i mod (n * 2)) \<in> set (search_data n) then 0 \<le> r else r = - 1"
    by (auto split: if_splits)
  have "even (i mod (n * 2)) \<longleftrightarrow> even i" by (simp add: dvd_mod_iff)
  moreover have "i mod (n * 2) < 2 * n" using assms(1) by (simp add: mult.commute)
  ultimately have hit: "r \<noteq> - 1 \<longleftrightarrow> even i" using r(2) by (auto simp: search_data_mem simp del: of_nat_mod split: if_splits)
  let ?A = "{j. i + 1 \<le> j \<and> j < i + 1 + k \<and> even j}"
  have "{j. i \<le> j \<and> j < i + Suc k \<and> even j} = (if even i then insert i ?A else ?A)"
    by (auto simp: Suc_le_eq order_le_less)
  moreover have "finite ?A" by (rule finite_subset [of _ "{..<i + 1 + k}"]) auto
  ultimately have "card {j. i \<le> j \<and> j < i + Suc k \<and> even j} = (if even i then 1 else 0) + card ?A"
    by simp
  then show ?case using r(1) hit Suc [of "i + 1"] by simp
qed simp

lemma card_even_below: "card {j. j < k \<and> even j} = (k + 1) div 2" for k :: nat
proof (induction k)
  case (Suc k)
  have "{j. j < Suc k \<and> even j} = {j. j < k \<and> even j} \<union> (if even k then {k} else {})"
    by (auto simp: less_Suc_eq)
  with Suc show ?case by auto
qed simp

section \<open>A linked list\<close>

record node =
  node_data :: int
  node_next :: "u32 option"

text \<open>The loop that builds the list; \<open>alloc i\<close> is what the \<open>i\<close>-th \<open>malloc\<close> returns.\<close>

fun build_list ::
  "(nat \<Rightarrow> u32 option) \<Rightarrow> nat \<Rightarrow> nat \<Rightarrow> (u32 \<Rightarrow> node option) \<times> u32 option \<Rightarrow> ((u32 \<Rightarrow> node option) \<times> u32 option) option" where
  "build_list alloc 0 i (hp, lhead) = Some (hp, lhead)"
| "build_list alloc (Suc k) i (hp, lhead) =
     (case alloc i of
        None \<Rightarrow> None
      | Some p \<Rightarrow>
          (case cint (int i) of
             None \<Rightarrow> None
           | Some v \<Rightarrow> build_list alloc k (i + 1) (hp(p \<mapsto> \<lparr>node_data = v, node_next = lhead\<rparr>), Some p)))"

text \<open>\<open>while (curr)\<close>: on a list that loops it never ends, and \<open>None\<close> is its result.\<close>

partial_function (option) traverse :: "(u32 \<Rightarrow> node option) \<Rightarrow> u32 option \<Rightarrow> u64 \<Rightarrow> u64 option" where
  "traverse hp cur acc =
     (case cur of
        None \<Rightarrow> Some acc
      | Some p \<Rightarrow>
          (case hp p of
             None \<Rightarrow> None
           | Some nd \<Rightarrow> traverse hp (node_next nd) (acc + of_int (node_data nd))))"

fun traverse_rounds :: "nat \<Rightarrow> (u32 \<Rightarrow> node option) \<Rightarrow> u32 option \<Rightarrow> u64 \<Rightarrow> u64 option" where
  "traverse_rounds 0 hp lhead acc = Some acc"
| "traverse_rounds (Suc r) hp lhead acc =
     (case traverse hp lhead acc of None \<Rightarrow> None | Some acc \<Rightarrow> traverse_rounds r hp lhead acc)"

definition list_main :: "(nat \<Rightarrow> u32 option) \<Rightarrow> nat \<Rightarrow> nat \<Rightarrow> u64 option" where
  "list_main alloc count rounds =
     (case build_list alloc count 0 (Map.empty, None) of
        None \<Rightarrow> None
      | Some (hp, lhead) \<Rightarrow> traverse_rounds rounds hp lhead 0)"

text \<open>A list in the heap: its data from the head on.\<close>

inductive list_at :: "(u32 \<Rightarrow> node option) \<Rightarrow> u32 option \<Rightarrow> int list \<Rightarrow> bool" for hp where
  at_end: "list_at hp None []"
| at_node: "hp p = Some nd \<Longrightarrow> list_at hp (node_next nd) xs \<Longrightarrow> list_at hp (Some p) (node_data nd # xs)"

lemma list_at_new:
  "list_at hp cur xs \<Longrightarrow> p \<notin> dom hp \<Longrightarrow> list_at (hp(p \<mapsto> nd)) cur xs"
  by (induction rule: list_at.induct) (auto intro!: list_at.intros simp: domIff)

lemma build_list_at:
  assumes "\<forall>j < k. \<exists>p. alloc (i + j) = Some p \<and> p \<notin> dom hp" "inj_on alloc {i..<i + k}"
    and "i + k \<le> 2 ^ 31" "list_at hp lhead xs"
  shows "\<exists>hp' lhead'. build_list alloc k i (hp, lhead) = Some (hp', lhead') \<and>
    list_at hp' lhead' (rev (map int [i..<i + k]) @ xs)"
  using assms
proof (induction k arbitrary: i hp lhead xs)
  case (Suc k)
  from Suc.prems(1) [rule_format, of 0] obtain p where p: "alloc i = Some p" "p \<notin> dom hp" by auto
  let ?nd = "\<lparr>node_data = int i, node_next = lhead\<rparr>"
  let ?hp = "hp(p \<mapsto> ?nd)"
  have "list_at ?hp (node_next ?nd) xs" using list_at_new [OF Suc.prems(4) p(2)] by simp
  from at_node [OF _ this, of p] have l: "list_at ?hp (Some p) (int i # xs)" by simp
  have "\<forall>j < k. \<exists>q. alloc (i + 1 + j) = Some q \<and> q \<notin> dom ?hp"
  proof (intro allI impI)
    fix j assume that: "j < k"
    from Suc.prems(1) [rule_format, of "Suc j"] that obtain q where q: "alloc (i + 1 + j) = Some q" "q \<notin> dom hp" by auto
    have "q \<noteq> p"
      using inj_onD [OF Suc.prems(2), of "i + 1 + j" i] q(1) p(1) that by auto
    with q show "\<exists>q. alloc (i + 1 + j) = Some q \<and> q \<notin> dom ?hp" by auto
  qed
  moreover have "inj_on alloc {i + 1..<i + 1 + k}"
    by (rule inj_on_subset [OF Suc.prems(2)]) auto
  moreover have "i + 1 + k \<le> 2 ^ 31" using Suc.prems(3) by simp
  ultimately obtain hp' lhead' where r: "build_list alloc k (i + 1) (?hp, Some p) = Some (hp', lhead')"
    "list_at hp' lhead' (rev (map int [i + 1..<i + 1 + k]) @ int i # xs)"
    using Suc.IH [of "i + 1" ?hp "Some p" "int i # xs", OF _ _ _ l] by blast
  have "cint (int i) = Some (int i)" using Suc.prems(3) by (simp add: cint_def)
  moreover have "[i..<i + Suc k] = i # [i + 1..<i + 1 + k]" by (simp add: upt_conv_Cons)
  ultimately show ?case using r p(1) by auto
qed simp

lemma traverse_sum:
  "list_at hp cur xs \<Longrightarrow> traverse hp cur acc = Some (acc + of_int (sum_list xs))"
  by (induction arbitrary: acc rule: list_at.induct) (subst traverse.simps; simp add: add.assoc)+

lemma traverse_rounds_sum:
  "list_at hp lhead xs \<Longrightarrow> traverse_rounds r hp lhead acc = Some (acc + of_nat r * of_int (sum_list xs))"
  by (induction r arbitrary: acc) (simp_all add: traverse_sum algebra_simps)

lemma gauss: "2 * sum_list (map int [0..<k]) = int (k * (k - 1))"
proof (induction k)
  case (Suc k)
  then show ?case by (cases k) (simp_all add: algebra_simps)
qed simp

lemma sint_of_nat_small: "m < 2 ^ 63 \<Longrightarrow> sint (of_nat m :: u64) = int m"
  by (simp add: signed_of_nat signed_take_bit_int_eq_self)

text \<open>The list program adds up its list once a round; the list ends, and the sum is exact in 64 bits.\<close>

lemma linked_list_sum:
  assumes "\<forall>i < count. alloc i \<noteq> None" "inj_on alloc {..<count}" "count \<le> 2 ^ 31" "rounds * (count * count) < 2 ^ 63"
  shows "map_option sint (list_main alloc count rounds) = Some (int (rounds * (count * (count - 1) div 2)))"
proof -
  have sum: "sum_list (map int [0..<count]) = int (count * (count - 1) div 2)"
    using gauss [of count] unfolding zdiv_int by (metis nonzero_mult_div_cancel_left of_nat_numeral zero_neq_numeral)
  obtain hp lhead where "build_list alloc count 0 (Map.empty, None) = Some (hp, lhead)"
    "list_at hp lhead (rev (map int [0..<count]))"
    using build_list_at [of count alloc 0 Map.empty None "[]"] assms at_end by (force simp: lessThan_atLeast0)
  then have "list_main alloc count rounds = Some (of_nat (rounds * (count * (count - 1) div 2)))"
    by (simp add: list_main_def traverse_rounds_sum sum)
  moreover have "rounds * (count * (count - 1) div 2) \<le> rounds * (count * count)"
    by (intro mult_le_mono2 order_trans [OF div_le_dividend] mult_le_mono2) simp
  then have "rounds * (count * (count - 1) div 2) < 2 ^ 63" using assms(4) by linarith
  ultimately show ?thesis by (simp only: option.map sint_of_nat_small)
qed

lemma linked_list_sum_witness:
  "map_option sint (list_main (\<lambda>i. Some (of_nat (8 * (i + 1)))) 10000 100) = Some 4999500000"
proof -
  have "inj_on (\<lambda>i :: nat. Some (of_nat (8 * (i + 1)) :: u32)) {..<10000}"
  proof (rule inj_onI)
    fix x y assume "x \<in> {..<10000 :: nat}" "y \<in> {..<10000 :: nat}"
      and "Some (of_nat (8 * (x + 1)) :: u32) = Some (of_nat (8 * (y + 1)))"
    then have "unat (of_nat (8 * (x + 1)) :: u32) = unat (of_nat (8 * (y + 1)) :: u32)" by simp
    moreover have "8 * (x + 1) < 2 ^ 32" "8 * (y + 1) < 2 ^ 32"
      using \<open>x \<in> _\<close> \<open>y \<in> _\<close> by simp_all
    ultimately show "x = y" by (simp only: unat_of_nat) simp
  qed
  with linked_list_sum [of 10000 "\<lambda>i. Some (of_nat (8 * (i + 1)))" 100] show ?thesis by simp
qed

section \<open>Comparison\<close>

text \<open>The comparison that \<open>qsort\<close> gets: a difference, which can overflow.\<close>

definition compare_int :: "int \<Rightarrow> int \<Rightarrow> int option" where
  "compare_int a b = cint (a - b)"

lemma compare_int_order:
  "- (2 ^ 30) \<le> a \<and> a < 2 ^ 30 \<and> - (2 ^ 30) \<le> b \<and> b < 2 ^ 30 \<Longrightarrow>
     \<exists>c. compare_int a b = Some c \<and> (c < 0 \<longleftrightarrow> a < b) \<and> (c = 0 \<longleftrightarrow> a = b)"
  by (auto simp: compare_int_def cint_def)

lemma compare_int_overflows: "compare_int (2 ^ 31 - 1) (- 1) = None"
  by (simp add: compare_int_def cint_def)

text \<open>\<open>main\<close> of \<open>src/samples/quicksort.c\<close>, with \<open>qsort\<close> as an argument. It sorts an array of
  its own and returns 0, unless the comparison has no defined result.\<close>

definition quicksort_main ::
  "((int \<Rightarrow> int \<Rightarrow> int option) \<Rightarrow> int list \<Rightarrow> int list option) \<Rightarrow> int list \<Rightarrow> int option" where
  "quicksort_main qsort input = (case qsort compare_int input of None \<Rightarrow> None | Some _ \<Rightarrow> Some 0)"

text \<open>A \<open>qsort\<close> that compares only elements of the array returns where those comparisons do.\<close>

lemma quicksort_main_returns:
  assumes "\<And>cmp xs. \<forall>a \<in> set xs. \<forall>b \<in> set xs. cmp a b \<noteq> None \<Longrightarrow> qsort cmp xs \<noteq> None"
    and "\<forall>a \<in> set input. - (2 ^ 30) \<le> a \<and> a < 2 ^ 30"
  shows "quicksort_main qsort input = Some 0"
proof -
  have "compare_int a b \<noteq> None" if "a \<in> set input" "b \<in> set input" for a b
    using compare_int_order [of a b] assms(2) that by auto
  with assms(1) [of input compare_int] show ?thesis by (auto simp: quicksort_main_def)
qed

section \<open>Properties\<close>

text \<open>Binary search on a sorted array neither overflows nor reads outside it, and returns the
  index of the key, or -1 when there is none; the program counts the even keys.\<close>

lemma binary_search_correct:
  assumes "sorted arr" "length arr < 2 ^ 31" "0 < n" "n < 2 ^ 30"
  shows "(\<exists>i. binary_search arr (int (length arr)) target = Some i \<and>
      (if target \<in> set arr then 0 \<le> i \<and> i < int (length arr) \<and> arr ! nat i = target else i = - 1)) \<and>
    search_main n searches = Some ((searches + 1) div 2)"
  using binary_search_finds [OF assms(1,2)] search_hits_even [OF assms(3,4), of searches 0 0] card_even_below
  by (simp add: search_main_def)

lemma binary_search_correct_witness:
  "binary_search [2, 3, 5, 8] 4 6 = Some (- 1) \<and> search_main 100000 10000000 = Some 5000000"
  using binary_search_correct [of "[2, 3, 5, 8]" 100000 6 10000000] by simp

end
