(* ===== verification/Load_Delay.thy ===== *)
theory Load_Delay
  imports Frame Switch
begin

text \<open>
  The build of the switch interpreter with \<open>LOAD_DELAY_ENABLE\<close>, the option that \<open>src/common.h\<close>
  leaves as a comment: \<open>struct mips\<close> then has the fields \<open>load_d\<close> and \<open>load_v\<close>, a load leaves
  its value there, and \<open>ITP_LOAD_DELAY\<close> is to move it into the register when the next
  instruction has read its operands. That macro is guarded by another option, \<open>__LOAD_DELAY__\<close>:
  the argument \<open>on\<close> says whether it is defined as well. \<open>load_d\<close> holds a register number and is
  a \<open>nat\<close> like those. \<open>lwl\<close> and \<open>lwr\<close> pass a pointer to a \<open>u32\<close> that is 0 to
  \<open>memory_read_u16\<close>; on a little-endian host it receives the low half.
\<close>

section \<open>State\<close>

record 'h delayed =
  delayed :: "'h machine"
  load_d :: nat
  load_v :: u32

definition ITP_LOAD_DELAY :: "bool \<Rightarrow> 'h delayed \<Rightarrow> 'h delayed" where
  "ITP_LOAD_DELAY on d =
     (if on then
        let s = put_reg (load_d d) (load_v d) (delayed d);
            s = put_reg MIPS_R_ZERO 0 s
        in d\<lparr>delayed := s, load_d := MIPS_R_GARBAGE\<rparr>
      else d)"

section \<open>Loads\<close>

definition ITP_LB_DELAY ::
  "bool \<Rightarrow> nat \<Rightarrow> u32 \<Rightarrow> u16 \<Rightarrow> 'h delayed \<Rightarrow> 'h delayed result" where
  "ITP_LB_DELAY on rt value_rs imm16 d =
     (let address = LOAD_COMPUTE_ADDRESS imm16 value_rs
      in bindR (memory_read_u8 (gmem (delayed d)) address) (\<lambda>read.
         let d = (if load_d d \<noteq> rt then ITP_LOAD_DELAY on d else d)
         in Inr (d\<lparr>load_d := rt, load_v := scast read\<rparr>)))"

definition ITP_LH_DELAY ::
  "bool \<Rightarrow> nat \<Rightarrow> u32 \<Rightarrow> u16 \<Rightarrow> 'h delayed \<Rightarrow> 'h delayed result" where
  "ITP_LH_DELAY on rt value_rs imm16 d =
     (let address = LOAD_COMPUTE_ADDRESS imm16 value_rs
      in bindR (memory_read_u16 (gmem (delayed d)) address) (\<lambda>read.
         let d = (if load_d d \<noteq> rt then ITP_LOAD_DELAY on d else d)
         in Inr (d\<lparr>load_d := rt, load_v := scast read\<rparr>)))"

definition ITP_LW_DELAY ::
  "bool \<Rightarrow> nat \<Rightarrow> u32 \<Rightarrow> u16 \<Rightarrow> 'h delayed \<Rightarrow> 'h delayed result" where
  "ITP_LW_DELAY on rt value_rs imm16 d =
     (let address = LOAD_COMPUTE_ADDRESS imm16 value_rs
      in bindR (memory_read_u32 (gmem (delayed d)) address) (\<lambda>read.
         let d = (if load_d d \<noteq> rt then ITP_LOAD_DELAY on d else d)
         in Inr (d\<lparr>load_d := rt, load_v := read\<rparr>)))"

definition ITP_LBU_DELAY ::
  "bool \<Rightarrow> nat \<Rightarrow> u32 \<Rightarrow> u16 \<Rightarrow> 'h delayed \<Rightarrow> 'h delayed result" where
  "ITP_LBU_DELAY on rt value_rs imm16 d =
     (let address = LOAD_COMPUTE_ADDRESS imm16 value_rs
      in bindR (memory_read_u8 (gmem (delayed d)) address) (\<lambda>read.
         let d = (if load_d d \<noteq> rt then ITP_LOAD_DELAY on d else d)
         in Inr (d\<lparr>load_d := rt, load_v := ucast read\<rparr>)))"

definition ITP_LHU_DELAY ::
  "bool \<Rightarrow> nat \<Rightarrow> u32 \<Rightarrow> u16 \<Rightarrow> 'h delayed \<Rightarrow> 'h delayed result" where
  "ITP_LHU_DELAY on rt value_rs imm16 d =
     (let address = LOAD_COMPUTE_ADDRESS imm16 value_rs
      in bindR (memory_read_u16 (gmem (delayed d)) address) (\<lambda>read.
         let d = (if load_d d \<noteq> rt then ITP_LOAD_DELAY on d else d)
         in Inr (d\<lparr>load_d := rt, load_v := ucast read\<rparr>)))"

definition ITP_LWL_DELAY ::
  "bool \<Rightarrow> nat \<Rightarrow> u32 \<Rightarrow> u16 \<Rightarrow> 'h delayed \<Rightarrow> 'h delayed result" where
  "ITP_LWL_DELAY on rt value_rs imm16 d =
     (let address = LOAD_COMPUTE_ADDRESS imm16 value_rs
      in bindR (memory_read_u16 (gmem (delayed d)) (address AND NOT 3)) (\<lambda>read.
         let d = (if load_d d \<noteq> rt then ITP_LOAD_DELAY on d else d)
         in Inr (d\<lparr>load_v := ucast read\<rparr>)))"

definition ITP_LWR_DELAY ::
  "bool \<Rightarrow> nat \<Rightarrow> u32 \<Rightarrow> u16 \<Rightarrow> 'h delayed \<Rightarrow> 'h delayed result" where
  "ITP_LWR_DELAY on rt value_rs imm16 d =
     (let address = LOAD_COMPUTE_ADDRESS imm16 value_rs
      in bindR (memory_read_u16 (gmem (delayed d)) (address AND NOT 3)) (\<lambda>read.
         let d = (if load_d d \<noteq> rt then ITP_LOAD_DELAY on d else d)
         in Inr (d\<lparr>load_v := ucast read\<rparr>)))"

definition ITP_LL_DELAY ::
  "bool \<Rightarrow> nat \<Rightarrow> u32 \<Rightarrow> u16 \<Rightarrow> 'h delayed \<Rightarrow> 'h delayed result" where
  "ITP_LL_DELAY on rt value_rs imm16 = ITP_LW_DELAY on rt value_rs imm16"

section \<open>What a row executes\<close>

text \<open>The operands have been read when the prologue ends with \<open>ITP_LOAD_DELAY\<close>; that of \<open>brk\<close>
  does not end with it.\<close>

definition no_delay :: "('h machine \<Rightarrow> 'h machine result) \<Rightarrow> 'h delayed \<Rightarrow> 'h delayed result" where
  "no_delay impl d = bindR (impl (delayed d)) (\<lambda>s. Inr (d\<lparr>delayed := s\<rparr>))"

definition with_delay ::
  "bool \<Rightarrow> ('h machine \<Rightarrow> 'h machine result) \<Rightarrow> 'h delayed \<Rightarrow> 'h delayed result" where
  "with_delay on impl d = no_delay impl (ITP_LOAD_DELAY on d)"

primrec interpret_delay ::
  "bool \<Rightarrow> 'h os \<Rightarrow> mnemonic \<Rightarrow> u32 \<Rightarrow> 'h delayed \<Rightarrow> 'h delayed result" where
  "interpret_delay on os I_blez cir d =
     ITP_TYPE_BRANCH_GENERIC cir (cpu (delayed d)) (\<lambda>value_rs imm16. with_delay on (on_cpu (ITP_BLEZ_IMPL value_rs imm16)) d)"
| "interpret_delay on os I_bgtz cir d =
     ITP_TYPE_BRANCH_GENERIC cir (cpu (delayed d)) (\<lambda>value_rs imm16. with_delay on (on_cpu (ITP_BGTZ_IMPL value_rs imm16)) d)"
| "interpret_delay on os I_j cir d =
     ITP_TYPE_J_JAL cir (cpu (delayed d)) (\<lambda>imm26. with_delay on (on_cpu (ITP_J_IMPL imm26)) d)"
| "interpret_delay on os I_jal cir d =
     ITP_TYPE_J_JAL cir (cpu (delayed d)) (\<lambda>imm26. with_delay on (on_cpu (ITP_JAL_IMPL imm26)) d)"
| "interpret_delay on os I_beq cir d =
     ITP_TYPE_BRANCH_EQ_NE cir (cpu (delayed d)) (\<lambda>value_rs value_rt imm16. with_delay on (on_cpu (ITP_BEQ_IMPL value_rs value_rt imm16)) d)"
| "interpret_delay on os I_bne cir d =
     ITP_TYPE_BRANCH_EQ_NE cir (cpu (delayed d)) (\<lambda>value_rs value_rt imm16. with_delay on (on_cpu (ITP_BNE_IMPL value_rs value_rt imm16)) d)"
| "interpret_delay on os I_addi cir d =
     ITP_TYPE_ALU_IMM cir (cpu (delayed d)) (\<lambda>rt value_rs imm16. with_delay on (on_cpu (ITP_ADDI_IMPL rt value_rs imm16)) d)"
| "interpret_delay on os I_addiu cir d =
     ITP_TYPE_ALU_IMM cir (cpu (delayed d)) (\<lambda>rt value_rs imm16. with_delay on (on_cpu (ITP_ADDIU_IMPL rt value_rs imm16)) d)"
| "interpret_delay on os I_slti cir d =
     ITP_TYPE_ALU_IMM cir (cpu (delayed d)) (\<lambda>rt value_rs imm16. with_delay on (on_cpu (ITP_SLTI_IMPL rt value_rs imm16)) d)"
| "interpret_delay on os I_sltiu cir d =
     ITP_TYPE_ALU_IMM cir (cpu (delayed d)) (\<lambda>rt value_rs imm16. with_delay on (on_cpu (ITP_SLTIU_IMPL rt value_rs imm16)) d)"
| "interpret_delay on os I_andi cir d =
     ITP_TYPE_ALU_IMM cir (cpu (delayed d)) (\<lambda>rt value_rs imm16. with_delay on (on_cpu (ITP_ANDI_IMPL rt value_rs imm16)) d)"
| "interpret_delay on os I_ori cir d =
     ITP_TYPE_ALU_IMM cir (cpu (delayed d)) (\<lambda>rt value_rs imm16. with_delay on (on_cpu (ITP_ORI_IMPL rt value_rs imm16)) d)"
| "interpret_delay on os I_xori cir d =
     ITP_TYPE_ALU_IMM cir (cpu (delayed d)) (\<lambda>rt value_rs imm16. with_delay on (on_cpu (ITP_XORI_IMPL rt value_rs imm16)) d)"
| "interpret_delay on os I_lui cir d =
     ITP_TYPE_LUI_IMM cir (cpu (delayed d)) (\<lambda>rt imm16. with_delay on (on_cpu (ITP_LUI_IMPL rt imm16)) d)"
| "interpret_delay on os I_lb cir d =
     ITP_TYPE_LOAD_IMM cir (cpu (delayed d)) (\<lambda>rt value_rs imm16. ITP_LB_DELAY on rt value_rs imm16 d)"
| "interpret_delay on os I_lh cir d =
     ITP_TYPE_LOAD_IMM cir (cpu (delayed d)) (\<lambda>rt value_rs imm16. ITP_LH_DELAY on rt value_rs imm16 d)"
| "interpret_delay on os I_lwl cir d =
     ITP_TYPE_LOAD_IMM cir (cpu (delayed d)) (\<lambda>rt value_rs imm16. ITP_LWL_DELAY on rt value_rs imm16 d)"
| "interpret_delay on os I_lw cir d =
     ITP_TYPE_LOAD_IMM cir (cpu (delayed d)) (\<lambda>rt value_rs imm16. ITP_LW_DELAY on rt value_rs imm16 d)"
| "interpret_delay on os I_lbu cir d =
     ITP_TYPE_LOAD_IMM cir (cpu (delayed d)) (\<lambda>rt value_rs imm16. ITP_LBU_DELAY on rt value_rs imm16 d)"
| "interpret_delay on os I_lhu cir d =
     ITP_TYPE_LOAD_IMM cir (cpu (delayed d)) (\<lambda>rt value_rs imm16. ITP_LHU_DELAY on rt value_rs imm16 d)"
| "interpret_delay on os I_lwr cir d =
     ITP_TYPE_LOAD_IMM cir (cpu (delayed d)) (\<lambda>rt value_rs imm16. ITP_LWR_DELAY on rt value_rs imm16 d)"
| "interpret_delay on os I_ll cir d =
     ITP_TYPE_LOAD_IMM cir (cpu (delayed d)) (\<lambda>rt value_rs imm16. ITP_LL_DELAY on rt value_rs imm16 d)"
| "interpret_delay on os I_sb cir d =
     ITP_TYPE_STORE_IMM cir (cpu (delayed d)) (\<lambda>rt value_rs value_rt imm16. with_delay on (ITP_SB_IMPL value_rs value_rt imm16) d)"
| "interpret_delay on os I_sh cir d =
     ITP_TYPE_STORE_IMM cir (cpu (delayed d)) (\<lambda>rt value_rs value_rt imm16. with_delay on (ITP_SH_IMPL value_rs value_rt imm16) d)"
| "interpret_delay on os I_swl cir d =
     ITP_TYPE_STORE_IMM cir (cpu (delayed d)) (\<lambda>rt value_rs value_rt imm16. with_delay on (ITP_SWL_IMPL value_rs value_rt imm16) d)"
| "interpret_delay on os I_sw cir d =
     ITP_TYPE_STORE_IMM cir (cpu (delayed d)) (\<lambda>rt value_rs value_rt imm16. with_delay on (ITP_SW_IMPL value_rs value_rt imm16) d)"
| "interpret_delay on os I_sc cir d =
     ITP_TYPE_STORE_IMM cir (cpu (delayed d)) (\<lambda>rt value_rs value_rt imm16. with_delay on (ITP_SC_IMPL rt value_rs value_rt imm16) d)"
| "interpret_delay on os I_swr cir d =
     ITP_TYPE_STORE_IMM cir (cpu (delayed d)) (\<lambda>rt value_rs value_rt imm16. with_delay on (ITP_SWR_IMPL value_rs value_rt imm16) d)"
| "interpret_delay on os I_rdhwr cir d =
     ITP_TYPE_RDHWR cir (cpu (delayed d)) (\<lambda>rt rd. with_delay on (on_cpu (ITP_RDHWR_IMPL rt rd)) d)"
| "interpret_delay on os I_brk cir d =
     ITP_TYPE_BRK cir (cpu (delayed d)) (\<lambda>imm20 v0 a0 a1 a2 a3. no_delay ITP_BRK_IMPL d)"
| "interpret_delay on os I_sll cir d =
     ITP_TYPE_SHIFT_IMM cir (cpu (delayed d)) (\<lambda>rd sh value_rt. with_delay on (on_cpu (ITP_SLL_IMPL rd sh value_rt)) d)"
| "interpret_delay on os I_srl cir d =
     ITP_TYPE_SHIFT_IMM cir (cpu (delayed d)) (\<lambda>rd sh value_rt. with_delay on (on_cpu (ITP_SRL_IMPL rd sh value_rt)) d)"
| "interpret_delay on os I_sra cir d =
     ITP_TYPE_SHIFT_IMM cir (cpu (delayed d)) (\<lambda>rd sh value_rt. with_delay on (on_cpu (ITP_SRA_IMPL rd sh value_rt)) d)"
| "interpret_delay on os I_sllv cir d =
     ITP_TYPE_SHIFT_REG cir (cpu (delayed d)) (\<lambda>rd value_rs value_rt. with_delay on (on_cpu (ITP_SLLV_IMPL rd value_rs value_rt)) d)"
| "interpret_delay on os I_srlv cir d =
     ITP_TYPE_SHIFT_REG cir (cpu (delayed d)) (\<lambda>rd value_rs value_rt. with_delay on (on_cpu (ITP_SRLV_IMPL rd value_rs value_rt)) d)"
| "interpret_delay on os I_srav cir d =
     ITP_TYPE_SHIFT_REG cir (cpu (delayed d)) (\<lambda>rd value_rs value_rt. with_delay on (on_cpu (ITP_SRAV_IMPL rd value_rs value_rt)) d)"
| "interpret_delay on os I_jr cir d =
     ITP_TYPE_JR cir (cpu (delayed d)) (\<lambda>value_rs. with_delay on (on_cpu (ITP_JR_IMPL value_rs)) d)"
| "interpret_delay on os I_jalr cir d =
     ITP_TYPE_JALR cir (cpu (delayed d)) (\<lambda>rd value_rs. with_delay on (on_cpu (ITP_JALR_IMPL rd value_rs)) d)"
| "interpret_delay on os I_syscall cir d =
     ITP_TYPE_SYSCALL cir (cpu (delayed d)) (\<lambda>imm20 v0 a0 a1 a2 a3. with_delay on (ITP_SYSCALL_IMPL os v0 a0 a1 a2 a3) d)"
| "interpret_delay on os I_special cir d =
     ITP_TYPE_SYSCALL cir (cpu (delayed d)) (\<lambda>imm20 v0 a0 a1 a2 a3. with_delay on ITP_SPECIAL_IMPL d)"
| "interpret_delay on os I_mfhi cir d =
     ITP_TYPE_MF cir (cpu (delayed d)) (\<lambda>rd. with_delay on (on_cpu (ITP_MFHI_IMPL rd)) d)"
| "interpret_delay on os I_mflo cir d =
     ITP_TYPE_MF cir (cpu (delayed d)) (\<lambda>rd. with_delay on (on_cpu (ITP_MFLO_IMPL rd)) d)"
| "interpret_delay on os I_mthi cir d =
     ITP_TYPE_MT cir (cpu (delayed d)) (\<lambda>value_rs. with_delay on (on_cpu (ITP_MTHI_IMPL value_rs)) d)"
| "interpret_delay on os I_mtlo cir d =
     ITP_TYPE_MT cir (cpu (delayed d)) (\<lambda>value_rs. with_delay on (on_cpu (ITP_MTLO_IMPL value_rs)) d)"
| "interpret_delay on os I_mult cir d =
     ITP_TYPE_MULT_DIV cir (cpu (delayed d)) (\<lambda>value_rs value_rt. with_delay on (on_cpu (ITP_MULT_IMPL value_rs value_rt)) d)"
| "interpret_delay on os I_multu cir d =
     ITP_TYPE_MULT_DIV cir (cpu (delayed d)) (\<lambda>value_rs value_rt. with_delay on (on_cpu (ITP_MULTU_IMPL value_rs value_rt)) d)"
| "interpret_delay on os I_div cir d =
     ITP_TYPE_MULT_DIV cir (cpu (delayed d)) (\<lambda>value_rs value_rt. with_delay on (on_cpu (ITP_DIV_IMPL value_rs value_rt)) d)"
| "interpret_delay on os I_divu cir d =
     ITP_TYPE_MULT_DIV cir (cpu (delayed d)) (\<lambda>value_rs value_rt. with_delay on (on_cpu (ITP_DIVU_IMPL value_rs value_rt)) d)"
| "interpret_delay on os I_add cir d =
     ITP_TYPE_ALU_REG cir (cpu (delayed d)) (\<lambda>rd value_rs value_rt. with_delay on (on_cpu (ITP_ADD_IMPL rd value_rs value_rt)) d)"
| "interpret_delay on os I_addu cir d =
     ITP_TYPE_ALU_REG cir (cpu (delayed d)) (\<lambda>rd value_rs value_rt. with_delay on (on_cpu (ITP_ADDU_IMPL rd value_rs value_rt)) d)"
| "interpret_delay on os I_sub cir d =
     ITP_TYPE_ALU_REG cir (cpu (delayed d)) (\<lambda>rd value_rs value_rt. with_delay on (on_cpu (ITP_SUB_IMPL rd value_rs value_rt)) d)"
| "interpret_delay on os I_subu cir d =
     ITP_TYPE_ALU_REG cir (cpu (delayed d)) (\<lambda>rd value_rs value_rt. with_delay on (on_cpu (ITP_SUBU_IMPL rd value_rs value_rt)) d)"
| "interpret_delay on os I_slt cir d =
     ITP_TYPE_ALU_REG cir (cpu (delayed d)) (\<lambda>rd value_rs value_rt. with_delay on (on_cpu (ITP_SLT_IMPL rd value_rs value_rt)) d)"
| "interpret_delay on os I_sltu cir d =
     ITP_TYPE_ALU_REG cir (cpu (delayed d)) (\<lambda>rd value_rs value_rt. with_delay on (on_cpu (ITP_SLTU_IMPL rd value_rs value_rt)) d)"
| "interpret_delay on os I_and cir d =
     ITP_TYPE_ALU_REG cir (cpu (delayed d)) (\<lambda>rd value_rs value_rt. with_delay on (on_cpu (ITP_AND_IMPL rd value_rs value_rt)) d)"
| "interpret_delay on os I_or cir d =
     ITP_TYPE_ALU_REG cir (cpu (delayed d)) (\<lambda>rd value_rs value_rt. with_delay on (on_cpu (ITP_OR_IMPL rd value_rs value_rt)) d)"
| "interpret_delay on os I_xor cir d =
     ITP_TYPE_ALU_REG cir (cpu (delayed d)) (\<lambda>rd value_rs value_rt. with_delay on (on_cpu (ITP_XOR_IMPL rd value_rs value_rt)) d)"
| "interpret_delay on os I_nor cir d =
     ITP_TYPE_ALU_REG cir (cpu (delayed d)) (\<lambda>rd value_rs value_rt. with_delay on (on_cpu (ITP_NOR_IMPL rd value_rs value_rt)) d)"
| "interpret_delay on os I_bltz cir d =
     ITP_TYPE_BRANCH_GENERIC cir (cpu (delayed d)) (\<lambda>value_rs imm16. with_delay on (on_cpu (ITP_BLTZ_IMPL value_rs imm16)) d)"
| "interpret_delay on os I_bgez cir d =
     ITP_TYPE_BRANCH_GENERIC cir (cpu (delayed d)) (\<lambda>value_rs imm16. with_delay on (on_cpu (ITP_BGEZ_IMPL value_rs imm16)) d)"
| "interpret_delay on os I_bltzal cir d =
     ITP_TYPE_BRANCH_GENERIC cir (cpu (delayed d)) (\<lambda>value_rs imm16. with_delay on (on_cpu (ITP_BLTZAL_IMPL value_rs imm16)) d)"
| "interpret_delay on os I_bgezal cir d =
     ITP_TYPE_BRANCH_GENERIC cir (cpu (delayed d)) (\<lambda>value_rs imm16. with_delay on (on_cpu (ITP_BGEZAL_IMPL value_rs imm16)) d)"

section \<open>The switch interpreter\<close>

definition switch_body_delay :: "bool \<Rightarrow> 'h os \<Rightarrow> 'h delayed \<Rightarrow> 'h delayed result" where
  "switch_body_delay on os d =
     bindR (fetch (delayed d)) (\<lambda>cir.
     bindR (switch_decode (get_reg MIPS_R_PC (delayed d)) cir) (\<lambda>i.
     bindR (interpret_delay on os i cir d) (\<lambda>d.
     Inr (d\<lparr>delayed := upd_cpu INCREMENT_PC (delayed d)\<rparr>))))"

fun interpreter_switch_delay ::
  "bool \<Rightarrow> 'h os \<Rightarrow> nat \<Rightarrow> 'h delayed \<Rightarrow> 'h delayed result option" where
  "interpreter_switch_delay on os 0 d = (if halted (cpu (delayed d)) then Some (Inr d) else None)"
| "interpreter_switch_delay on os (Suc fuel) d =
     (if halted (cpu (delayed d)) then Some (Inr d)
      else case switch_body_delay on os d of
             Inl e \<Rightarrow> Some (Inl e)
           | Inr d' \<Rightarrow> interpreter_switch_delay on os fuel d')"

end
