(* ===== verification/Load_Delay_Spec.thy ===== *)
theory Load_Delay_Spec
  imports Load_Delay Examples
begin

text \<open>
  The load-delay build beside the default one. With \<open>__LOAD_DELAY__\<close> a program that does not
  read a loaded register in the instruction behind the load runs as in the default build, the
  pending value settled; without it no loaded value ever reaches a register.
\<close>

section \<open>The settled machine\<close>

text \<open>The machine with the pending value moved into its register.\<close>

definition settle :: "'h delayed \<Rightarrow> 'h machine" where
  "settle d = put_reg MIPS_R_ZERO 0 (put_reg (load_d d) (load_v d) (delayed d))"

definition loads :: "mnemonic set" where
  "loads = {I_lb, I_lh, I_lwl, I_lw, I_lbu, I_lhu, I_lwr, I_ll}"

text \<open>The registers whose values the prologue reads, and the register a load leaves pending.\<close>

definition operands :: "mnemonic \<Rightarrow> u32 \<Rightarrow> nat set" where
  "operands i cir = {get_rs cir, get_rt cir} \<union> (if i = I_syscall then {2, 4, 5, 6, 7} else {})"

definition no_hazard :: "nat \<Rightarrow> mnemonic \<Rightarrow> u32 \<Rightarrow> bool" where
  "no_hazard p i cir \<longleftrightarrow> p = 0 \<or> p \<notin> operands i cir"

definition pending :: "mnemonic \<Rightarrow> u32 \<Rightarrow> nat" where
  "pending i cir = (if i \<in> loads then get_rt cir else MIPS_R_GARBAGE)"

text \<open>\<open>MIPS_R_GARBAGE\<close> is where a value goes that nothing waits for.\<close>

definition delay_refines :: "'h delayed \<Rightarrow> 'h machine \<Rightarrow> bool" where
  "delay_refines d s \<longleftrightarrow> put_reg MIPS_R_GARBAGE 0 (settle d) = put_reg MIPS_R_GARBAGE 0 s \<and>
     get_reg 0 (delayed d) = 0 \<and> get_reg 0 s = 0 \<and> (load_d d < 32 \<or> load_d d = MIPS_R_GARBAGE)"

lemma ITP_LOAD_DELAY_simps [simp]:
  "delayed (ITP_LOAD_DELAY True d) = settle d" "load_d (ITP_LOAD_DELAY True d) = MIPS_R_GARBAGE"
  "ITP_LOAD_DELAY False d = d"
  by (simp_all add: ITP_LOAD_DELAY_def settle_def Let_def)

lemma settle_keeps [simp]:
  "gmem (settle d) = gmem (delayed d)" "hstate (settle d) = hstate (delayed d)"
  "halted (cpu (settle d)) = halted (cpu (delayed d))" "status (cpu (settle d)) = status (cpu (delayed d))"
  by (simp_all add: settle_def set_reg_def)

lemma get_settle:
  "get_reg j (settle d) = (if j = 0 then 0 else if j = load_d d then load_v d else get_reg j (delayed d))"
  by (simp add: settle_def)

section \<open>The operands\<close>

lemma settle_operand:
  assumes "no_hazard (load_d d) i cir" "get_reg 0 (delayed d) = 0" "j \<in> operands i cir"
  shows "regs (cpu (settle d)) j = regs (cpu (delayed d)) j"
  using assms get_settle [of j d] by (auto simp: no_hazard_def get_reg_def split: if_splits)

lemma settle_fields:
  assumes "no_hazard (load_d d) i cir" "get_reg 0 (delayed d) = 0"
  shows "regs (cpu (settle d)) (get_rs cir) = regs (cpu (delayed d)) (get_rs cir)"
    and "regs (cpu (settle d)) (get_rt cir) = regs (cpu (delayed d)) (get_rt cir)"
    and "i = I_syscall \<Longrightarrow> j \<in> {2, 4, 5, 6, 7} \<Longrightarrow> regs (cpu (settle d)) j = regs (cpu (delayed d)) j"
  using settle_operand [OF assms, of "get_rs cir"] settle_operand [OF assms, of "get_rt cir"]
    settle_operand [OF assms, of j] by (auto simp: operands_def)

text \<open>An instruction that is no load executes as in the default build on the settled machine.\<close>

lemma with_delay_eq:
  "with_delay True f d = mapR (\<lambda>s. (ITP_LOAD_DELAY True d)\<lparr>delayed := s\<rparr>) (f (settle d))"
  by (simp add: with_delay_def no_delay_def mapR_def)

lemma no_load_delayed:
  assumes "i \<notin> loads" "i \<noteq> I_brk" "no_hazard (load_d d) i cir" "get_reg 0 (delayed d) = 0"
  shows "interpret_delay True os i cir d =
    mapR (\<lambda>s. (ITP_LOAD_DELAY True d)\<lparr>delayed := s\<rparr>) (interpret_instr os i cir (settle d))"
proof -
  note fs = settle_fields [OF assms(3,4)]
  show ?thesis
    by (cases i)
       (use assms(1,2) fs(3) in \<open>simp_all add: loads_def itp_type_defs Let_def with_delay_eq fs(1,2)\<close>)
qed

section \<open>Loads\<close>

text \<open>A load that sets \<open>load_d\<close>: the value is pending, and the settled machine is that of the
  default build.\<close>

lemma pending_settled:
  assumes "d' = (if load_d d \<noteq> rt then ITP_LOAD_DELAY True d else d)\<lparr>load_d := rt, load_v := v\<rparr>"
    and "get_reg 0 (delayed d) = 0"
  shows "settle d' = put_reg 0 0 (put_reg rt v (settle d)) \<and> get_reg 0 (delayed d') = 0 \<and> load_d d' = rt"
proof (cases "load_d d = rt")
  case True
  have "put_reg 0 0 (put_reg rt v (put_reg 0 0 (put_reg rt (load_v d) (delayed d)))) =
      put_reg 0 0 (put_reg rt v (delayed d))"
    by (simp add: put_reg_def upd_cpu_def set_reg_def fun_upd_twist fun_eq_iff)
  with True show ?thesis using assms by (simp add: settle_def)
next
  case False
  then have "delayed d' = settle d" "load_d d' = rt" "load_v d' = v" using assms(1) by simp_all
  then show ?thesis using get_settle [of 0 d] by (simp add: settle_def)
qed

lemma bind_load:
  "rel_sum (=) (\<lambda>d' s'. settle d' = put_reg 0 0 s' \<and> get_reg 0 (delayed d') = 0 \<and> load_d d' = rt)
     (bindR r (\<lambda>x. Inr ((if load_d d \<noteq> rt then ITP_LOAD_DELAY True d else d)\<lparr>load_d := rt, load_v := f x\<rparr>)))
     (bindR r (\<lambda>x. Inr (put_reg rt (f x) (settle d))))"
  if "get_reg 0 (delayed d) = 0"
  using that by (cases r) (simp_all add: pending_settled [OF refl] get_settle)

lemma load_delayed:
  assumes "i \<in> loads - {I_lwl, I_lwr}" "no_hazard (load_d d) i cir" "get_reg 0 (delayed d) = 0"
  shows "rel_sum (=) (\<lambda>d' s'. settle d' = put_reg 0 0 s' \<and> get_reg 0 (delayed d') = 0 \<and> load_d d' = get_rt cir)
    (interpret_delay True os i cir d) (interpret_instr os i cir (settle d))"
proof -
  note fs = settle_fields [OF assms(2,3)]
  have "ucast (x :: u8) AND (mask 8 :: u32) = ucast x" for x
    by (rule bit_word_eqI) (auto simp: bit_simps dest: bit_imp_le_length)
  then have ext: "ucast (x :: u8) AND (0xff :: u32) = ucast x" for x
    by (simp add: mask_eq_exp_minus_1)
  show ?thesis
    using assms(1) unfolding loads_def
    by (elim DiffE insertE)
      (simp_all add: itp_type_defs Let_def fs(1,2) ITP_LB_IMPL_def ITP_LH_IMPL_def ITP_LW_IMPL_def
        ITP_LBU_IMPL_def ITP_LHU_IMPL_def ITP_LL_IMPL_def ITP_LB_DELAY_def ITP_LH_DELAY_def
        ITP_LW_DELAY_def ITP_LBU_DELAY_def ITP_LHU_DELAY_def ITP_LL_DELAY_def ext
        bind_load [OF assms(3)] split del: if_split)
qed

section \<open>A step\<close>

text \<open>No instruction reads or writes \<open>MIPS_R_GARBAGE\<close>.\<close>

lemma interpret_garbage:
  "interpret_instr os i cir (put_reg 38 v s) = mapR (put_reg 38 v) (interpret_instr os i cir s)"
proof (cases "i \<in> jumps")
  case True
  then show ?thesis
    unfolding jumps_def by (elim insertE) (simp_all add: branch_defs set_reg_commute [of _ 38])
next
  case False
  then show ?thesis by (intro inert.straight_U [OF inert_put_reg]) simp_all
qed

text \<open>Two machines that differ in that register only execute alike.\<close>

lemma garbage_step:
  assumes "put_reg 38 0 s = put_reg 38 0 t"
  shows "rel_sum (=) (\<lambda>s' t'. put_reg 38 0 s' = put_reg 38 0 t') (interpret_instr os i cir s) (interpret_instr os i cir t)"
  using interpret_garbage [of os i cir 0 s] interpret_garbage [of os i cir 0 t] assms
  by (cases "interpret_instr os i cir s"; cases "interpret_instr os i cir t") simp_all

lemma settle_settled:
  "put_reg 38 0 (settle ((ITP_LOAD_DELAY True d)\<lparr>delayed := s\<rparr>)) = put_reg 38 0 (put_reg 0 0 s)"
  by (simp add: settle_def put_reg_def upd_cpu_def set_reg_def fun_eq_iff)

lemma zero_kept: "get_reg 0 s = 0 \<Longrightarrow> put_reg 0 0 s = s"
  by (metis put_reg_id)

lemma delay_step:
  assumes "delay_refines d s" "no_hazard (load_d d) i cir" "i \<noteq> I_lwl" "i \<noteq> I_lwr"
    and "\<And>s'. interpret_instr os i cir s = Inr s' \<Longrightarrow> get_reg 0 s' = 0"
  shows "rel_sum (=) (\<lambda>d' s'. delay_refines d' s' \<and> load_d d' = pending i cir)
    (interpret_delay True os i cir d) (interpret_instr os i cir s)"
proof -
  from assms(1) have eq: "put_reg 38 0 (settle d) = put_reg 38 0 s" and z: "get_reg 0 (delayed d) = 0"
    by (simp_all add: delay_refines_def)
  note st = garbage_step [OF eq, of os i cir]
  have zero: "get_reg 0 t = 0" if "put_reg 38 0 t = put_reg 38 0 s'" "interpret_instr os i cir s = Inr s'" for t s'
    using assms(5) [OF that(2)] arg_cong [OF that(1), of "get_reg 0"] by simp
  consider "i = I_brk" | "i \<in> loads - {I_lwl, I_lwr}" | "i \<notin> loads" "i \<noteq> I_brk" using assms(3,4) by blast
  then show ?thesis
  proof cases
    case 1
    then show ?thesis by (simp add: itp_type_defs no_delay_def impl_simps Let_def)
  next
    case 2
    from load_delayed [OF 2 assms(2) z, of os] st show ?thesis
      using 2 assms(5) zero reg_fields_less(2) [of cir]
      by (cases "interpret_delay True os i cir d"; cases "interpret_instr os i cir (settle d)";
          cases "interpret_instr os i cir s")
         (auto simp: delay_refines_def pending_def zero_kept)
  next
    case 3
    from no_load_delayed [OF 3 assms(2) z, of os] st show ?thesis
      using 3 assms(5) zero
      by (cases "interpret_instr os i cir (settle d)"; cases "interpret_instr os i cir s")
         (auto simp: delay_refines_def pending_def settle_settled zero_kept simp del: ITP_LOAD_DELAY_simps(1))
  qed
qed

section \<open>A run\<close>

text \<open>
  A run of the default build without a hazard: no instruction reads the register that the one
  before it loads, \<open>$zero\<close> stays 0 and the two loads that are not finished do not occur. The
  second argument is the register whose value is pending.
\<close>

fun hazard_free :: "'h os \<Rightarrow> nat \<Rightarrow> nat \<Rightarrow> 'h machine \<Rightarrow> bool" where
  "hazard_free os p 0 s = True"
| "hazard_free os p (Suc fuel) s =
     (halted (cpu s) \<or>
      (case bindR (fetch s) (\<lambda>cir. mapR (Pair cir) (switch_decode (get_reg MIPS_R_PC s) cir)) of
         Inl e \<Rightarrow> True
       | Inr (cir, i) \<Rightarrow> i \<noteq> I_lwl \<and> i \<noteq> I_lwr \<and> no_hazard p i cir \<and>
           (case interpret_instr os i cir s of
              Inl e \<Rightarrow> True
            | Inr s' \<Rightarrow> get_reg 0 s' = 0 \<and> hazard_free os (pending i cir) fuel (upd_cpu INCREMENT_PC s'))))"

lemma delay_refines_state:
  assumes "delay_refines d s"
  shows "gmem (delayed d) = gmem s" "hstate (delayed d) = hstate s"
    "halted (cpu (delayed d)) = halted (cpu s)" "status (cpu (delayed d)) = status (cpu s)"
    "get_reg 34 (delayed d) = get_reg 34 s"
proof -
  have eq: "put_reg 38 0 (settle d) = put_reg 38 0 s" and p: "load_d d < 32 \<or> load_d d = 38"
    using assms by (simp_all add: delay_refines_def)
  from arg_cong [OF eq, of gmem] show "gmem (delayed d) = gmem s" by simp
  from arg_cong [OF eq, of hstate] show "hstate (delayed d) = hstate s" by simp
  from arg_cong [OF eq, of "\<lambda>s. halted (cpu s)"] show "halted (cpu (delayed d)) = halted (cpu s)"
    by (simp add: set_reg_def)
  from arg_cong [OF eq, of "\<lambda>s. status (cpu s)"] show "status (cpu (delayed d)) = status (cpu s)"
    by (simp add: set_reg_def)
  from arg_cong [OF eq, of "get_reg 34"] p show "get_reg 34 (delayed d) = get_reg 34 s"
    by (auto simp: get_settle)
qed

lemma increment_put_reg:
  "j < 34 \<or> j = 38 \<Longrightarrow> upd_cpu INCREMENT_PC (put_reg j v s) = put_reg j v (upd_cpu INCREMENT_PC s)"
  by (auto simp: put_reg_def upd_cpu_def INCREMENT_PC_def Let_def set_reg_def fun_upd_twist)

lemma delay_refines_increment:
  assumes "delay_refines d s"
  shows "delay_refines (d\<lparr>delayed := upd_cpu INCREMENT_PC (delayed d)\<rparr>) (upd_cpu INCREMENT_PC s)"
proof -
  have p: "load_d d < 34 \<or> load_d d = 38" using assms by (auto simp: delay_refines_def)
  have "settle (d\<lparr>delayed := upd_cpu INCREMENT_PC (delayed d)\<rparr>) = upd_cpu INCREMENT_PC (settle d)"
    using p by (simp add: settle_def increment_put_reg)
  moreover have "get_reg 0 (upd_cpu INCREMENT_PC t) = get_reg 0 t" for t :: "'a machine"
    by (simp add: get_reg_def INCREMENT_PC_def Let_def)
  moreover have "put_reg 38 0 (upd_cpu INCREMENT_PC t) = upd_cpu INCREMENT_PC (put_reg 38 0 t)" for t :: "'a machine"
    by (simp add: increment_put_reg)
  ultimately show ?thesis using assms by (simp add: delay_refines_def)
qed

section \<open>A program with a load\<close>

text \<open>It loads the word behind its code into \<open>$a0\<close>, puts the number of \<open>exit\<close> into \<open>$v0\<close> in the
  delay slot and exits with the loaded status.\<close>

definition delay_code :: "u32 list" where
  "delay_code = [0x8c04000c, 0x24020fa1, 0x0000000c, 7]"

definition delay_machine :: "unit machine" where
  "delay_machine = put_reg MIPS_R_NPC 4 (put_reg MIPS_R_NNPC 8 (demo_machine (words_page delay_code)))"

lemma get_increment:
  "get_reg j (upd_cpu INCREMENT_PC s) =
    (if j = 34 then get_reg 35 s else if j = 35 then get_reg 36 s
     else if j = 36 then get_reg 36 s + 4 else get_reg j s)"
  by (simp add: get_reg_def INCREMENT_PC_def Let_def)

lemma delay_words:
  "memory_read_u32 (one_page (words_page delay_code)) 0 = Inr 0x8c04000c"
  "memory_read_u32 (one_page (words_page delay_code)) 4 = Inr 0x24020fa1"
  "memory_read_u32 (one_page (words_page delay_code)) 8 = Inr 0x0000000c"
  "memory_read_u32 (one_page (words_page delay_code)) 12 = Inr 7"
  using words_page_read [of 0 delay_code] words_page_read [of 1 delay_code]
    words_page_read [of 2 delay_code] words_page_read [of 3 delay_code] by (simp_all add: delay_code_def)

lemma delay_decode:
  "switch_decode pc 0x8c04000c = Inr I_lw" "switch_decode pc 0x24020fa1 = Inr I_addiu"
  "switch_decode pc 0x0000000c = Inr I_syscall"
  by (simp_all add: switch_decode_def INSTRUCTIONS_PRIMARY_def INSTRUCTIONS_SECONDARY_def
      opcode_consts field_def field_consts)

lemma delay_fields:
  "get_rs 0x8c04000c = 0" "get_rt 0x8c04000c = 4" "get_imm16 0x8c04000c = 12"
  "get_rs 0x24020fa1 = 0" "get_rt 0x24020fa1 = 2" "get_imm16 0x24020fa1 = 4001"
  by (simp_all add: get_rs_def get_rt_def get_imm16_def reg_field_def field_def field_consts)

lemma delay_machine_simps [simp]:
  "get_reg j delay_machine = (if j = 35 then 4 else if j = 36 then 8 else 0)"
  "gmem delay_machine = one_page (words_page delay_code)" "\<not> halted (cpu delay_machine)"
  by (simp_all add: delay_machine_def set_reg_def)

definition delay_first :: "unit machine" where
  "delay_first = upd_cpu INCREMENT_PC (put_reg 4 7 delay_machine)"

definition delay_second :: "unit machine" where
  "delay_second = upd_cpu INCREMENT_PC (put_reg 2 4001 delay_first)"

lemma delay_states [simp]:
  "get_reg j delay_first = (if j = 34 then 4 else if j = 35 then 8 else if j = 36 then 12
     else if j = 4 then 7 else 0)"
  "get_reg j delay_second = (if j = 34 then 8 else if j = 35 then 12 else if j = 36 then 16
     else if j = 4 then 7 else if j = 2 then 4001 else 0)"
  "gmem delay_first = one_page (words_page delay_code)" "gmem delay_second = one_page (words_page delay_code)"
  "\<not> halted (cpu delay_first)" "\<not> halted (cpu delay_second)"
  by (simp_all add: delay_first_def delay_second_def get_increment set_reg_def INCREMENT_PC_def Let_def)

lemma delay_interpret:
  "interpret_instr demo_os I_lw 0x8c04000c delay_machine = Inr (put_reg 4 7 delay_machine)"
  "interpret_instr demo_os I_addiu 0x24020fa1 delay_first = Inr (put_reg 2 4001 delay_first)"
  "interpret_instr demo_os I_syscall 0x0000000c delay_second = mips_syscall_exit delay_second 7"
  by (simp_all add: itp_type_defs delay_fields on_cpu_simps write_impls ITP_LW_IMPL_def Let_def
      get_reg_def [symmetric] LOAD_COMPUTE_ADDRESS_def delay_words ITP_SYSCALL_IMPL_def NR_exit_def)

lemma delay_exit:
  "\<exists>s'. mips_syscall_exit delay_second 7 = Inr s' \<and> get_reg 0 s' = 0 \<and> halted (cpu s') \<and> status (cpu s') = 7"
  using delay_states(2) [of 0] by (simp add: mips_syscall_exit_def upd_cpu_def get_reg_def)

lemma delay_fetch:
  "fetch delay_machine = Inr 0x8c04000c" "fetch delay_first = Inr 0x24020fa1"
  "fetch delay_second = Inr 0x0000000c"
  by (simp_all add: fetch_def delay_words)

lemma delay_hazard_free: "hazard_free demo_os 0 3 delay_machine"
proof -
  have "no_hazard 0 I_lw 0x8c04000c" "no_hazard 4 I_addiu 0x24020fa1" "no_hazard 38 I_syscall 0x0000000c"
    by (simp_all add: no_hazard_def operands_def delay_fields)
  moreover have "pending I_lw 0x8c04000c = 4" "pending I_addiu 0x24020fa1 = 38"
    by (simp_all add: pending_def loads_def delay_fields)
  ultimately show ?thesis
    using delay_exit
    by (auto simp: numeral_3_eq_3 delay_fetch delay_decode delay_interpret
        simp flip: delay_first_def delay_second_def simp del: interpret_instr.simps)
qed

lemma delay_switch: "\<exists>s'. interpreter_switch demo_os 3 delay_machine = Some (Inr s') \<and> status (cpu s') = 7"
proof -
  obtain s' where s': "mips_syscall_exit delay_second 7 = Inr s'" "halted (cpu s')" "status (cpu s') = 7"
    using delay_exit by blast
  have "switch_body demo_os delay_machine = Inr delay_first" "switch_body demo_os delay_first = Inr delay_second"
    "switch_body demo_os delay_second = Inr (upd_cpu INCREMENT_PC s')"
    by (simp_all add: switch_body_def delay_fetch delay_decode delay_interpret s'(1)
        flip: delay_first_def delay_second_def del: interpret_instr.simps)
  then show ?thesis using s'(2,3) by (simp add: numeral_3_eq_3 INCREMENT_PC_def Let_def set_reg_def)
qed

section \<open>Properties\<close>

lemma delay_run:
  assumes "delay_refines d s" "hazard_free os (load_d d) fuel s"
  shows "rel_option (rel_sum (=) delay_refines)
    (interpreter_switch_delay True os fuel d) (interpreter_switch os fuel s)"
  using assms
proof (induction fuel arbitrary: d s)
  case 0
  then show ?case by (simp add: delay_refines_state(3))
next
  case (Suc fuel)
  note st = delay_refines_state [OF Suc.prems(1)]
  show ?case
  proof (cases "halted (cpu s)")
    case True
    with Suc.prems(1) show ?thesis by (simp add: st(3))
  next
    case False
    let ?r = "bindR (fetch s) (\<lambda>cir. mapR (Pair cir) (switch_decode (get_reg MIPS_R_PC s) cir))"
    have fetch: "fetch (delayed d) = fetch s" using st(1,5) by (simp add: fetch_def)
    have bodies:
      "switch_body_delay True os d = bindR ?r (\<lambda>(cir, i). bindR (interpret_delay True os i cir d)
         (\<lambda>d. Inr (d\<lparr>delayed := upd_cpu INCREMENT_PC (delayed d)\<rparr>)))"
      "switch_body os s = bindR ?r (\<lambda>(cir, i). bindR (interpret_instr os i cir s)
         (\<lambda>s. Inr (upd_cpu INCREMENT_PC s)))"
      using st(5) by (simp_all add: switch_body_delay_def switch_body_def fetch bindR_assoc bindR_mapR)
    show ?thesis
    proof (cases ?r)
      case (Inl e)
      with False show ?thesis by (simp add: st(3) bodies)
    next
      case (Inr ci)
      obtain cir i where ci: "ci = (cir, i)" by (cases ci)
      have hz: "i \<noteq> I_lwl" "i \<noteq> I_lwr" "no_hazard (load_d d) i cir"
        "\<And>s'. interpret_instr os i cir s = Inr s' \<Longrightarrow> get_reg 0 s' = 0 \<and>
          hazard_free os (pending i cir) fuel (upd_cpu INCREMENT_PC s')"
        using Suc.prems(2) False Inr ci by auto
      have "rel_sum (=) (\<lambda>d' s'. delay_refines d' s' \<and> load_d d' = pending i cir)
          (interpret_delay True os i cir d) (interpret_instr os i cir s)"
        by (rule delay_step [OF Suc.prems(1) hz(3,1,2)]) (use hz(4) in blast)
      then show ?thesis
      proof (cases rule: rel_sum.cases)
        case (1 e f)
        with False Inr ci show ?thesis by (simp add: st(3) bodies)
      next
        case (2 d' s')
        from 2 have "delay_refines (d'\<lparr>delayed := upd_cpu INCREMENT_PC (delayed d')\<rparr>) (upd_cpu INCREMENT_PC s')"
          by (simp add: delay_refines_increment)
        from Suc.IH [OF this] 2 hz(4) False Inr ci show ?thesis by (simp add: st(3) bodies)
      qed
    qed
  qed
qed

text \<open>A machine as the loader leaves it, \<open>load_d\<close> and \<open>load_v\<close> cleared by the initialiser.\<close>

definition delay_start :: "'h machine \<Rightarrow> 'h delayed" where
  "delay_start s = \<lparr>delayed = s, load_d = 0, load_v = 0\<rparr>"

lemma delay_refines_start: "get_reg 0 s = 0 \<Longrightarrow> delay_refines (delay_start s) s"
  by (simp add: delay_refines_def delay_start_def settle_def zero_kept)



text \<open>C22: with \<open>LOAD_DELAY_ENABLE\<close> alone a load changes nothing but \<open>load_d\<close> and \<open>load_v\<close>, and
  every other instruction executes as in the default build without looking at them: no loaded
  value ever reaches a register.\<close>

theorem load_delay_disconnected:
  assumes "interpret_delay False os i cir d = Inr d'"
  shows "(if i \<in> loads then delayed d' = delayed d
    else interpret_instr os i cir (delayed d) = Inr (delayed d') \<and> load_d d' = load_d d \<and> load_v d' = load_v d)"
  using assms
  by (cases i)
     (auto simp: loads_def itp_type_defs Let_def with_delay_def no_delay_def ITP_LB_DELAY_def
        ITP_LH_DELAY_def ITP_LW_DELAY_def ITP_LBU_DELAY_def ITP_LHU_DELAY_def ITP_LWL_DELAY_def
        ITP_LWR_DELAY_def ITP_LL_DELAY_def elim!: bindR_InrE)

lemma load_delay_disconnected_witness:
  "\<exists>d'. interpret_delay False demo_os I_lw 0x8c04000c (delay_start delay_machine) = Inr d' \<and>
     get_reg 4 (delayed d') = 0"
proof -
  obtain d' where d': "interpret_delay False demo_os I_lw 0x8c04000c (delay_start delay_machine) = Inr d'"
    by (simp add: delay_start_def itp_type_defs delay_fields ITP_LW_DELAY_def Let_def LOAD_COMPUTE_ADDRESS_def
        delay_words get_reg_def [symmetric])
  from load_delay_disconnected [OF d'] d' show ?thesis by (simp add: loads_def delay_start_def)
qed

end
