(* ===== verification/Hash_Functions.thy ===== *)
theory Hash_Functions
  imports Hash_Table_Ok Frame
begin

text \<open>
  What \<open>src/uthash.h\<close> offers in place of the default hash function, and the Bloom filter of a
  build with \<open>HASH_BLOOM\<close>: a bit vector in which every hash value that was added sets a bit, so
  that a key whose bit is clear need not be searched. A key is the list of its bytes.
\<close>

section \<open>The other hash functions\<close>

definition ber_step :: "u32 \<Rightarrow> u8 \<Rightarrow> u32" where
  "ber_step h b = (push_bit 5 h + h) + ucast b"

definition HASH_BER :: "u8 list \<Rightarrow> u32" where
  "HASH_BER key = foldl ber_step 0 key"

definition sax_step :: "u32 \<Rightarrow> u8 \<Rightarrow> u32" where
  "sax_step h b = h XOR (push_bit 5 h + drop_bit 2 h + ucast b)"

definition HASH_SAX :: "u8 list \<Rightarrow> u32" where
  "HASH_SAX key = foldl sax_step 0 key"

definition fnv_step :: "u32 \<Rightarrow> u8 \<Rightarrow> u32" where
  "fnv_step h b = (h XOR ucast b) * 16777619"

definition HASH_FNV :: "u8 list \<Rightarrow> u32" where
  "HASH_FNV key = foldl fnv_step 2166136261 key"

definition oat_step :: "u32 \<Rightarrow> u8 \<Rightarrow> u32" where
  "oat_step h b =
     (let h = h + ucast b; h = h + push_bit 10 h in h XOR drop_bit 6 h)"

definition HASH_OAT :: "u8 list \<Rightarrow> u32" where
  "HASH_OAT key =
     (let h = foldl oat_step 0 key;
          h = h + push_bit 3 h; h = h XOR drop_bit 11 h
      in h + push_bit 15 h)"

definition get16bits :: "u8 list \<Rightarrow> nat \<Rightarrow> u32" where
  "get16bits key i = push_bit 8 (ucast (key ! (i + 1))) + ucast (key ! i)"

text \<open>Four bytes a turn; the result is the hash value and the bytes that are left.\<close>

fun sfh_loop :: "u32 \<Rightarrow> u8 list \<Rightarrow> u32 \<times> u8 list" where
  "sfh_loop h (b0 # b1 # b2 # b3 # key) =
     (let h = h + get16bits [b0, b1, b2, b3] 0;
          tmp = push_bit 11 (get16bits [b0, b1, b2, b3] 2) XOR h;
          h = push_bit 16 h XOR tmp
      in sfh_loop (h + drop_bit 11 h) key)"
| "sfh_loop h key = (h, key)"

definition sfh_tail :: "u32 \<Rightarrow> u8 list \<Rightarrow> u32" where
  "sfh_tail h key =
     (if length key = 3 then
        let h = h + get16bits key 0; h = h XOR push_bit 16 h;
            h = h XOR push_bit 18 (ucast (key ! 2))
        in h + drop_bit 11 h
      else if length key = 2 then
        let h = h + get16bits key 0; h = h XOR push_bit 11 h in h + drop_bit 17 h
      else if length key = 1 then
        let h = h + ucast (key ! 0); h = h XOR push_bit 10 h in h + drop_bit 1 h
      else h)"

definition HASH_SFH :: "u8 list \<Rightarrow> u32" where
  "HASH_SFH key =
     (let (h, rest) = sfh_loop 0xcafebabe key;
          h = sfh_tail h rest;
          h = h XOR push_bit 3 h; h = h + drop_bit 5 h;
          h = h XOR push_bit 4 h; h = h + drop_bit 17 h;
          h = h XOR push_bit 25 h
      in h + drop_bit 6 h)"

text \<open>The step of Bernstein's function is, as the comment says, a multiplication by 33: the hash
  value is the value of the key as a polynomial.\<close>

lemma HASH_BER_poly: "HASH_BER key = (\<Sum>i < length key. 33 ^ (length key - Suc i) * ucast (key ! i))"
proof (induction key rule: rev_induct)
  case (snoc b key)
  let ?n = "length key"
  have step: "ber_step h b = 33 * h + ucast b" for h
    by (simp add: ber_step_def push_bit_eq_mult algebra_simps)
  have "(\<Sum>i < ?n. 33 ^ (?n - i) * ucast ((key @ [b]) ! i)) =
      (\<Sum>i < ?n. 33 * (33 ^ (?n - Suc i) * ucast (key ! i)) :: u32)"
    by (rule sum.cong) (simp_all add: nth_append Suc_diff_Suc flip: power_Suc mult.assoc)
  with snoc show ?case by (simp add: HASH_BER_def step nth_append sum_distrib_left)
qed (simp add: HASH_BER_def)

section \<open>The Bloom filter\<close>

definition HASH_BLOOM_BITLEN :: "nat \<Rightarrow> nat" where
  "HASH_BLOOM_BITLEN nbits = 2 ^ nbits"

definition HASH_BLOOM_BYTELEN :: "nat \<Rightarrow> nat" where
  "HASH_BLOOM_BYTELEN nbits =
     HASH_BLOOM_BITLEN nbits div 8 + (if HASH_BLOOM_BITLEN nbits mod 8 \<noteq> 0 then 1 else 0)"

definition HASH_BLOOM_MAKE :: "'h os \<Rightarrow> nat \<Rightarrow> u8 list result" where
  "HASH_BLOOM_MAKE os nbits =
     (if os_malloc os (HASH_BLOOM_BYTELEN nbits) then Inr (replicate (HASH_BLOOM_BYTELEN nbits) 0)
      else Inl OutOfMemory)"

definition HASH_BLOOM_BITSET :: "u8 list \<Rightarrow> u32 \<Rightarrow> u8 list result" where
  "HASH_BLOOM_BITSET bv idx =
     (let i = unat (idx div 8)
      in if i < length bv then Inr (bv[i := bv ! i OR push_bit (unat (idx mod 8)) 1]) else Inl HostOverrun)"

definition HASH_BLOOM_BITTEST :: "u8 list \<Rightarrow> u32 \<Rightarrow> bool result" where
  "HASH_BLOOM_BITTEST bv idx =
     (let i = unat (idx div 8)
      in if i < length bv then Inr (bv ! i AND push_bit (unat (idx mod 8)) 1 \<noteq> 0) else Inl HostOverrun)"

definition bloom_index :: "nat \<Rightarrow> u32 \<Rightarrow> u32" where
  "bloom_index nbits hashv = hashv AND ucast (push_bit nbits (1 :: u64) - 1)"

definition HASH_BLOOM_ADD :: "nat \<Rightarrow> u8 list \<Rightarrow> u32 \<Rightarrow> u8 list result" where
  "HASH_BLOOM_ADD nbits bv hashv = HASH_BLOOM_BITSET bv (bloom_index nbits hashv)"

definition HASH_BLOOM_TEST :: "nat \<Rightarrow> u8 list \<Rightarrow> u32 \<Rightarrow> bool result" where
  "HASH_BLOOM_TEST nbits bv hashv = HASH_BLOOM_BITTEST bv (bloom_index nbits hashv)"

definition HASH_FIND_bloom :: "nat \<Rightarrow> u8 list \<Rightarrow> 'a hash \<Rightarrow> u8 list \<Rightarrow> 'a option result" where
  "HASH_FIND_bloom nbits bv h key =
     (case h of
        None \<Rightarrow> Inr None
      | Some t \<Rightarrow>
          let hashv = HASH_JEN key
          in bindR (HASH_BLOOM_TEST nbits bv hashv) (\<lambda>hit.
             if hit then
               bindR (bucket_at (hash_buckets t) (HASH_TO_BKT hashv (num_buckets t))) (\<lambda>b.
                 Inr (HASH_FIND_IN_BKT b key hashv))
             else Inr None))"

text \<open>The filter as the set of the bits that are set.\<close>

lemma bloom_index_eq: "nbits \<le> 32 \<Longrightarrow> bloom_index nbits v = take_bit nbits v"
proof -
  assume n: "nbits \<le> 32"
  have "push_bit nbits (1 :: u64) - 1 = mask nbits" by (simp add: mask_eq_exp_minus_1 push_bit_eq_mult)
  moreover have "ucast (mask nbits :: u64) = (mask nbits :: u32)"
    using n by (auto intro!: bit_word_eqI simp: bit_simps)
  ultimately show ?thesis by (simp add: bloom_index_def take_bit_eq_mask)
qed

lemma bloom_byte:
  assumes "nbits \<le> 32"
  shows "unat (bloom_index nbits v div 8) < HASH_BLOOM_BYTELEN nbits"
    and "unat (bloom_index nbits v mod 8) < 8"
    and "bloom_index nbits v div 8 = bloom_index nbits w div 8 \<Longrightarrow>
      bloom_index nbits v mod 8 = bloom_index nbits w mod 8 \<Longrightarrow> bloom_index nbits v = bloom_index nbits w"
proof -
  have "unat (bloom_index nbits v) < 2 ^ nbits"
    using assms by (simp add: bloom_index_eq unsigned_take_bit_eq)
  moreover have "2 ^ nbits div 8 * 8 + 2 ^ nbits mod 8 = (2 ^ nbits :: nat)" by simp
  ultimately have "unat (bloom_index nbits v) div 8 < HASH_BLOOM_BYTELEN nbits"
    unfolding HASH_BLOOM_BYTELEN_def HASH_BLOOM_BITLEN_def by (auto simp: div_less_iff_less_mult)
  then show "unat (bloom_index nbits v div 8) < HASH_BLOOM_BYTELEN nbits" by (simp add: unat_div_distrib)
  show "unat (bloom_index nbits v mod 8) < 8" by (simp add: unat_mod_distrib)
  show "bloom_index nbits v = bloom_index nbits w"
    if "bloom_index nbits v div 8 = bloom_index nbits w div 8" "bloom_index nbits v mod 8 = bloom_index nbits w mod 8"
    using that by (metis div_mult_mod_eq)
qed

lemma bloom_test:
  assumes "nbits \<le> 32" "length bv = HASH_BLOOM_BYTELEN nbits"
  shows "HASH_BLOOM_TEST nbits bv v =
    Inr (bit (bv ! unat (bloom_index nbits v div 8)) (unat (bloom_index nbits v mod 8)))"
  using bloom_byte(1) [OF assms(1), of v] assms(2)
  by (simp add: HASH_BLOOM_TEST_def HASH_BLOOM_BITTEST_def Let_def push_bit_eq_mult and_exp_eq_0_iff_not_bit)

lemma bloom_add:
  assumes "nbits \<le> 32" "length bv = HASH_BLOOM_BYTELEN nbits"
  shows "\<exists>bv'. HASH_BLOOM_ADD nbits bv v = Inr bv' \<and> length bv' = length bv \<and>
    (\<forall>w. HASH_BLOOM_TEST nbits bv' w =
      mapR (\<lambda>old. old \<or> bloom_index nbits w = bloom_index nbits v) (HASH_BLOOM_TEST nbits bv w))"
proof -
  let ?i = "\<lambda>w. unat (bloom_index nbits w div 8)" and ?k = "\<lambda>w. unat (bloom_index nbits w mod 8)"
  let ?bv = "bv[?i v := bv ! ?i v OR push_bit (?k v) 1]"
  have add: "HASH_BLOOM_ADD nbits bv v = Inr ?bv" "length ?bv = length bv"
    using bloom_byte(1) [OF assms(1), of v] assms(2)
    by (simp_all add: HASH_BLOOM_ADD_def HASH_BLOOM_BITSET_def Let_def)
  have "bit (?bv ! ?i w) (?k w) \<longleftrightarrow> bit (bv ! ?i w) (?k w) \<or> bloom_index nbits w = bloom_index nbits v" for w
  proof (cases "?i w = ?i v")
    case True
    then have i: "bloom_index nbits w div 8 = bloom_index nbits v div 8"
      by (simp only: word_unat_eq_iff)
    have "?k w = ?k v \<longleftrightarrow> bloom_index nbits w = bloom_index nbits v"
      using bloom_byte(3) [OF assms(1) i] by (metis word_unat_eq_iff)
    then show ?thesis
      using True bloom_byte(1,2) [OF assms(1), of w] assms(2)
      by (auto simp: bit_simps)
  qed auto
  then show ?thesis
    using add bloom_test [OF assms(1)] assms(2) by (intro exI [of _ ?bv]) simp
qed

text \<open>No false negatives: while every element's hash value has been added, a lookup that the filter
  turns away would have found nothing.\<close>

lemma find_bloom:
  assumes "hash_ok h" "nbits \<le> 32" "length bv = HASH_BLOOM_BYTELEN nbits"
    and "\<forall>x \<in> set (hash_order h). HASH_BLOOM_TEST nbits bv (hh_hashv x) = Inr True"
  shows "HASH_FIND_bloom nbits bv h key = HASH_FIND h key"
proof (cases h)
  case (Some t)
  let ?r = "HASH_BLOOM_TEST nbits bv (HASH_JEN key)"
  obtain hit where hit: "?r = Inr hit" using bloom_test [OF assms(2,3)] by blast
  show ?thesis
  proof (cases hit)
    case False
    have "hash_map h key = None"
    proof (rule ccontr)
      assume "hash_map h key \<noteq> None"
      then obtain x where x: "x \<in> set (hash_order h)" "hh_key x = key"
        by (auto simp: hash_map_def map_of_eq_None_iff)
      have "table_ok t" using assms(1) Some by (simp add: hash_ok_def)
      then have "handle_ok x"
        using x(1) Some table_handles [of t] handles_ok(1) by (auto simp: hash_order_def)
      with x assms(4) hit False show False by (auto simp: handle_ok_def)
    qed
    then show ?thesis
      using HASH_FIND_ok [OF assms(1), of key] hit False Some by (simp add: HASH_FIND_bloom_def)
  qed (simp add: HASH_FIND_bloom_def HASH_FIND_def Some hit Let_def)
qed (simp add: HASH_FIND_bloom_def HASH_FIND_def)

end
