(* ===== verification/Hash_More.thy ===== *)
theory Hash_More
  imports Hash_Table Frame
begin

text \<open>
  The operations of \<open>src/uthash.h\<close> that the block-caching interpreter does not use: ordered
  insertion, replacement, selection into another table, clearing and the sizes, the convenience
  forms, the emission of keys, and the insertion of a build in which a failed allocation is not fatal. A comparison
  takes elements and its sign counts. As in \<open>Hash_Table\<close> the order of the elements is that of
  the list from the head on; \<open>HASH_SELECT\<close>, which leaves \<open>tail\<close> behind, says what it is.
\<close>

section \<open>Ordered insertion\<close>

definition HASH_ADD_TO_TABLE ::
  "'h os \<Rightarrow> u32 \<Rightarrow> 'a hash_handle \<Rightarrow> 'a hash_table \<Rightarrow> 'a hash_table result" where
  "HASH_ADD_TO_TABLE os hashv x t =
     (let t = t\<lparr>num_items := num_items t + 1\<rparr>
      in HASH_ADD_TO_BKT os (HASH_TO_BKT hashv (num_buckets t)) x t)"

text \<open>The loop that looks for the first element behind the new one; the new one goes before it.\<close>

fun HASH_AKBI_INNER_LOOP ::
  "('a \<Rightarrow> 'a \<Rightarrow> int) \<Rightarrow> 'a hash_handle \<Rightarrow> 'a hash_handle list \<Rightarrow> 'a hash_handle list" where
  "HASH_AKBI_INNER_LOOP cmp x [] = [x]"
| "HASH_AKBI_INNER_LOOP cmp x (y # ys) =
     (if cmp (hh_elt y) (hh_elt x) > 0 then x # y # ys else y # HASH_AKBI_INNER_LOOP cmp x ys)"

definition HASH_ADD_INORDER ::
  "'h os \<Rightarrow> ('a \<Rightarrow> 'a \<Rightarrow> int) \<Rightarrow> 'a hash \<Rightarrow> u8 list \<Rightarrow> 'a \<Rightarrow> 'a hash result" where
  "HASH_ADD_INORDER os cmp h key p =
     (let hashv = HASH_JEN key;
          x = \<lparr>hh_elt = p, hh_key = key, hh_keylen = of_nat (length key), hh_hashv = hashv\<rparr>
      in bindR (case h of
                  None \<Rightarrow> HASH_MAKE_TABLE os x
                | Some t \<Rightarrow> Inr (t\<lparr>app_order := HASH_AKBI_INNER_LOOP cmp x (app_order t)\<rparr>)) (\<lambda>t.
         bindR (HASH_ADD_TO_TABLE os hashv x t) (\<lambda>t. Inr (Some t))))"

section \<open>Replacement\<close>

text \<open>The handle in an element.\<close>

definition handle_of :: "'a hash \<Rightarrow> 'a \<Rightarrow> 'a hash_handle option" where
  "handle_of h p = (case h of None \<Rightarrow> None | Some t \<Rightarrow> find (\<lambda>x. hh_elt x = p) (app_order t))"

definition delete_found :: "'a hash \<Rightarrow> 'a option \<Rightarrow> 'a hash result" where
  "delete_found h replaced =
     (case replaced of
        None \<Rightarrow> Inr h
      | Some p \<Rightarrow> (case handle_of h p of None \<Rightarrow> Inl SegFault | Some x \<Rightarrow> HASH_DELETE h x))"

definition HASH_REPLACE ::
  "'h os \<Rightarrow> 'a hash \<Rightarrow> u8 list \<Rightarrow> 'a \<Rightarrow> ('a option \<times> 'a hash) result" where
  "HASH_REPLACE os h key p =
     bindR (HASH_FIND h key) (\<lambda>replaced.
     bindR (delete_found h replaced) (\<lambda>h.
     bindR (HASH_ADD os h key p) (\<lambda>h. Inr (replaced, h))))"

definition HASH_REPLACE_INORDER ::
  "'h os \<Rightarrow> ('a \<Rightarrow> 'a \<Rightarrow> int) \<Rightarrow> 'a hash \<Rightarrow> u8 list \<Rightarrow> 'a \<Rightarrow> ('a option \<times> 'a hash) result" where
  "HASH_REPLACE_INORDER os cmp h key p =
     bindR (HASH_FIND h key) (\<lambda>replaced.
     bindR (delete_found h replaced) (\<lambda>h.
     bindR (HASH_ADD_INORDER os cmp h key p) (\<lambda>h. Inr (replaced, h))))"

section \<open>Convenience forms\<close>

text \<open>A string key is the bytes before the first NUL, an \<open>int\<close> and a pointer key the bytes of the
  field on a little-endian host.\<close>

definition str_key :: "u8 list \<Rightarrow> u8 list" where
  "str_key s = takeWhile (\<lambda>b. b \<noteq> 0) s"

definition HASH_FIND_STR :: "'a hash \<Rightarrow> u8 list \<Rightarrow> 'a option result" where
  "HASH_FIND_STR h findstr = HASH_FIND h (str_key findstr)"

definition HASH_ADD_STR :: "'h os \<Rightarrow> 'a hash \<Rightarrow> u8 list \<Rightarrow> 'a \<Rightarrow> 'a hash result" where
  "HASH_ADD_STR os h strfield p = HASH_ADD os h (str_key strfield) p"

definition HASH_REPLACE_STR :: "'h os \<Rightarrow> 'a hash \<Rightarrow> u8 list \<Rightarrow> 'a \<Rightarrow> ('a option \<times> 'a hash) result" where
  "HASH_REPLACE_STR os h strfield p = HASH_REPLACE os h (str_key strfield) p"

definition HASH_FIND_INT :: "'a hash \<Rightarrow> u32 \<Rightarrow> 'a option result" where
  "HASH_FIND_INT h findint = HASH_FIND h (bytes_le 4 findint)"

definition HASH_ADD_INT :: "'h os \<Rightarrow> 'a hash \<Rightarrow> u32 \<Rightarrow> 'a \<Rightarrow> 'a hash result" where
  "HASH_ADD_INT os h intfield p = HASH_ADD os h (bytes_le 4 intfield) p"

definition HASH_REPLACE_INT :: "'h os \<Rightarrow> 'a hash \<Rightarrow> u32 \<Rightarrow> 'a \<Rightarrow> ('a option \<times> 'a hash) result" where
  "HASH_REPLACE_INT os h intfield p = HASH_REPLACE os h (bytes_le 4 intfield) p"

definition HASH_FIND_PTR :: "'a hash \<Rightarrow> u64 \<Rightarrow> 'a option result" where
  "HASH_FIND_PTR h findptr = HASH_FIND h (bytes_le 8 findptr)"

definition HASH_ADD_PTR :: "'h os \<Rightarrow> 'a hash \<Rightarrow> u64 \<Rightarrow> 'a \<Rightarrow> 'a hash result" where
  "HASH_ADD_PTR os h ptrfield p = HASH_ADD os h (bytes_le 8 ptrfield) p"

definition HASH_REPLACE_PTR :: "'h os \<Rightarrow> 'a hash \<Rightarrow> u64 \<Rightarrow> 'a \<Rightarrow> ('a option \<times> 'a hash) result" where
  "HASH_REPLACE_PTR os h ptrfield p = HASH_REPLACE os h (bytes_le 8 ptrfield) p"

section \<open>Selection, clearing, sizes\<close>

text \<open>The destination, the \<open>tail\<close> of its table, and the element selected last. Its \<open>next\<close> is set
  to the new element, which extends the list when it is the last of it; \<open>tail\<close> is only set where
  the table is made.\<close>

record 'a selection =
  sel_dst :: "'a hash"
  sel_tail :: "'a option"
  sel_last :: "'a option"

definition select_link :: "'a option \<Rightarrow> 'a hash_handle \<Rightarrow> 'a hash_table \<Rightarrow> 'a hash_table" where
  "select_link last_elt x t =
     (if app_order t \<noteq> [] \<and> last_elt = Some (hh_elt (last (app_order t)))
      then t\<lparr>app_order := app_order t @ [x]\<rparr> else t)"

definition select_elt :: "'h os \<Rightarrow> 'a hash_handle \<Rightarrow> 'a selection \<Rightarrow> 'a selection result" where
  "select_elt os x s =
     bindR (case sel_dst s of
              None \<Rightarrow> bindR (HASH_MAKE_TABLE os x) (\<lambda>t. Inr (t, Some (hh_elt x)))
            | Some t \<Rightarrow> Inr (select_link (sel_last s) x t, sel_tail s)) (\<lambda>(t, tail).
     bindR (HASH_ADD_TO_BKT os (HASH_TO_BKT (hh_hashv x) (num_buckets t)) x t) (\<lambda>t.
     Inr \<lparr>sel_dst = Some (t\<lparr>num_items := num_items t + 1\<rparr>), sel_tail = tail, sel_last = Some (hh_elt x)\<rparr>))"

fun select_loop ::
  "'h os \<Rightarrow> ('a \<Rightarrow> bool) \<Rightarrow> 'a hash_handle list \<Rightarrow> 'a selection \<Rightarrow> 'a selection result" where
  "select_loop os cond [] s = Inr s"
| "select_loop os cond (x # xs) s =
     (if cond (hh_elt x) then bindR (select_elt os x s) (select_loop os cond xs)
      else select_loop os cond xs s)"

text \<open>The loop visits the source in the order of its buckets.\<close>

definition HASH_SELECT ::
  "'h os \<Rightarrow> ('a \<Rightarrow> bool) \<Rightarrow> 'a hash \<Rightarrow> 'a hash \<Rightarrow> 'a option \<Rightarrow> ('a hash \<times> 'a option) result" where
  "HASH_SELECT os cond src dst tail =
     (case src of
        None \<Rightarrow> Inr (dst, tail)
      | Some t \<Rightarrow>
          bindR (select_loop os cond (concat (map hh_chain (hash_buckets t)))
            \<lparr>sel_dst = dst, sel_tail = tail, sel_last = None\<rparr>) (\<lambda>s. Inr (sel_dst s, sel_tail s)))"

text \<open>The sizes of what is freed, and the head.\<close>

definition HASH_CLEAR :: "'a hash \<Rightarrow> nat list \<times> 'a hash" where
  "HASH_CLEAR h =
     (case h of None \<Rightarrow> ([], None) | Some t \<Rightarrow> ([unat (num_buckets t) * 16, 64], None))"

definition HASH_CNT :: "'a hash \<Rightarrow> u32" where
  "HASH_CNT h = (case h of None \<Rightarrow> 0 | Some t \<Rightarrow> num_items t)"

text \<open>The sizes of a handle, a bucket and a table on a 64-bit host.\<close>

definition HASH_OVERHEAD :: "'a hash \<Rightarrow> u64" where
  "HASH_OVERHEAD h =
     (case h of None \<Rightarrow> 0
      | Some t \<Rightarrow> ucast (num_items t) * 56 + ucast (num_buckets t) * 16 + 64)"

section \<open>Emission of keys\<close>

text \<open>With \<open>HASH_EMIT_KEYS\<close> an added key is written out behind its length, on a little-endian host;
  the bytes are those of the two calls of \<open>write\<close>.\<close>

definition HASH_EMIT_KEY :: "u8 list \<Rightarrow> u8 list" where
  "HASH_EMIT_KEY key = bytes_le 4 (of_nat (length key) :: u32) @ key"

text \<open>A reader of such a stream takes the keys off it again.\<close>

definition first_key :: "u8 list \<Rightarrow> u8 list \<times> u8 list" where
  "first_key bs = (let n = unat (word_le (take 4 bs) :: u32) in (take n (drop 4 bs), drop (4 + n) bs))"

lemma emitted_key_reads_back:
  assumes "length key < 2 ^ 32"
  shows "first_key (HASH_EMIT_KEY key @ rest) = (key, rest)"
proof -
  have "(word_le (bytes_le 4 (of_nat (length key) :: u32)) :: u32) = of_nat (length key)"
    by (rule word_le_bytes_le) simp_all
  moreover have "unat (of_nat (length key) :: u32) = length key"
    using assms by (simp add: unat_of_nat)
  ultimately show ?thesis by (simp add: first_key_def HASH_EMIT_KEY_def Let_def)
qed

section \<open>Insertion without fatal failures\<close>

text \<open>With \<open>HASH_NONFATAL_OOM\<close> a failed allocation is a flag: the bucket insertion and then the whole
  insertion are undone. The flag of the result says that the element was added.\<close>

definition HASH_ADD_TO_BKT_nonfatal ::
  "'h os \<Rightarrow> u32 \<Rightarrow> 'a hash_handle \<Rightarrow> 'a hash_table \<Rightarrow> ('a hash_table \<times> bool) result" where
  "HASH_ADD_TO_BKT_nonfatal os k x t =
     bindR (bucket_at (hash_buckets t) k) (\<lambda>b.
     let count = hb_count b + 1;
         b' = b\<lparr>hh_chain := x # hh_chain b, hb_count := count\<rparr>;
         t = t\<lparr>hash_buckets := (hash_buckets t)[unat k := b']\<rparr>
     in if count \<ge> (expand_mult b + 1) * HASH_BKT_CAPACITY_THRESH \<and> \<not> noexpand t
        then (case HASH_EXPAND_BUCKETS os t of
                Inr t \<Rightarrow> Inr (t, False)
              | Inl OutOfMemory \<Rightarrow>
                  Inr (t\<lparr>hash_buckets := (hash_buckets t)[unat k := HASH_DEL_IN_BKT x b']\<rparr>, True)
              | Inl e \<Rightarrow> Inl e)
        else Inr (t, False))"

definition HASH_ROLLBACK_BKT :: "'a hash_handle \<Rightarrow> 'a hash_table \<Rightarrow> 'a hash_table result" where
  "HASH_ROLLBACK_BKT x t =
     (let k = HASH_TO_BKT (hh_hashv x) (num_buckets t)
      in bindR (bucket_at (hash_buckets t) k) (\<lambda>b.
         Inr (t\<lparr>hash_buckets := (hash_buckets t)[unat k := b\<lparr>hb_count := hb_count b + 1\<rparr>]\<rparr>)))"

definition HASH_ADD_nonfatal ::
  "'h os \<Rightarrow> 'a hash \<Rightarrow> u8 list \<Rightarrow> 'a \<Rightarrow> ('a hash \<times> bool) result" where
  "HASH_ADD_nonfatal os h key p =
     (let hashv = HASH_JEN key;
          x = \<lparr>hh_elt = p, hh_key = key, hh_keylen = of_nat (length key), hh_hashv = hashv\<rparr>
      in case (case h of None \<Rightarrow> HASH_MAKE_TABLE os x | Some t \<Rightarrow> Inr (HASH_APPEND_LIST x t)) of
           Inl e \<Rightarrow> Inr (h, False)
         | Inr t \<Rightarrow>
             let t = t\<lparr>num_items := num_items t + 1\<rparr>
             in bindR (HASH_ADD_TO_BKT_nonfatal os (HASH_TO_BKT hashv (num_buckets t)) x t) (\<lambda>(t, oomed).
                if oomed then
                  bindR (HASH_ROLLBACK_BKT x t) (\<lambda>t.
                  bindR (HASH_DELETE (Some t) x) (\<lambda>h. Inr (h, False)))
                else Inr (Some t, True)))"

end
