(* ===== verification/Hash_Sort.thy ===== *)
theory Hash_Sort
  imports Hash_Table Frame
begin

text \<open>
  \<open>HASH_SRT\<close> of \<open>src/uthash.h\<close>, the bottom-up merge sort of the elements of a table in place. It
  relinks the list that its runs are being read from, so it is modelled on the links themselves:
  \<open>hl_next\<close> and \<open>hl_prev\<close> are the fields \<open>next\<close> and \<open>prev\<close> of the handle of every element, a
  pointer is an \<open>option\<close>, and following a null pointer is \<open>SegFault\<close>. A handle and its element
  stand for each other. The sizes are \<open>unsigned\<close>. The loops over the list need not end on
  arbitrary links: they are partial functions, \<open>None\<close> says that they do not return.
\<close>

section \<open>State\<close>

record 'a hash_links =
  hl_next :: "'a \<Rightarrow> 'a option"
  hl_prev :: "'a \<Rightarrow> 'a option"

record 'a srt = "'a hash_links" +
  srt_p :: "'a option"
  srt_q :: "'a option"
  srt_list :: "'a option"
  srt_tail :: "'a option"
  srt_psize :: u32
  srt_qsize :: u32
  srt_nmerges :: u32

definition deref :: "('a \<Rightarrow> 'b) \<Rightarrow> 'a option \<Rightarrow> 'b result" where
  "deref f p = (case p of None \<Rightarrow> Inl SegFault | Some a \<Rightarrow> Inr (f a))"

section \<open>One merge\<close>

text \<open>The \<open>for\<close> loop that counts the first run and finds the second; it runs \<open>insize\<close> times.\<close>

fun srt_skip :: "('a \<Rightarrow> 'a option) \<Rightarrow> nat \<Rightarrow> u32 \<Rightarrow> 'a option \<Rightarrow> (u32 \<times> 'a option) result" where
  "srt_skip nx 0 psize q = Inr (psize, q)"
| "srt_skip nx (Suc n) psize q =
     bindR (deref nx q) (\<lambda>q'. if q' = None then Inr (psize + 1, None) else srt_skip nx n (psize + 1) q')"

text \<open>The choice of the next element and the advance of its run.\<close>

definition srt_pick ::
  "('a \<Rightarrow> 'a \<Rightarrow> int) \<Rightarrow> 'a srt \<Rightarrow> ('a option \<times> 'a srt) result" where
  "srt_pick cmp s =
     (let take_p = Inr (srt_p s, s\<lparr>srt_p := (case srt_p s of None \<Rightarrow> None | Some a \<Rightarrow> hl_next s a),
            srt_psize := srt_psize s - 1\<rparr>);
          take_q = bindR (deref (hl_next s) (srt_q s)) (\<lambda>q'.
            Inr (srt_q s, s\<lparr>srt_q := q', srt_qsize := srt_qsize s - 1\<rparr>))
      in if srt_psize s = 0 then take_q
         else if srt_qsize s = 0 \<or> srt_q s = None then take_p
         else bindR (deref id (srt_p s)) (\<lambda>a. bindR (deref id (srt_q s)) (\<lambda>b.
           if cmp a b \<le> 0 then take_p else take_q)))"

definition srt_append :: "'a option \<Rightarrow> 'a srt \<Rightarrow> 'a srt" where
  "srt_append e s =
     (let s1 = (case srt_tail s of
                  Some t \<Rightarrow> s\<lparr>hl_next := (hl_next s)(t := e)\<rparr>
                | None \<Rightarrow> s\<lparr>srt_list := e\<rparr>);
          s2 = (case e of
                  Some a \<Rightarrow> s1\<lparr>hl_prev := (hl_prev s1)(a := srt_tail s1)\<rparr>
                | None \<Rightarrow> s1)
      in s2\<lparr>srt_tail := e\<rparr>)"

definition srt_more :: "'a srt \<Rightarrow> bool" where
  "srt_more s \<longleftrightarrow> srt_psize s \<noteq> 0 \<or> (srt_qsize s \<noteq> 0 \<and> srt_q s \<noteq> None)"

lemma srt_append_sizes [simp]:
  "srt_psize (srt_append e s) = srt_psize s" "srt_qsize (srt_append e s) = srt_qsize s"
  "srt_p (srt_append e s) = srt_p s" "srt_q (srt_append e s) = srt_q s"
  "srt_nmerges (srt_append e s) = srt_nmerges s" "srt_tail (srt_append e s) = e"
  by (simp_all add: srt_append_def Let_def split: option.split)

lemma srt_pick_sizes:
  assumes "srt_more s" "srt_pick cmp s = Inr (e, s')"
  shows "unat (srt_psize s') + unat (srt_qsize s') < unat (srt_psize s) + unat (srt_qsize s)"
  using assms
  by (auto simp: srt_pick_def srt_more_def Let_def unat_minus_one unat_gt_0 measure_unat
      split: if_splits elim!: bindR_InrE)

function srt_merge :: "('a \<Rightarrow> 'a \<Rightarrow> int) \<Rightarrow> 'a srt \<Rightarrow> 'a srt result" where
  "srt_merge cmp s =
     (if srt_more s then bindR (srt_pick cmp s) (\<lambda>(e, s'). srt_merge cmp (srt_append e s'))
      else Inr s)"
  by pat_completeness auto
termination
  by (relation "measure (\<lambda>(_, s). unat (srt_psize s) + unat (srt_qsize s))")
     (auto dest: srt_pick_sizes)

declare srt_merge.simps [simp del]

section \<open>The passes\<close>

partial_function (option) srt_pass ::
  "('a \<Rightarrow> 'a \<Rightarrow> int) \<Rightarrow> u32 \<Rightarrow> 'a srt \<Rightarrow> 'a srt result option" where
  "srt_pass cmp insize s =
     (if srt_p s = None then Some (Inr s)
      else case bindR (srt_skip (hl_next s) (unat insize) 0 (srt_p s)) (\<lambda>(psize, q).
             srt_merge cmp (s\<lparr>srt_nmerges := srt_nmerges s + 1, srt_q := q, srt_psize := psize,
               srt_qsize := insize\<rparr>)) of
             Inl e \<Rightarrow> Some (Inl e)
           | Inr s \<Rightarrow> srt_pass cmp insize (s\<lparr>srt_p := srt_q s\<rparr>))"

definition srt_finish :: "'a srt \<Rightarrow> 'a srt" where
  "srt_finish s = (case srt_tail s of None \<Rightarrow> s | Some t \<Rightarrow> s\<lparr>hl_next := (hl_next s)(t := None)\<rparr>)"

partial_function (option) srt_loop ::
  "('a \<Rightarrow> 'a \<Rightarrow> int) \<Rightarrow> u32 \<Rightarrow> 'a srt \<Rightarrow> 'a srt result option" where
  "srt_loop cmp insize s =
     (case srt_pass cmp insize (s\<lparr>srt_p := srt_list s, srt_list := None, srt_tail := None,
             srt_nmerges := 0\<rparr>) of
        None \<Rightarrow> None
      | Some (Inl e) \<Rightarrow> Some (Inl e)
      | Some (Inr s) \<Rightarrow>
          let s = srt_finish s
          in if srt_nmerges s \<le> 1 then Some (Inr s) else srt_loop cmp (insize * 2) s)"

text \<open>The new head, the new \<open>tail\<close> of the table, and the links.\<close>

definition HASH_SRT ::
  "('a \<Rightarrow> 'a \<Rightarrow> int) \<Rightarrow> 'a option \<Rightarrow> 'a option \<Rightarrow> 'a hash_links \<Rightarrow>
     ('a option \<times> 'a option \<times> 'a hash_links) result option" where
  "HASH_SRT cmp head tail L =
     (if head = None then Some (Inr (head, tail, L))
      else map_option (mapR (\<lambda>s. (srt_list s, srt_tail s, \<lparr>hl_next = hl_next s, hl_prev = hl_prev s\<rparr>)))
        (srt_loop cmp 1 (hash_links.extend L \<lparr>srt_p = None, srt_q = None, srt_list = head, srt_tail = None,
          srt_psize = 0, srt_qsize = 0, srt_nmerges = 0\<rparr>)))"

end
