(* ===== verification/Hash_Sort_Ok.thy ===== *)
theory Hash_Sort_Ok
  imports Hash_Sort "HOL-Library.Multiset"
begin

text \<open>
  The merge sort of \<open>Hash_Sort\<close> against a merge sort of lists: paths of links stand for lists, a
  pass over the links is a pass over the list, and the passes sort stably.
\<close>

section \<open>The sort of lists\<close>

fun merge_runs :: "('a \<Rightarrow> 'a \<Rightarrow> int) \<Rightarrow> 'a list \<Rightarrow> 'a list \<Rightarrow> 'a list" where
  "merge_runs cmp [] ys = ys"
| "merge_runs cmp (x # xs) [] = x # xs"
| "merge_runs cmp (x # xs) (y # ys) =
     (if cmp x y \<le> 0 then x # merge_runs cmp xs (y # ys) else y # merge_runs cmp (x # xs) ys)"

function merge_pass :: "('a \<Rightarrow> 'a \<Rightarrow> int) \<Rightarrow> nat \<Rightarrow> 'a list \<Rightarrow> 'a list" where
  "merge_pass cmp k xs =
     (if k = 0 \<or> xs = [] then xs
      else merge_runs cmp (take k xs) (take k (drop k xs)) @ merge_pass cmp k (drop k (drop k xs)))"
  by pat_completeness auto
termination by (relation "measure (\<lambda>(_, _, xs). length xs)") auto

declare merge_pass.simps [simp del]

lemma mset_merge_runs [simp]: "mset (merge_runs cmp xs ys) = mset xs + mset ys"
  by (induction cmp xs ys rule: merge_runs.induct) simp_all

lemma set_merge_runs [simp]: "set (merge_runs cmp xs ys) = set xs \<union> set ys"
  by (induction cmp xs ys rule: merge_runs.induct) auto

lemma length_merge_runs [simp]: "length (merge_runs cmp xs ys) = length xs + length ys"
  by (induction cmp xs ys rule: merge_runs.induct) simp_all

lemma merge_runs_Nil [simp]: "merge_runs cmp xs [] = xs"
  by (cases xs) simp_all

lemma two_runs: "xs = take k xs @ take k (drop k xs) @ drop k (drop k xs)"
  by (simp only: append_take_drop_id)

lemma mset_merge_pass [simp]: "mset (merge_pass cmp k xs) = mset xs"
proof (induction cmp k xs rule: merge_pass.induct)
  case (1 cmp k xs)
  have "mset (take k xs) + (mset (take k (drop k xs)) + mset (drop k (drop k xs))) = mset xs"
    using arg_cong [OF two_runs [of xs k], of mset] by (simp only: mset_append)
  with 1 show ?case by (subst merge_pass.simps) (simp add: add.assoc)
qed

text \<open>A comparison in the sense of \<open>qsort\<close>: its sign orders the elements.\<close>

definition compares :: "('a \<Rightarrow> 'a \<Rightarrow> int) \<Rightarrow> bool" where
  "compares cmp \<longleftrightarrow> (\<forall>x y. cmp x y \<le> 0 \<or> cmp y x \<le> 0) \<and>
     (\<forall>x y z. cmp x y \<le> 0 \<longrightarrow> cmp y z \<le> 0 \<longrightarrow> cmp x z \<le> 0)"

definition ordered :: "('a \<Rightarrow> 'a \<Rightarrow> int) \<Rightarrow> 'a list \<Rightarrow> bool" where
  "ordered cmp = sorted_wrt (\<lambda>x y. cmp x y \<le> 0)"

text \<open>The elements that compare equal to \<open>x\<close>, in their order.\<close>

definition class_of :: "('a \<Rightarrow> 'a \<Rightarrow> int) \<Rightarrow> 'a \<Rightarrow> 'a list \<Rightarrow> 'a list" where
  "class_of cmp x = filter (\<lambda>y. cmp x y \<le> 0 \<and> cmp y x \<le> 0)"

lemma compares_total: "compares cmp \<Longrightarrow> \<not> cmp x y \<le> 0 \<Longrightarrow> cmp y x \<le> 0"
  by (auto simp: compares_def)

lemma compares_trans: "compares cmp \<Longrightarrow> cmp x y \<le> 0 \<Longrightarrow> cmp y z \<le> 0 \<Longrightarrow> cmp x z \<le> 0"
  by (auto simp: compares_def)

lemma ordered_simps [simp]:
  "ordered cmp []" "ordered cmp (x # xs) \<longleftrightarrow> (\<forall>y \<in> set xs. cmp x y \<le> 0) \<and> ordered cmp xs"
  by (simp_all add: ordered_def)

lemma ordered_merge_runs:
  "compares cmp \<Longrightarrow> ordered cmp xs \<Longrightarrow> ordered cmp ys \<Longrightarrow> ordered cmp (merge_runs cmp xs ys)"
  by (induction cmp xs ys rule: merge_runs.induct)
     (auto dest: compares_total compares_trans)

lemma class_of_merge_runs:
  assumes "compares cmp" "ordered cmp xs"
  shows "class_of cmp z (merge_runs cmp xs ys) = class_of cmp z xs @ class_of cmp z ys"
  using assms
proof (induction cmp xs ys rule: merge_runs.induct)
  case (3 cmp x xs y ys)
  show ?case
  proof (cases "cmp x y \<le> 0")
    case True
    with 3 show ?thesis by (simp add: class_of_def)
  next
    case False
    have "class_of cmp z (x # xs) = []" if z: "cmp z y \<le> 0"
    proof -
      have "\<not> cmp w z \<le> 0" if "w \<in> set (x # xs)" for w
      proof
        assume "cmp w z \<le> 0"
        with z have "cmp w y \<le> 0" by (rule compares_trans [OF "3.prems"(1), rotated])
        moreover have "cmp x w \<le> 0" using that "3.prems" by (auto simp: compares_def)
        ultimately show False using False compares_trans [OF "3.prems"(1)] by blast
      qed
      then show ?thesis by (auto simp: class_of_def filter_empty_conv)
    qed
    with 3 False show ?thesis by (auto simp: class_of_def)
  qed
qed (simp_all add: class_of_def)

section \<open>Runs\<close>

text \<open>Every run of \<open>k\<close> elements is in order.\<close>

function runs_ordered :: "('a \<Rightarrow> 'a \<Rightarrow> int) \<Rightarrow> nat \<Rightarrow> 'a list \<Rightarrow> bool" where
  "runs_ordered cmp k xs =
     (if k = 0 \<or> xs = [] then True else ordered cmp (take k xs) \<and> runs_ordered cmp k (drop k xs))"
  by pat_completeness auto
termination by (relation "measure (\<lambda>(_, _, xs). length xs)") auto

declare runs_ordered.simps [simp del]

lemma runs_ordered_one: "runs_ordered cmp 1 xs"
proof (induction xs)
  case Nil
  then show ?case by (simp add: runs_ordered.simps)
next
  case (Cons x xs)
  then show ?case by (subst runs_ordered.simps) simp
qed

lemma runs_ordered_short: "length xs \<le> k \<Longrightarrow> runs_ordered cmp k xs \<Longrightarrow> xs \<noteq> [] \<Longrightarrow> ordered cmp xs"
  by (subst (asm) runs_ordered.simps) (auto split: if_splits)

lemma runs_ordered_Nil [simp]: "runs_ordered cmp k []"
  by (subst runs_ordered.simps) simp

lemma merge_pass_Nil [simp]: "merge_pass cmp k [] = []"
  by (subst merge_pass.simps) simp

lemma runs_ordered_drop:
  "runs_ordered cmp k xs \<Longrightarrow> k \<noteq> 0 \<Longrightarrow> ordered cmp (take k xs) \<and> runs_ordered cmp k (drop k xs)"
  by (subst (asm) runs_ordered.simps) (auto split: if_splits)

lemma merge_pass_runs:
  assumes "compares cmp" "runs_ordered cmp k xs"
  shows "runs_ordered cmp (2 * k) (merge_pass cmp k xs) \<and>
    class_of cmp z (merge_pass cmp k xs) = class_of cmp z xs"
  using assms
proof (induction cmp k xs rule: merge_pass.induct)
  case (1 cmp k xs)
  show ?case
  proof (cases "k = 0 \<or> xs = []")
    case True
    then show ?thesis by (subst (1 2) merge_pass.simps, subst runs_ordered.simps) auto
  next
    case False
    let ?a = "take k xs" and ?b = "take k (drop k xs)" and ?c = "drop k (drop k xs)"
    have a: "ordered cmp ?a" and r: "runs_ordered cmp k (drop k xs)"
      using runs_ordered_drop [OF 1(3)] False by simp_all
    have b: "ordered cmp ?b" and c: "runs_ordered cmp k ?c"
      using runs_ordered_drop [OF r] False by simp_all
    note IH = 1(1) [OF False 1(2) c]
    let ?m = "merge_runs cmp ?a ?b"
    have pass: "merge_pass cmp k xs = ?m @ merge_pass cmp k ?c" using False by (subst merge_pass.simps) simp
    have m: "ordered cmp ?m" by (rule ordered_merge_runs [OF 1(2) a b])
    have "runs_ordered cmp (2 * k) (?m @ merge_pass cmp k ?c)"
    proof (cases "?c = []")
      case True
      then have "merge_pass cmp k ?c = []" by (simp only: merge_pass_Nil)
      moreover have "length ?m \<le> 2 * k" by simp
      ultimately show ?thesis using m by (subst runs_ordered.simps) simp
    next
      case f: False
      then have "length ?m = 2 * k" by simp
      with m IH show ?thesis by (subst runs_ordered.simps) simp
    qed
    moreover have "class_of cmp z xs = class_of cmp z ?a @ class_of cmp z ?b @ class_of cmp z ?c"
    proof -
      show ?thesis using arg_cong [OF two_runs [of xs k], of "class_of cmp z"]
        by (simp only: class_of_def filter_append)
    qed
    moreover have "class_of cmp z (?m @ merge_pass cmp k ?c) = class_of cmp z ?m @ class_of cmp z (merge_pass cmp k ?c)"
      by (simp add: class_of_def)
    ultimately show ?thesis
      unfolding pass using IH class_of_merge_runs [OF 1(2) a] by simp
  qed
qed

section \<open>Lists in the links\<close>

text \<open>The pointers from \<open>p\<close> on lead through the elements of a list to \<open>r\<close>; the back pointers.\<close>

primrec path :: "('a \<Rightarrow> 'a option) \<Rightarrow> 'a option \<Rightarrow> 'a list \<Rightarrow> 'a option \<Rightarrow> bool" where
  "path nx p [] r \<longleftrightarrow> p = r"
| "path nx p (x # xs) r \<longleftrightarrow> p = Some x \<and> path nx (nx x) xs r"

primrec backs :: "('a \<Rightarrow> 'a option) \<Rightarrow> 'a option \<Rightarrow> 'a list \<Rightarrow> bool" where
  "backs pv a [] = True"
| "backs pv a (x # xs) \<longleftrightarrow> pv x = a \<and> backs pv (Some x) xs"

definition last_opt :: "'a list \<Rightarrow> 'a option" where
  "last_opt xs = (if xs = [] then None else Some (last xs))"

lemma last_opt_simps [simp]: "last_opt [] = None" "last_opt [x] = Some x" "last_opt (xs @ [x]) = Some x"
  by (simp_all add: last_opt_def)

lemma path_append: "path nx p (xs @ ys) r \<longleftrightarrow> (\<exists>q. path nx p xs q \<and> path nx q ys r)"
  by (induction xs arbitrary: p) auto

lemma path_upd [simp]: "u \<notin> set xs \<Longrightarrow> path (nx(u := v)) p xs r = path nx p xs r"
  by (induction xs arbitrary: p) auto

lemma path_None [simp]: "path nx None xs r \<longleftrightarrow> xs = [] \<and> r = None"
  by (cases xs) auto

lemma path_redirect: "xs \<noteq> [] \<Longrightarrow> distinct xs \<Longrightarrow> path nx p xs r \<Longrightarrow> path (nx(last xs := v)) p xs v"
  by (induction xs arbitrary: p) (auto split: if_splits)

lemma backs_snoc: "backs pv a (xs @ [x]) \<longleftrightarrow> backs pv a xs \<and> pv x = (if xs = [] then a else Some (last xs))"
  by (induction xs arbitrary: a) auto

lemma backs_upd [simp]: "u \<notin> set xs \<Longrightarrow> backs (pv(u := v)) a xs = backs pv a xs"
  by (induction xs arbitrary: a) auto

section \<open>A merge of the links is a merge of the lists\<close>

text \<open>The output so far, the rest of the first run, and the list from the second run on.\<close>

definition srt_inv :: "'a srt \<Rightarrow> 'a list \<Rightarrow> 'a list \<Rightarrow> 'a list \<Rightarrow> bool" where
  "srt_inv s os ps qs \<longleftrightarrow> distinct (os @ ps @ qs) \<and>
     (\<exists>r. path (hl_next s) (srt_p s) ps r) \<and> path (hl_next s) (srt_q s) qs None \<and>
     unat (srt_psize s) = length ps \<and> srt_tail s = last_opt os \<and>
     (os \<noteq> [] \<longrightarrow> (\<exists>r. path (hl_next s) (srt_list s) os r)) \<and> backs (hl_prev s) None os"

lemma srt_append_inv:
  assumes "srt_tail s = last_opt os" "os \<noteq> [] \<longrightarrow> (\<exists>r. path (hl_next s) (srt_list s) os r)"
    "backs (hl_prev s) None os" "distinct (os @ a # ps @ qs)"
    "\<exists>r. path (hl_next s) (srt_p s) ps r" "path (hl_next s) (srt_q s) qs None" "unat (srt_psize s) = length ps"
  shows "srt_inv (srt_append (Some a) s) (os @ [a]) ps qs"
proof (cases "os = []")
  case True
  with assms show ?thesis by (simp add: srt_inv_def srt_append_def)
next
  case False
  then have tail: "srt_tail s = Some (last os)" "last os \<in> set os" using assms(1) by (simp_all add: last_opt_def)
  with assms(4) have out: "last os \<notin> set ps" "last os \<notin> set qs" "a \<noteq> last os" by auto
  from assms(2) False obtain r where "path (hl_next s) (srt_list s) os r" by blast
  with False assms(4) have "path ((hl_next s)(last os := Some a)) (srt_list s) os (Some a)"
    by (intro path_redirect) simp_all
  with assms(2-) False tail(1) out show ?thesis
    by (auto simp: srt_inv_def srt_append_def Let_def backs_snoc path_append)
qed

lemma pick_p_inv:
  assumes "srt_inv s os (a # ps) qs"
  shows "srt_inv (srt_append (Some a) (s\<lparr>srt_p := hl_next s a, srt_psize := srt_psize s - 1\<rparr>)) (os @ [a]) ps qs"
proof -
  have "srt_psize s \<noteq> 0" using assms by (auto simp: srt_inv_def)
  then show ?thesis
    using assms by (intro srt_append_inv) (auto simp: srt_inv_def unat_minus_one)
qed

lemma pick_q_inv:
  assumes "srt_inv s os ps (b # qs)"
  shows "srt_inv (srt_append (Some b) (s\<lparr>srt_q := hl_next s b, srt_qsize := srt_qsize s - 1\<rparr>)) (os @ [b]) ps qs"
  using assms by (intro srt_append_inv) (auto simp: srt_inv_def)

lemma srt_inv_heads:
  assumes "srt_inv s os ps qs"
  shows "srt_psize s = 0 \<longleftrightarrow> ps = []" "ps \<noteq> [] \<Longrightarrow> srt_p s = Some (hd ps)"
    "srt_q s = (case qs of [] \<Rightarrow> None | b # _ \<Rightarrow> Some b)"
proof -
  show "srt_psize s = 0 \<longleftrightarrow> ps = []"
    using assms by (auto simp: srt_inv_def unat_eq_zero [symmetric])
  show "ps \<noteq> [] \<Longrightarrow> srt_p s = Some (hd ps)" using assms by (cases ps) (auto simp: srt_inv_def)
  show "srt_q s = (case qs of [] \<Rightarrow> None | b # _ \<Rightarrow> Some b)"
    using assms by (cases qs) (auto simp: srt_inv_def)
qed

lemma srt_merge_ok:
  assumes "srt_inv s os ps qs"
  shows "\<exists>s'. srt_merge cmp s = Inr s' \<and> srt_nmerges s' = srt_nmerges s \<and>
    srt_inv s' (os @ merge_runs cmp ps (take (unat (srt_qsize s)) qs)) [] (drop (unat (srt_qsize s)) qs)"
  using assms
proof (induction "length ps + length qs" arbitrary: s os ps qs)
  case 0
  then have "\<not> srt_more s" using srt_inv_heads [OF "0.prems"] by (simp add: srt_more_def)
  with 0 show ?case by (subst srt_merge.simps) simp
next
  case (Suc n)
  note hds = srt_inv_heads [OF Suc.prems]
  have unroll: "srt_more s \<Longrightarrow> srt_merge cmp s = bindR (srt_pick cmp s) (\<lambda>(e, s'). srt_merge cmp (srt_append e s'))"
    by (subst srt_merge.simps) simp
  have p_step: ?case if ps: "ps = a # ps'" and "srt_more s"
    and pick: "srt_pick cmp s = Inr (Some a, s\<lparr>srt_p := hl_next s a, srt_psize := srt_psize s - 1\<rparr>)"
    and m: "merge_runs cmp ps (take (unat (srt_qsize s)) qs) = a # merge_runs cmp ps' (take (unat (srt_qsize s)) qs)"
    for a ps'
  proof -
    from Suc.hyps(2) ps have "n = length ps' + length qs" by simp
    from Suc.hyps(1) [OF this pick_p_inv [OF Suc.prems [unfolded ps]]] show ?thesis
      using that by (simp add: unroll)
  qed
  have q_step: ?case if qs: "qs = b # qs'" and "srt_more s" and k: "srt_qsize s \<noteq> 0"
    and pick: "srt_pick cmp s = Inr (Some b, s\<lparr>srt_q := hl_next s b, srt_qsize := srt_qsize s - 1\<rparr>)"
    and m: "\<And>ys. merge_runs cmp ps (b # ys) = b # merge_runs cmp ps ys"
    for b qs'
  proof -
    from Suc.hyps(2) qs have "n = length ps + length qs'" by simp
    moreover have "unat (srt_qsize s) = Suc (unat (srt_qsize s - 1))"
      using k by (simp add: unat_minus_one unat_gt_0)
    ultimately show ?thesis
      using Suc.hyps(1) [OF _ pick_q_inv [OF Suc.prems [unfolded qs]]] that by (simp add: unroll)
  qed
  show ?case
  proof (cases "srt_more s")
    case False
    then have "ps = []" "take (unat (srt_qsize s)) qs = []" "drop (unat (srt_qsize s)) qs = qs"
      using hds by (auto simp: srt_more_def split: list.splits)
    with False Suc.prems show ?thesis by (subst srt_merge.simps) (simp only: if_False, auto)
  next
    case more: True
    show ?thesis
    proof (cases ps)
      case Nil
      with more hds obtain b qs' where qs: "qs = b # qs'" "srt_qsize s \<noteq> 0"
        by (auto simp: srt_more_def split: list.splits)
      show ?thesis
        by (rule q_step [OF qs(1) more qs(2)])
           (use hds Nil qs in \<open>simp_all add: srt_pick_def deref_def Let_def\<close>)
    next
      case (Cons a ps')
      show ?thesis
      proof (cases "srt_qsize s = 0 \<or> qs = []")
        case True
        then show ?thesis
          by (intro p_step [OF Cons more])
             (use hds Cons in \<open>auto simp: srt_pick_def Let_def split: list.splits\<close>)
      next
        case False
        then obtain b qs' where qs: "qs = b # qs'" by (cases qs) auto
        obtain k where k: "unat (srt_qsize s) = Suc k"
          using False by (cases "unat (srt_qsize s)") (simp_all add: unat_eq_zero)
        show ?thesis
        proof (cases "cmp a b \<le> 0")
          case True
          show ?thesis
            by (rule p_step [OF Cons more])
               (use hds Cons qs False True k in \<open>simp_all add: srt_pick_def deref_def Let_def\<close>)
        next
          case greater: False
          show ?thesis
            by (rule q_step [OF qs more])
               (use hds Cons qs False greater in \<open>simp_all add: srt_pick_def deref_def Let_def\<close>)
        qed
      qed
    qed
  qed
qed

section \<open>A pass\<close>

lemma srt_skip_ok:
  "path nx q xs None \<Longrightarrow> xs \<noteq> [] \<or> n = 0 \<Longrightarrow>
     \<exists>q'. srt_skip nx n c q = Inr (c + of_nat (min n (length xs)), q') \<and> path nx q' (drop n xs) None"
proof (induction n arbitrary: c q xs)
  case (Suc n)
  from Suc.prems obtain x xs' where xs: "xs = x # xs'" "q = Some x" "path nx (nx x) xs' None"
    by (cases xs) auto
  show ?case
  proof (cases xs')
    case Nil
    with xs show ?thesis by (simp add: deref_def)
  next
    case (Cons y ys)
    with xs Suc.IH [OF xs(3), of "c + 1"] show ?thesis by (auto simp: deref_def add.assoc)
  qed
qed simp

text \<open>The output so far and the list that is left.\<close>

definition pass_inv :: "'a srt \<Rightarrow> 'a list \<Rightarrow> 'a list \<Rightarrow> bool" where
  "pass_inv s os xs \<longleftrightarrow> distinct (os @ xs) \<and> path (hl_next s) (srt_p s) xs None \<and>
     srt_tail s = last_opt os \<and> (os \<noteq> [] \<longrightarrow> (\<exists>r. path (hl_next s) (srt_list s) os r)) \<and>
     backs (hl_prev s) None os"

text \<open>The number of merges of a pass.\<close>

function merges :: "nat \<Rightarrow> nat \<Rightarrow> nat" where
  "merges k n = (if k = 0 \<or> n = 0 then 0 else Suc (merges k (n - 2 * k)))"
  by pat_completeness auto
termination by (relation "measure snd") auto

declare merges.simps [simp del]

lemma merges_0 [simp]: "merges k 0 = 0"
  by (subst merges.simps) simp

lemma merges_le: "2 * merges k n \<le> Suc n"
proof (induction k n rule: merges.induct)
  case (1 k n)
  then show ?case by (subst merges.simps) (cases "n \<le> 2 * k"; auto)
qed

lemma merges_one: "0 < k \<Longrightarrow> merges k n \<le> 1 \<longleftrightarrow> n \<le> 2 * k"
  by (subst merges.simps, cases "n \<le> 2 * k"; subst merges.simps) auto

lemma srt_pass_ok:
  assumes "pass_inv s os xs" "insize \<noteq> 0"
  shows "\<exists>s'. srt_pass cmp insize s = Some (Inr s') \<and>
    pass_inv s' (os @ merge_pass cmp (unat insize) xs) [] \<and>
    srt_nmerges s' = srt_nmerges s + of_nat (merges (unat insize) (length xs))"
  using assms(1)
proof (induction "length xs" arbitrary: s os xs rule: less_induct)
  case less
  let ?k = "unat insize"
  have k: "0 < ?k" using assms(2) by (simp add: unat_gt_0)
  show ?case
  proof (cases "xs = []")
    case True
    then have "srt_p s = None" using less.prems by (simp add: pass_inv_def)
    with True less.prems show ?thesis by (subst srt_pass.simps) simp
  next
    case False
    then have p: "srt_p s \<noteq> None" using less.prems by (auto simp: pass_inv_def)
    have path: "path (hl_next s) (srt_p s) xs None" using less.prems by (simp add: pass_inv_def)
    obtain q where q: "srt_skip (hl_next s) ?k 0 (srt_p s) = Inr (of_nat (min ?k (length xs)), q)"
      "path (hl_next s) q (drop ?k xs) None"
      using srt_skip_ok [OF path, of ?k 0] False by auto
    let ?s = "s\<lparr>srt_nmerges := srt_nmerges s + 1, srt_q := q, srt_psize := of_nat (min ?k (length xs)), srt_qsize := insize\<rparr>"
    have "?k < 2 ^ LENGTH(32)" by (rule unsigned_less)
    then have "min ?k (length xs) < 2 ^ 32" by (simp add: min_less_iff_disj)
    then have "unat (of_nat (min ?k (length xs)) :: u32) = min ?k (length xs)" by (simp add: unat_of_nat)
    moreover have "\<exists>r. path (hl_next s) (srt_p s) (take ?k xs) r"
      using path by (metis append_take_drop_id path_append)
    moreover have "distinct (os @ take ?k xs @ drop ?k xs)" using less.prems by (simp add: pass_inv_def)
    ultimately have "srt_inv ?s os (take ?k xs) (drop ?k xs)"
      using less.prems q(2) by (simp add: srt_inv_def pass_inv_def min.commute)
    from srt_merge_ok [OF this, of cmp] obtain s' where s': "srt_merge cmp ?s = Inr s'"
      "srt_nmerges s' = srt_nmerges s + 1"
      "srt_inv s' (os @ merge_runs cmp (take ?k xs) (take ?k (drop ?k xs))) [] (drop ?k (drop ?k xs))"
      by auto
    let ?t = "s'\<lparr>srt_p := srt_q s'\<rparr>"
    have "pass_inv ?t (os @ merge_runs cmp (take ?k xs) (take ?k (drop ?k xs))) (drop ?k (drop ?k xs))"
      using s'(3) by (simp add: srt_inv_def pass_inv_def)
    moreover have "length (drop ?k (drop ?k xs)) < length xs" using False k by (cases xs) auto
    ultimately obtain t' where t': "srt_pass cmp insize ?t = Some (Inr t')"
      "pass_inv t' ((os @ merge_runs cmp (take ?k xs) (take ?k (drop ?k xs))) @ merge_pass cmp ?k (drop ?k (drop ?k xs))) []"
      "srt_nmerges t' = srt_nmerges ?t + of_nat (merges ?k (length (drop ?k (drop ?k xs))))"
      using less.hyps by blast
    have "srt_pass cmp insize s = srt_pass cmp insize ?t"
      using p by (subst srt_pass.simps) (auto simp: q(1) s'(1))
    moreover have "merge_pass cmp ?k xs = merge_runs cmp (take ?k xs) (take ?k (drop ?k xs)) @ merge_pass cmp ?k (drop ?k (drop ?k xs))"
      using False k by (subst merge_pass.simps) simp
    moreover have "merges ?k (length xs) = Suc (merges ?k (length (drop ?k (drop ?k xs))))"
      using False k by (subst merges.simps) (simp add: mult_2 diff_diff_left)
    ultimately show ?thesis using t' s'(2) by simp
  qed
qed

section \<open>The loop\<close>

function merge_sort :: "('a \<Rightarrow> 'a \<Rightarrow> int) \<Rightarrow> nat \<Rightarrow> 'a list \<Rightarrow> 'a list" where
  "merge_sort cmp k xs =
     (if k = 0 \<or> length xs \<le> 2 * k then merge_pass cmp k xs
      else merge_sort cmp (2 * k) (merge_pass cmp k xs))"
  by pat_completeness auto

lemma length_merge_pass [simp]: "length (merge_pass cmp k xs) = length xs"
  by (metis mset_merge_pass size_mset)

termination merge_sort
  by (relation "measure (\<lambda>(_, k, xs). length xs - k)") auto

declare merge_sort.simps [simp del]

lemma mset_merge_sort [simp]: "mset (merge_sort cmp k xs) = mset xs"
proof (induction cmp k xs rule: merge_sort.induct)
  case (1 cmp k xs)
  then show ?case by (subst merge_sort.simps) simp
qed

lemma merge_sort_ordered:
  "compares cmp \<Longrightarrow> runs_ordered cmp k xs \<Longrightarrow> 0 < k \<Longrightarrow>
     ordered cmp (merge_sort cmp k xs) \<and> class_of cmp z (merge_sort cmp k xs) = class_of cmp z xs"
proof (induction cmp k xs rule: merge_sort.induct)
  case (1 cmp k xs)
  note pass = merge_pass_runs [OF 1(2,3)]
  show ?case
  proof (cases "length xs \<le> 2 * k")
    case True
    then have "ordered cmp (merge_pass cmp k xs)"
      using pass runs_ordered_short [of "merge_pass cmp k xs" "2 * k" cmp]
      by (cases "merge_pass cmp k xs = []") simp_all
    with True pass show ?thesis by (subst (1 2) merge_sort.simps) simp
  next
    case False
    with 1 pass show ?thesis by (subst (1 2) merge_sort.simps) simp
  qed
qed

lemma srt_finish_simps [simp]:
  "srt_list (srt_finish s) = srt_list s" "srt_tail (srt_finish s) = srt_tail s"
  "srt_nmerges (srt_finish s) = srt_nmerges s" "hl_prev (srt_finish s) = hl_prev s"
  by (simp_all add: srt_finish_def split: option.split)

lemma srt_finish_path:
  assumes "pass_inv s os []" "os \<noteq> []"
  shows "path (hl_next (srt_finish s)) (srt_list s) os None"
proof -
  from assms obtain r where "path (hl_next s) (srt_list s) os r" "distinct os" "srt_tail s = Some (last os)"
    by (auto simp: pass_inv_def last_opt_def)
  with path_redirect [OF assms(2)] show ?thesis by (simp add: srt_finish_def)
qed

lemma srt_loop_ok:
  assumes "xs \<noteq> []" "distinct xs" "path (hl_next s) (srt_list s) xs None" "unat insize = 2 ^ j" "length xs \<le> 2 ^ 32"
  shows "\<exists>s'. srt_loop cmp insize s = Some (Inr s') \<and>
    path (hl_next s') (srt_list s') (merge_sort cmp (2 ^ j) xs) None \<and>
    backs (hl_prev s') None (merge_sort cmp (2 ^ j) xs) \<and>
    srt_tail s' = last_opt (merge_sort cmp (2 ^ j) xs)"
  using assms
proof (induction "length xs - 2 ^ j" arbitrary: xs s insize j rule: less_induct)
  case (less xs j s insize)
  note prems = less.prems
  let ?t = "s\<lparr>srt_p := srt_list s, srt_list := None, srt_tail := None, srt_nmerges := 0\<rparr>"
  let ?ys = "merge_pass cmp (2 ^ j) xs"
  have "pass_inv ?t [] xs" "insize \<noteq> 0" using prems(1-4) by (auto simp: pass_inv_def)
  from srt_pass_ok [OF this, of cmp] obtain u where u: "srt_pass cmp insize ?t = Some (Inr u)"
    "pass_inv u ?ys []" "srt_nmerges u = of_nat (merges (2 ^ j) (length xs))"
    using prems(4) by auto
  have ys: "?ys \<noteq> []" "distinct ?ys"
    using prems(1,2) mset_merge_pass [of cmp "2 ^ j" xs] mset_eq_imp_distinct_iff by (auto simp del: mset_merge_pass)
  have path: "path (hl_next (srt_finish u)) (srt_list u) ?ys None" by (rule srt_finish_path [OF u(2) ys(1)])
  have "merges (2 ^ j) (length xs) < 2 ^ 32" using merges_le [of "2 ^ j" "length xs"] prems(5) by simp
  then have "unat (srt_nmerges u) = merges (2 ^ j) (length xs)" by (simp add: u(3) unat_of_nat)
  then have one: "srt_nmerges u \<le> 1 \<longleftrightarrow> length xs \<le> 2 * 2 ^ j"
    using merges_one [of "2 ^ j" "length xs"] by (simp add: word_le_nat_alt)
  have loop: "srt_loop cmp insize s =
      (if length xs \<le> 2 * 2 ^ j then Some (Inr (srt_finish u)) else srt_loop cmp (insize * 2) (srt_finish u))"
    using u(1) by (subst srt_loop.simps) (simp add: one Let_def)
  show ?case
  proof (cases "length xs \<le> 2 * 2 ^ j")
    case True
    with loop path u(2) show ?thesis by (subst (1 2 3) merge_sort.simps) (simp add: pass_inv_def)
  next
    case False
    with prems(5) have "(2 :: nat) ^ Suc j < 2 ^ 32" by simp
    then have "Suc j < 32" by (rule power_less_imp_less_exp [rotated]) simp
    have "unat (insize * 2) = 2 ^ Suc j"
      using \<open>2 ^ Suc j < 2 ^ 32\<close> prems(4) by (simp add: unat_word_ariths)
    moreover have "length ?ys - 2 ^ Suc j < length xs - 2 ^ j"
      unfolding length_merge_pass by (rule diff_less_mono2) (use False in auto)
    ultimately show ?thesis
      using less.hyps [of ?ys "Suc j" "srt_finish u" "insize * 2"] False path ys prems(5) loop
      by (subst (1 2 3) merge_sort.simps) simp
  qed
qed

end
