(* ===== verification/Hash_Check.thy ===== *)
theory Hash_Check
  imports Hash_Sort_Ok Hash_Table_Ok
begin

text \<open>
  \<open>HASH_FSCK\<close> of \<open>src/uthash.h\<close>, the integrity check that the operations of a debugging build end
  with, on the fields of a table in memory: the links of the elements in both orders, the
  buckets with their counts, and the sizes. A check that fails ends the program with one of five
  messages. The loops run along the links; \<open>None\<close> says that a loop does not return.
\<close>

section \<open>The check\<close>

record 'a hash_store = "'a hash_links" +
  hs_head :: "'a option"
  hs_hh_next :: "'a \<Rightarrow> 'a option"
  hs_hh_prev :: "'a \<Rightarrow> 'a option"
  hs_buckets :: "('a option \<times> u32) list"
  hs_num_buckets :: u32
  hs_num_items :: u32

datatype fsck_fault =
    InvalidHhPrev
  | InvalidBucketCount
  | InvalidHhItemCount
  | InvalidPrev
  | InvalidAppItemCount
  | BucketOverrun

definition bindFsck :: "(fsck_fault + 'a) option \<Rightarrow> ('a \<Rightarrow> (fsck_fault + 'b) option) \<Rightarrow> (fsck_fault + 'b) option" where
  "bindFsck x f = (case x of None \<Rightarrow> None | Some (Inl e) \<Rightarrow> Some (Inl e) | Some (Inr a) \<Rightarrow> f a)"

text \<open>Walking a chain, or the list of the elements: every back link is that of the element
  before, and the elements are counted.\<close>

partial_function (option) fsck_walk ::
  "fsck_fault \<Rightarrow> ('a \<Rightarrow> 'a option) \<Rightarrow> ('a \<Rightarrow> 'a option) \<Rightarrow> 'a option \<Rightarrow> u32 \<Rightarrow> 'a option \<Rightarrow> (fsck_fault + u32) option" where
  "fsck_walk msg nx pv prev cnt thh =
     (case thh of
        None \<Rightarrow> Some (Inr cnt)
      | Some a \<Rightarrow> if prev \<noteq> pv a then Some (Inl msg)
                  else fsck_walk msg nx pv (Some a) (cnt + 1) (nx a))"

fun fsck_buckets :: "'a hash_store \<Rightarrow> nat list \<Rightarrow> u32 \<Rightarrow> (fsck_fault + u32) option" where
  "fsck_buckets s [] cnt = Some (Inr cnt)"
| "fsck_buckets s (i # is) cnt =
     (if i < length (hs_buckets s) then
        let (hh_head, c) = hs_buckets s ! i
        in bindFsck (fsck_walk InvalidHhPrev (hs_hh_next s) (hs_hh_prev s) None 0 hh_head) (\<lambda>bkt_cnt.
           if c \<noteq> bkt_cnt then Some (Inl InvalidBucketCount)
           else fsck_buckets s is (cnt + bkt_cnt))
      else Some (Inl BucketOverrun))"

definition HASH_FSCK :: "'a hash_store \<Rightarrow> (fsck_fault + unit) option" where
  "HASH_FSCK s =
     (if hs_head s = None then Some (Inr ())
      else bindFsck (fsck_buckets s [0..<unat (hs_num_buckets s)] 0) (\<lambda>cnt.
        if cnt \<noteq> hs_num_items s then Some (Inl InvalidHhItemCount)
        else bindFsck (fsck_walk InvalidPrev (hl_next s) (hl_prev s) None 0 (hs_head s)) (\<lambda>cnt.
          if cnt \<noteq> hs_num_items s then Some (Inl InvalidAppItemCount) else Some (Inr ()))))"

section \<open>What it checks\<close>

lemma bindFsck_Inr: "bindFsck x f = Some (Inr b) \<longleftrightarrow> (\<exists>a. x = Some (Inr a) \<and> f a = Some (Inr b))"
  by (auto simp: bindFsck_def split: option.splits sum.splits)

lemma fsck_walk_list:
  "path nx p xs None \<Longrightarrow> backs pv prev xs \<Longrightarrow> fsck_walk msg nx pv prev c p = Some (Inr (c + of_nat (length xs)))"
proof (induction xs arbitrary: p prev c)
  case Nil
  then show ?case by (subst fsck_walk.simps) simp
next
  case (Cons x xs)
  then have "fsck_walk msg nx pv (Some x) (c + 1) (nx x) = Some (Inr (c + 1 + of_nat (length xs)))" by simp
  with Cons.prems show ?case by (subst fsck_walk.simps) (simp add: add.assoc)
qed

definition walked ::
  "('a \<Rightarrow> 'a option) \<Rightarrow> ('a \<Rightarrow> 'a option) \<Rightarrow> 'a option \<Rightarrow> u32 \<Rightarrow> 'a option \<Rightarrow> u32 \<Rightarrow> bool" where
  "walked nx pv prev c p n \<longleftrightarrow> (\<exists>xs. path nx p xs None \<and> backs pv prev xs \<and> n = c + of_nat (length xs))"

lemma walked_step:
  "walked nx pv (Some a) (c + 1) (nx a) n \<Longrightarrow> walked nx pv (pv a) c (Some a) n"
  unfolding walked_def
proof (elim exE conjE)
  fix xs assume "path nx (nx a) xs None" "backs pv (Some a) xs" "n = c + 1 + of_nat (length xs)"
  then show "\<exists>xs. path nx (Some a) xs None \<and> backs pv (pv a) xs \<and> n = c + of_nat (length xs)"
    by (intro exI [of _ "a # xs"]) (simp add: add.assoc)
qed

lemma fsck_walk_conv:
  "fsck_walk msg nx pv prev c p = Some r \<Longrightarrow> \<forall>n. r = Inr n \<longrightarrow> walked nx pv prev c p n"
proof (rule fsck_walk.raw_induct [where P = "\<lambda>msg nx pv prev c p r. \<forall>n. r = Inr n \<longrightarrow> walked nx pv prev c p n"], goal_cases)
  case (1 walk msg nx pv prev c p r)
  show ?case
  proof (cases p)
    case None
    with 1(3) show ?thesis by (auto simp: walked_def intro!: exI [of _ "[]"])
  next
    case (Some a)
    with 1(3) show ?thesis
      by (cases "prev = pv a") (auto dest: 1(2) intro: walked_step)
  qed
qed

lemma fsck_walk_iff:
  "fsck_walk msg nx pv prev c p = Some (Inr n) \<longleftrightarrow> walked nx pv prev c p n"
  using fsck_walk_conv [of msg nx pv prev c p "Inr n"] fsck_walk_list [of nx p _ pv prev msg c]
  by (auto simp: walked_def)

text \<open>The elements of a chain: the links lead through them, the back links back, and their number
  is the count of the bucket.\<close>

definition chain_ok :: "'a hash_store \<Rightarrow> nat \<Rightarrow> 'a list \<Rightarrow> bool" where
  "chain_ok s i xs \<longleftrightarrow> i < length (hs_buckets s) \<and> path (hs_hh_next s) (fst (hs_buckets s ! i)) xs None \<and>
     backs (hs_hh_prev s) None xs \<and> snd (hs_buckets s ! i) = of_nat (length xs)"

definition order_ok :: "'a hash_store \<Rightarrow> 'a list \<Rightarrow> bool" where
  "order_ok s xs \<longleftrightarrow> path (hl_next s) (hs_head s) xs None \<and> backs (hl_prev s) None xs \<and>
     hs_num_items s = of_nat (length xs)"

definition consistent :: "'a hash_store \<Rightarrow> bool" where
  "consistent s \<longleftrightarrow> hs_head s = None \<or>
     (\<exists>cs. list_all2 (chain_ok s) [0..<unat (hs_num_buckets s)] cs \<and>
        hs_num_items s = of_nat (length (concat cs))) \<and> (\<exists>xs. order_ok s xs)"

lemma fsck_bucket:
  "fsck_buckets s (i # is) c = Some (Inr n) \<longleftrightarrow>
     (\<exists>xs. chain_ok s i xs \<and> fsck_buckets s is (c + of_nat (length xs)) = Some (Inr n))"
  by (auto simp: chain_ok_def bindFsck_Inr fsck_walk_iff walked_def split_beta Let_def)

declare fsck_buckets.simps(2) [simp del]

lemma fsck_buckets_iff:
  "fsck_buckets s is c = Some (Inr n) \<longleftrightarrow>
     (\<exists>cs. list_all2 (chain_ok s) is cs \<and> n = c + of_nat (length (concat cs)))"
proof (induction "is" arbitrary: c)
  case (Cons i "is")
  show ?case
  proof
    assume "fsck_buckets s (i # is) c = Some (Inr n)"
    with Cons.IH obtain xs cs where "chain_ok s i xs" "list_all2 (chain_ok s) is cs"
      "n = c + of_nat (length xs) + of_nat (length (concat cs))" by (auto simp: fsck_bucket)
    then show "\<exists>cs. list_all2 (chain_ok s) (i # is) cs \<and> n = c + of_nat (length (concat cs))"
      by (intro exI [of _ "xs # cs"]) (simp add: add.assoc)
  next
    assume "\<exists>cs. list_all2 (chain_ok s) (i # is) cs \<and> n = c + of_nat (length (concat cs))"
    then obtain xs cs where "chain_ok s i xs" "list_all2 (chain_ok s) is cs"
      "n = c + of_nat (length xs) + of_nat (length (concat cs))"
      by (auto simp: list_all2_Cons1 add.assoc)
    with Cons.IH show "fsck_buckets s (i # is) c = Some (Inr n)" by (auto simp: fsck_bucket)
  qed
qed auto

text \<open>The check passes exactly when every chain and the list of the elements are linked both ways and
  end, and the counts are their lengths.\<close>

lemma fsck_passes: "HASH_FSCK s = Some (Inr ()) \<longleftrightarrow> consistent s"
proof (cases "hs_head s = None")
  case False
  then show ?thesis
    by (auto simp: HASH_FSCK_def consistent_def bindFsck_Inr fsck_buckets_iff fsck_walk_iff walked_def
        order_ok_def)
qed (simp add: HASH_FSCK_def consistent_def)

section \<open>Tables in memory\<close>

text \<open>The fields that stand for a table.\<close>

definition represents :: "'a hash_store \<Rightarrow> 'a hash_table \<Rightarrow> bool" where
  "represents s t \<longleftrightarrow> path (hl_next s) (hs_head s) (map hh_elt (app_order t)) None \<and>
     backs (hl_prev s) None (map hh_elt (app_order t)) \<and>
     hs_num_buckets s = num_buckets t \<and> hs_num_items s = num_items t \<and>
     list_all2 (\<lambda>(p, c) b. path (hs_hh_next s) p (map hh_elt (hh_chain b)) None \<and>
       backs (hs_hh_prev s) None (map hh_elt (hh_chain b)) \<and> c = hb_count b)
       (hs_buckets s) (hash_buckets t)"

lemma represents_consistent:
  assumes "table_ok t" "represents s t"
  shows "consistent s"
proof -
  have ok: "buckets_ok (num_buckets t) (hash_buckets t)" and m: "mset (handles (hash_buckets t)) = mset (app_order t)"
    and n: "num_items t = of_nat (length (app_order t))"
    using assms(1) by (simp_all add: table_ok_def stores_def)
  let ?cs = "map (\<lambda>b. map hh_elt (hh_chain b)) (hash_buckets t)"
  have "list_all2 (chain_ok s) [0..<unat (hs_num_buckets s)] ?cs"
    using assms(2) ok
    by (auto simp: represents_def list_all2_conv_all_nth chain_ok_def buckets_ok_def bucket_ok_def split_beta)
  moreover have "length (concat ?cs) = length (app_order t)"
  proof -
    have "length (concat ?cs) = length (handles (hash_buckets t))"
      by (simp add: handles_def length_concat comp_def)
    then show ?thesis using m by (metis size_mset)
  qed
  moreover have "order_ok s (map hh_elt (app_order t))"
    using assms(2) n by (simp add: represents_def order_ok_def)
  ultimately show ?thesis
    using assms(2) n by (auto simp: consistent_def represents_def)
qed

end
