(* ===== verification/Hash_Sort_Spec.thy ===== *)
theory Hash_Sort_Spec
  imports Hash_Check
begin

text \<open>
  The property of \<open>HASH_SRT\<close>: sorting keeps the table as a map and its
  invariant, and orders its elements stably; its links pass the check.
\<close>

section \<open>Sorting the handles by their elements\<close>

lemma map_merge_runs:
  "map f (merge_runs (\<lambda>x y. cmp (f x) (f y)) xs ys) = merge_runs cmp (map f xs) (map f ys)"
proof (induction "length xs + length ys" arbitrary: xs ys rule: less_induct)
  case less
  then show ?case by (cases xs; cases ys) auto
qed

lemma map_merge_pass:
  "map f (merge_pass (\<lambda>x y. cmp (f x) (f y)) k xs) = merge_pass cmp k (map f xs)"
proof (induction "length xs" arbitrary: xs rule: less_induct)
  case less
  show ?case
  proof (cases "k = 0 \<or> xs = []")
    case False
    then have "length (drop k (drop k xs)) < length xs" by (cases xs) auto
    from less.hyps [OF this] False show ?thesis
      by (subst (1 2) merge_pass.simps) (simp add: map_merge_runs take_map drop_map)
  qed (subst (1 2) merge_pass.simps; auto)
qed

lemma map_merge_sort:
  "map f (merge_sort (\<lambda>x y. cmp (f x) (f y)) k xs) = merge_sort cmp k (map f xs)"
proof (induction "length xs - k" arbitrary: k xs rule: less_induct)
  case less
  show ?case
  proof (cases "k = 0 \<or> length xs \<le> 2 * k")
    case True
    then show ?thesis by (subst (1 2) merge_sort.simps) (auto simp: map_merge_pass)
  next
    case False
    then have "length (merge_pass (\<lambda>x y. cmp (f x) (f y)) k xs) - 2 * k < length xs - k" by auto
    from less.hyps [OF this] False show ?thesis
      by (subst (1 2) merge_sort.simps) (simp add: map_merge_pass)
  qed
qed

section \<open>Another order of the elements\<close>

lemma reorder_ok:
  assumes "table_ok t" "mset ys = mset (app_order t)"
  shows "table_ok (t\<lparr>app_order := ys\<rparr>)"
    and "HASH_FIND (Some (t\<lparr>app_order := ys\<rparr>)) k = HASH_FIND (Some t) k"
proof -
  have "mset (map f ys) = mset (map f (app_order t))" for f :: "'a hash_handle \<Rightarrow> 'b"
    using assms(2) by simp
  then have d: "distinct (map f ys) \<longleftrightarrow> distinct (map f (app_order t))" for f :: "'a hash_handle \<Rightarrow> 'b"
    using mset_eq_imp_distinct_iff by blast
  have "length ys = length (app_order t)" using assms(2) by (metis size_mset)
  moreover have "ys \<noteq> []" using assms by (auto simp: table_ok_def)
  moreover have "distinct (map hh_key ys)" "distinct (map hh_elt ys)"
    using assms mset_eq_imp_distinct_iff [of "map hh_key ys" "map hh_key (app_order t)"]
      mset_eq_imp_distinct_iff [of "map hh_elt ys" "map hh_elt (app_order t)"]
    by (simp_all add: table_ok_def)
  ultimately show "table_ok (t\<lparr>app_order := ys\<rparr>)"
    using assms by (simp add: table_ok_def stores_def)
  show "HASH_FIND (Some (t\<lparr>app_order := ys\<rparr>)) k = HASH_FIND (Some t) k"
    by (simp add: HASH_FIND_def)
qed

section \<open>A table of two elements\<close>

definition one_bucket :: "'a hash_handle list \<Rightarrow> 'a hash_table" where
  "one_bucket xs = \<lparr>hash_buckets = [\<lparr>hh_chain = xs, hb_count = of_nat (length xs), expand_mult = 0\<rparr>],
     num_buckets = 1, log2_num_buckets = 0, num_items = of_nat (length xs), app_order = xs,
     ideal_chain_maxlen = 0, nonideal_items = 0, ineff_expands = 0, noexpand = False\<rparr>"

lemma one_bucket_ok:
  assumes "xs \<noteq> []" "distinct (map hh_key xs)" "distinct (map hh_elt xs)" "\<forall>x \<in> set xs. handle_ok x"
  shows "table_ok (one_bucket xs)"
  using assms
  by (auto simp: table_ok_def stores_def one_bucket_def buckets_ok_def bucket_ok_def handles_def HASH_TO_BKT_def)

definition demo_handle :: "u32 \<Rightarrow> u32 hash_handle" where
  "demo_handle p = \<lparr>hh_elt = p, hh_key = [ucast p], hh_keylen = 1, hh_hashv = HASH_JEN [ucast p]\<rparr>"

definition demo_store :: "u32 hash_store" where
  "demo_store = \<lparr>hl_next = [2 \<mapsto> 1], hl_prev = [1 \<mapsto> 2], hs_head = Some 2, hs_hh_next = [2 \<mapsto> 1],
     hs_hh_prev = [1 \<mapsto> 2], hs_buckets = [(Some 2, 2)], hs_num_buckets = 1, hs_num_items = 2\<rparr>"

lemma demo_table:
  "table_ok (one_bucket [demo_handle 2, demo_handle 1])"
  "represents demo_store (one_bucket [demo_handle 2, demo_handle 1])"
proof -
  show "table_ok (one_bucket [demo_handle 2, demo_handle 1])"
    by (intro one_bucket_ok) (simp_all add: demo_handle_def handle_ok_def)
  show "represents demo_store (one_bucket [demo_handle 2, demo_handle 1])"
    by (simp add: represents_def demo_store_def one_bucket_def demo_handle_def)
qed

section \<open>Properties\<close>

lemma hash_sort_returns:
  fixes cmp :: "'a \<Rightarrow> 'a \<Rightarrow> int" and t :: "'a hash_table"
  assumes "table_ok t" "represents s t" "length (app_order t) \<le> 2 ^ 32"
  defines "ys \<equiv> merge_sort (\<lambda>x y. cmp (hh_elt x) (hh_elt y)) 1 (app_order t)"
  shows "\<exists>head' L. HASH_SRT cmp (hs_head s) tail (hash_links.truncate s) =
      Some (Inr (head', Some (hh_elt (last ys)), L)) \<and>
    represents (s\<lparr>hl_next := hl_next L, hl_prev := hl_prev L, hs_head := head'\<rparr>) (t\<lparr>app_order := ys\<rparr>)"
proof -
  let ?xs = "map hh_elt (app_order t)"
  let ?s = "hash_links.extend (hash_links.truncate s) \<lparr>srt_p = None, srt_q = None, srt_list = hs_head s,
      srt_tail = None, srt_psize = 0, srt_qsize = 0, srt_nmerges = 0\<rparr>"
  have xs: "?xs \<noteq> []" "distinct ?xs" using assms(1) by (auto simp: table_ok_def)
  have fields: "hl_next ?s = hl_next s" "srt_list ?s = hs_head s"
    by (simp_all add: hash_links.defs)
  have path: "path (hl_next ?s) (srt_list ?s) ?xs None" using assms(2) by (simp add: fields represents_def)
  have "unat (1 :: u32) = 2 ^ 0" "length ?xs \<le> 2 ^ 32" using assms(3) by simp_all
  from srt_loop_ok [OF xs path this, of cmp] obtain u where u: "srt_loop cmp 1 ?s = Some (Inr u)"
    "path (hl_next u) (srt_list u) (map hh_elt ys) None" "backs (hl_prev u) None (map hh_elt ys)"
    "srt_tail u = last_opt (map hh_elt ys)"
    by (auto simp: ys_def map_merge_sort)
  have "mset ys = mset (app_order t)" by (simp add: ys_def)
  then have ne: "ys \<noteq> []" using xs(1) by auto
  from path xs(1) obtain h where h: "hs_head s = Some h" unfolding fields by (cases "app_order t") simp_all
  then have "HASH_SRT cmp (hs_head s) tail (hash_links.truncate s) =
      Some (Inr (srt_list u, Some (hh_elt (last ys)), \<lparr>hl_next = hl_next u, hl_prev = hl_prev u\<rparr>))"
    using u(1,4) ne h by (simp add: HASH_SRT_def last_opt_def last_map)
  then show ?thesis using u(2,3) assms(2) by (auto simp: represents_def)
qed

text \<open>C26: sorting a table returns, whatever the comparison: the table keeps its invariant and its
  map, its links are those of the new order with the last element as \<open>tail\<close> and pass the check;
  if the comparison orders the elements they come in that order, equal ones as before.\<close>

theorem hash_sort:
  assumes "table_ok t" "represents s t" "length (app_order t) \<le> 2 ^ 32"
  shows "\<exists>head' L ys. HASH_SRT cmp (hs_head s) tail (hash_links.truncate s) =
      Some (Inr (head', Some (hh_elt (last ys)), L)) \<and>
    represents (s\<lparr>hl_next := hl_next L, hl_prev := hl_prev L, hs_head := head'\<rparr>) (t\<lparr>app_order := ys\<rparr>) \<and>
    HASH_FSCK (s\<lparr>hl_next := hl_next L, hl_prev := hl_prev L, hs_head := head'\<rparr>) = Some (Inr ()) \<and>
    table_ok (t\<lparr>app_order := ys\<rparr>) \<and> (\<forall>k. HASH_FIND (Some (t\<lparr>app_order := ys\<rparr>)) k = HASH_FIND (Some t) k) \<and>
    (compares cmp \<longrightarrow> ordered cmp (map hh_elt ys) \<and>
       (\<forall>z. class_of cmp z (map hh_elt ys) = class_of cmp z (map hh_elt (app_order t))))"
proof -
  define ys where "ys = merge_sort (\<lambda>x y. cmp (hh_elt x) (hh_elt y)) 1 (app_order t)"
  have m: "mset ys = mset (app_order t)" by (simp add: ys_def)
  have elts: "map hh_elt ys = merge_sort cmp 1 (map hh_elt (app_order t))"
    unfolding ys_def by (rule map_merge_sort)
  from hash_sort_returns [OF assms, of cmp tail] obtain head' L where
    r: "HASH_SRT cmp (hs_head s) tail (hash_links.truncate s) = Some (Inr (head', Some (hh_elt (last ys)), L))"
      "represents (s\<lparr>hl_next := hl_next L, hl_prev := hl_prev L, hs_head := head'\<rparr>) (t\<lparr>app_order := ys\<rparr>)"
    unfolding ys_def by blast
  have t: "table_ok (t\<lparr>app_order := ys\<rparr>)" by (rule reorder_ok(1) [OF assms(1) m])
  have "HASH_FSCK (s\<lparr>hl_next := hl_next L, hl_prev := hl_prev L, hs_head := head'\<rparr>) = Some (Inr ())"
    unfolding fsck_passes by (rule represents_consistent [OF t r(2)])
  moreover have "ordered cmp (map hh_elt ys) \<and> class_of cmp z (map hh_elt ys) = class_of cmp z (map hh_elt (app_order t))"
    if "compares cmp" for z
    unfolding elts by (rule merge_sort_ordered [OF that runs_ordered_one]) simp
  ultimately show ?thesis
    using r t reorder_ok(2) [OF assms(1) m] by blast
qed

lemma hash_sort_witness:
  "\<exists>head' L. HASH_SRT (\<lambda>x y. uint x - uint y) (Some 2) (Some 1) (hash_links.truncate demo_store) =
      Some (Inr (head', Some 2, L)) \<and> path (hl_next L) head' [1, 2] None"
proof -
  let ?cmp = "\<lambda>x y :: u32. uint x - uint y" and ?t = "one_bucket [demo_handle 2, demo_handle 1]"
  have cmp: "compares ?cmp" by (auto simp: compares_def)
  have head: "hs_head demo_store = Some 2" by (simp add: demo_store_def)
  have "length (app_order ?t) \<le> 2 ^ 32" by (simp add: one_bucket_def)
  from hash_sort [OF demo_table this, where cmp = ?cmp and tail = "Some 1"] cmp obtain head' L ys where
    r: "HASH_SRT ?cmp (Some 2) (Some 1) (hash_links.truncate demo_store) = Some (Inr (head', Some (hh_elt (last ys)), L))"
      "represents (demo_store\<lparr>hl_next := hl_next L, hl_prev := hl_prev L, hs_head := head'\<rparr>) (?t\<lparr>app_order := ys\<rparr>)"
      "table_ok (?t\<lparr>app_order := ys\<rparr>)" "ordered ?cmp (map hh_elt ys)"
    unfolding head by blast
  have "mset ys = mset [demo_handle 2, demo_handle 1]"
    using r(3) by (simp add: table_ok_def stores_def one_bucket_def handles_def)
  then have "mset (map hh_elt ys) = {#2, 1#}" by (simp add: demo_handle_def)
  then have "length (map hh_elt ys) = 2" "set (map hh_elt ys) = {2, 1}"
    by (metis size_mset size_add_mset size_empty numeral_2_eq_2, metis set_mset_mset set_mset_add_mset_insert set_mset_empty)
  then obtain a b where ab: "map hh_elt ys = [a, b]" by (auto simp: length_Suc_conv numeral_2_eq_2)
  with r(4) \<open>set (map hh_elt ys) = {2, 1}\<close> have e: "map hh_elt ys = [1, 2]"
    by (auto simp: doubleton_eq_iff)
  then have "hh_elt (last ys) = 2" by (metis last_map last.simps list.distinct(1) list.map_disc_iff)
  with r(1,2) e show ?thesis by (auto simp: represents_def)
qed

end
