(* ===== verification/Hash_More_Spec.thy ===== *)
theory Hash_More_Spec
  imports Hash_More Hash_Sort_Spec Hash_Spec
begin

text \<open>
  The further operations of the hash table as operations of a map: an ordered insertion keeps the
  elements in order, a replacement overwrites a key and hands out its old element, a selection is
  a restriction of the map, and an insertion that runs out of memory leaves the table as it was.
\<close>

section \<open>Insertion at any place of the list\<close>

lemma HASH_MAKE_TABLE_cases:
  "HASH_MAKE_TABLE os x = Inl OutOfMemory \<or> (\<exists>t. HASH_MAKE_TABLE os x = Inr t)"
  by (simp add: HASH_MAKE_TABLE_def)

lemma hash_map_pairs:
  assumes "mset os = add_mset x (mset (hash_order h))" "hash_ok h" "hash_map h (hh_key x) = None"
  shows "map_of (map (\<lambda>x. (hh_key x, hh_elt x)) os) = (hash_map h)(hh_key x \<mapsto> hh_elt x)"
proof -
  let ?f = "\<lambda>x. (hh_key x, hh_elt x)"
  have new: "hh_key x \<notin> hh_key ` set (hash_order h)"
    using assms(3) by (simp add: hash_map_def map_of_eq_None_iff image_comp comp_def)
  have m: "mset (map hh_key os) = mset (map hh_key (x # hash_order h))" using assms(1) by simp
  have d: "distinct (map hh_key (x # hash_order h))" using new hash_ok_order(1) [OF assms(2)] by simp
  then have "distinct (map hh_key os)" using mset_eq_imp_distinct_iff [OF m] by blast
  with d have "distinct (map fst (map ?f os))" "distinct (map fst (map ?f (x # hash_order h)))"
    by (simp_all add: comp_def)
  moreover have "set (map ?f os) = set (map ?f (x # hash_order h))"
    using arg_cong [OF assms(1), of set_mset] by simp
  ultimately have "map_of (map ?f os) = map_of (map ?f (x # hash_order h))"
    by (simp only: map_of_inject_set)
  then show ?thesis by (simp add: hash_map_def)
qed

lemma add_to_table_ok:
  assumes "hash_ok h" "hash_map h (hh_key x) = None" "hh_elt x \<notin> set (hash_elements h)" "handle_ok x"
    and "stores t (mset (hash_order h))" "mset (app_order t) = add_mset x (mset (hash_order h))"
    and "num_items t = of_nat (length (hash_order h))"
  shows "no_room os (HASH_ADD_TO_TABLE os (hh_hashv x) x t) \<or>
    (\<exists>t'. HASH_ADD_TO_TABLE os (hh_hashv x) x t = Inr t' \<and> hash_ok (Some t') \<and>
       hash_map (Some t') = (hash_map h)(hh_key x \<mapsto> hh_elt x) \<and> app_order t' = app_order t)"
proof -
  let ?t = "t\<lparr>num_items := num_items t + 1\<rparr>"
  have "stores ?t (mset (hash_order h))" using assms(5) by (simp add: stores_def)
  from HASH_ADD_TO_BKT_ok [OF this assms(4), of os] show ?thesis
  proof (elim disjE exE conjE)
    fix t' assume t': "HASH_ADD_TO_BKT os (HASH_TO_BKT (hh_hashv x) (num_buckets ?t)) x ?t = Inr t'"
      "stores t' (add_mset x (mset (hash_order h)))" "app_order t' = app_order ?t" "num_items t' = num_items ?t"
    have len: "length (app_order t) = Suc (length (hash_order h))"
      using arg_cong [OF assms(6), of size] by simp
    have dis: "distinct (map f (app_order t)) \<longleftrightarrow> distinct (map f (x # hash_order h))" for f :: "'a hash_handle \<Rightarrow> 'c"
    proof -
      have "mset (map f (app_order t)) = mset (map f (x # hash_order h))" using assms(6) by simp
      then show ?thesis by (rule mset_eq_imp_distinct_iff)
    qed
    have "hh_key x \<notin> set (map hh_key (hash_order h))"
      using assms(2) by (simp add: hash_map_def map_of_eq_None_iff image_comp comp_def)
    then have "distinct (map hh_key (app_order t))" "distinct (map hh_elt (app_order t))"
      using hash_ok_order [OF assms(1)] assms(3) by (simp_all only: dis) (simp_all add: hash_elements_def)
    moreover have "app_order t \<noteq> []" using len by auto
    ultimately have "table_ok t'"
      using t'(2-4) assms(6,7) len by (simp add: table_ok_def)
    moreover have "hash_map (Some t') = (hash_map h)(hh_key x \<mapsto> hh_elt x)"
      using hash_map_pairs [OF assms(6,1,2)] t'(3) by (simp add: hash_map_def hash_order_def)
    ultimately show ?thesis using t'(1,3) by (simp add: HASH_ADD_TO_TABLE_def hash_ok_def)
  qed (simp add: HASH_ADD_TO_TABLE_def)
qed

section \<open>Ordered insertion\<close>

lemma mset_inner_loop [simp]: "mset (HASH_AKBI_INNER_LOOP cmp x ys) = add_mset x (mset ys)"
  by (induction cmp x ys rule: HASH_AKBI_INNER_LOOP.induct) auto

lemma inner_loop_elts:
  "map hh_elt (HASH_AKBI_INNER_LOOP cmp x ys) =
    takeWhile (\<lambda>q. cmp q (hh_elt x) \<le> 0) (map hh_elt ys) @ hh_elt x #
    dropWhile (\<lambda>q. cmp q (hh_elt x) \<le> 0) (map hh_elt ys)"
  by (induction cmp x ys rule: HASH_AKBI_INNER_LOOP.induct) auto

lemma inorder_ok:
  assumes "hash_ok h" "hash_map h key = None" "p \<notin> set (hash_elements h)"
  shows "no_room os (HASH_ADD_INORDER os cmp h key p) \<or>
    (\<exists>h'. HASH_ADD_INORDER os cmp h key p = Inr h' \<and> hash_ok h' \<and> hash_map h' = (hash_map h)(key \<mapsto> p) \<and>
       hash_elements h' = takeWhile (\<lambda>q. cmp q p \<le> 0) (hash_elements h) @ p #
         dropWhile (\<lambda>q. cmp q p \<le> 0) (hash_elements h))"
proof -
  define x where "x = \<lparr>hh_elt = p, hh_key = key, hh_keylen = of_nat (length key), hh_hashv = HASH_JEN key\<rparr>"
  have x: "handle_ok x" "hh_key x = key" "hh_elt x = p" "hh_hashv x = HASH_JEN key"
    by (simp_all add: x_def handle_ok_def)
  let ?pre = "case h of None \<Rightarrow> HASH_MAKE_TABLE os x
    | Some t \<Rightarrow> Inr (t\<lparr>app_order := HASH_AKBI_INNER_LOOP cmp x (app_order t)\<rparr>)"
  have add: "HASH_ADD_INORDER os cmp h key p =
      bindR ?pre (\<lambda>t. bindR (HASH_ADD_TO_TABLE os (hh_hashv x) x t) (\<lambda>t. Inr (Some t)))"
    unfolding HASH_ADD_INORDER_def Let_def x_def by simp
  have pre: "?pre = Inl OutOfMemory \<or> (\<exists>t. ?pre = Inr t \<and> stores t (mset (hash_order h)) \<and>
      app_order t = HASH_AKBI_INNER_LOOP cmp x (hash_order h) \<and> num_items t = of_nat (length (hash_order h)))"
  proof (cases h)
    case None
    then show ?thesis
      using HASH_MAKE_TABLE_ok [of os x] HASH_MAKE_TABLE_cases [of os x] by (auto simp: hash_order_def)
  next
    case (Some t)
    with assms(1) have "table_ok t" by (simp add: hash_ok_def)
    with Some show ?thesis by (auto simp: table_ok_def hash_order_def stores_def)
  qed
  then show ?thesis
  proof (elim disjE exE conjE)
    assume "?pre = Inl OutOfMemory"
    then show ?thesis by (simp only: add) simp
  next
    fix t assume t: "?pre = Inr t" "stores t (mset (hash_order h))"
      "app_order t = HASH_AKBI_INNER_LOOP cmp x (hash_order h)" "num_items t = of_nat (length (hash_order h))"
    have "hash_map h (hh_key x) = None" "hh_elt x \<notin> set (hash_elements h)"
      "mset (app_order t) = add_mset x (mset (hash_order h))" using assms x t(3) by simp_all
    from add_to_table_ok [OF assms(1) this(1,2) x(1) t(2) this(3) t(4), of os] show ?thesis
      unfolding add t(1)
      by (auto simp: x(2,3) hash_elements_def hash_order_def t(3) inner_loop_elts split: option.splits)
  qed
qed

section \<open>Replacement\<close>

lemma distinct_map_eq: "distinct (map f xs) \<Longrightarrow> x \<in> set xs \<Longrightarrow> y \<in> set xs \<Longrightarrow> f x = f y \<Longrightarrow> x = y"
  by (auto simp: distinct_map inj_on_def)

lemma map_of_filter_key:
  "map_of (map (\<lambda>x. (f x, g x)) (filter (\<lambda>x. f x \<noteq> k) xs)) = (map_of (map (\<lambda>x. (f x, g x)) xs))(k := None)"
  by (induction xs) auto

lemma find_distinct: "distinct (map f xs) \<Longrightarrow> x \<in> set xs \<Longrightarrow> find (\<lambda>y. f y = f x) xs = Some x"
  by (induction xs) (auto simp: rev_image_eqI)

lemma delete_found_ok:
  assumes "hash_ok h" "hash_map h key = r"
  shows "\<exists>h'. delete_found h r = Inr h' \<and> hash_ok h' \<and> hash_map h' = (hash_map h)(key := None) \<and>
    hash_elements h' = filter (\<lambda>p. r \<noteq> Some p) (hash_elements h)"
proof (cases r)
  case None
  with assms show ?thesis by (auto simp: delete_found_def)
next
  case (Some q)
  with assms(2) have "(key, q) \<in> set (map (\<lambda>x. (hh_key x, hh_elt x)) (hash_order h))"
    by (intro map_of_SomeD) (simp add: hash_map_def)
  then obtain x where x: "x \<in> set (hash_order h)" "hh_key x = key" "hh_elt x = q" by auto
  then obtain t where t: "h = Some t" by (cases h) (auto simp: hash_order_def)
  with assms(1) x have ok: "table_ok t" "x \<in> set (app_order t)" by (simp_all add: hash_ok_def hash_order_def)
  have d: "distinct (map hh_key (app_order t))" "distinct (map hh_elt (app_order t))"
    using ok(1) by (simp_all add: table_ok_def)
  have "handle_of h q = Some x"
    using find_distinct [OF d(2) ok(2)] by (simp add: handle_of_def t x(3))
  moreover from HASH_DELETE_ok [OF ok] obtain h' where h': "HASH_DELETE (Some t) x = Inr h'" "hash_ok h'"
    "hash_order h' = filter (\<lambda>y. hh_elt y \<noteq> hh_elt x) (app_order t)" by blast
  moreover have "filter (\<lambda>y. hh_elt y \<noteq> hh_elt x) (app_order t) = filter (\<lambda>y. hh_key y \<noteq> key) (app_order t)"
    using distinct_map_eq [OF d(1) _ ok(2)] distinct_map_eq [OF d(2) _ ok(2)] x(2)
    by (intro filter_cong) auto
  ultimately show ?thesis
    using Some t x(3)
    by (simp add: delete_found_def hash_map_def hash_elements_def map_of_filter_key filter_map comp_def)
       (simp add: hash_order_def eq_commute)
qed

text \<open>The ways a build of the table can add an element, behind the deletion of the old one.\<close>

lemma replace_ok:
  assumes "hash_ok h" "p \<notin> set (hash_elements h)"
    and add: "\<And>h1. hash_ok h1 \<Longrightarrow> hash_map h1 key = None \<Longrightarrow> p \<notin> set (hash_elements h1) \<Longrightarrow>
      no_room os (f h1) \<or> (\<exists>h'. f h1 = Inr h' \<and> hash_ok h' \<and> hash_map h' = (hash_map h1)(key \<mapsto> p) \<and>
        hash_elements h' = ins (hash_elements h1))"
  defines "r \<equiv> hash_map h key"
  shows "no_room os (bindR (HASH_FIND h key) (\<lambda>replaced. bindR (delete_found h replaced) (\<lambda>h.
      bindR (f h) (\<lambda>h. Inr (replaced, h))))) \<or>
    (\<exists>h'. bindR (HASH_FIND h key) (\<lambda>replaced. bindR (delete_found h replaced) (\<lambda>h. bindR (f h) (\<lambda>h. Inr (replaced, h))))
      = Inr (r, h') \<and> hash_ok h' \<and> hash_map h' = (hash_map h)(key \<mapsto> p) \<and>
      hash_elements h' = ins (filter (\<lambda>q. r \<noteq> Some q) (hash_elements h)))"
proof -
  obtain h1 where h1: "delete_found h r = Inr h1" "hash_ok h1" "hash_map h1 = (hash_map h)(key := None)"
    "hash_elements h1 = filter (\<lambda>q. r \<noteq> Some q) (hash_elements h)"
    using delete_found_ok [OF assms(1), of key r] by (auto simp: r_def)
  from add [OF h1(2)] h1(3,4) assms(2) show ?thesis
    by (auto simp: HASH_FIND_ok [OF assms(1)] h1(1) simp flip: r_def)
qed

section \<open>Insertion without fatal failures\<close>

text \<open>Undoing a bucket insertion.\<close>

lemma del_in_bkt_undo:
  assumes "hh_elt x \<notin> hh_elt ` set (hh_chain b)"
  shows "HASH_DEL_IN_BKT x (b\<lparr>hh_chain := x # hh_chain b, hb_count := hb_count b + 1\<rparr>) = b"
proof -
  have "filter (\<lambda>y. hh_elt y \<noteq> hh_elt x) (hh_chain b) = hh_chain b"
    using assms by (intro filter_True) (auto simp: rev_image_eqI)
  then show ?thesis by (cases b) (simp add: HASH_DEL_IN_BKT_def)
qed

lemma del_in_bkt_absent:
  assumes "hh_elt x \<notin> hh_elt ` set (hh_chain b)"
  shows "HASH_DEL_IN_BKT x (b\<lparr>hb_count := hb_count b + 1\<rparr>) = b"
proof -
  have "filter (\<lambda>y. hh_elt y \<noteq> hh_elt x) (hh_chain b) = hh_chain b"
    using assms by (intro filter_True) (auto simp: rev_image_eqI)
  then show ?thesis by (cases b) (simp add: HASH_DEL_IN_BKT_def)
qed

lemma nonfatal_bkt:
  assumes "stores t M" "handle_ok x" "hh_elt x \<notin> hh_elt ` set_mset M"
  shows "HASH_ADD_TO_BKT_nonfatal os (HASH_TO_BKT (hh_hashv x) (num_buckets t)) x t =
    (case HASH_ADD_TO_BKT os (HASH_TO_BKT (hh_hashv x) (num_buckets t)) x t of
       Inl OutOfMemory \<Rightarrow> Inr (t, True) | Inl e \<Rightarrow> Inl e | Inr t' \<Rightarrow> Inr (t', False))"
proof -
  let ?k = "unat (HASH_TO_BKT (hh_hashv x) (num_buckets t))"
  let ?b = "hash_buckets t ! ?k"
  let ?b' = "?b\<lparr>hh_chain := x # hh_chain ?b, hb_count := hb_count ?b + 1\<rparr>"
  let ?t = "t\<lparr>hash_buckets := (hash_buckets t)[?k := ?b']\<rparr>"
  have ok: "buckets_ok (num_buckets t) (hash_buckets t)" and M: "mset (handles (hash_buckets t)) = M"
    using assms(1) by (simp_all add: stores_def)
  note at = bucket_at_ok [OF ok, of "hh_hashv x"]
  have upd: "?b' = \<lparr>hh_chain = x # hh_chain ?b, hb_count = hb_count ?b + 1, expand_mult = expand_mult ?b\<rparr>"
    by (cases ?b) simp
  have "stores ?t (add_mset x M)"
    using assms(1) buckets_ok_insert [OF ok assms(2), of "expand_mult ?b"] by (simp add: stores_def upd)
  from expand_ok [OF this, of os] have ex: "HASH_EXPAND_BUCKETS os ?t = Inl OutOfMemory \<or>
      HASH_EXPAND_BUCKETS os ?t = Inl UndefinedShift \<or> (\<exists>t'. HASH_EXPAND_BUCKETS os ?t = Inr t')"
    by (auto simp: no_room_def)
  obtain A B where "handles (hash_buckets t) = A @ hh_chain ?b @ B" using handles_split at by blast
  then have "set (hh_chain ?b) \<subseteq> set_mset M" unfolding M [symmetric] by auto
  then have "hh_elt x \<notin> hh_elt ` set (hh_chain ?b)" using assms(3) by blast
  from del_in_bkt_undo [OF this] have "?t\<lparr>hash_buckets := (hash_buckets ?t)[?k := HASH_DEL_IN_BKT x ?b']\<rparr> = t"
    by simp
  with at ex show ?thesis
    by (auto simp: HASH_ADD_TO_BKT_nonfatal_def HASH_ADD_TO_BKT_def Let_def)
qed

text \<open>Undoing the whole insertion of \<open>x\<close> at the end of the list.\<close>

lemma rollback_delete:
  assumes "buckets_ok (num_buckets t) (hash_buckets t)" "handles (hash_buckets t) = hs"
    and "hh_elt x \<notin> hh_elt ` set hs" "app_order t = xs @ [x]" "hh_elt x \<notin> hh_elt ` set xs"
  shows "bindR (HASH_ROLLBACK_BKT x t) (\<lambda>t. HASH_DELETE (Some t) x) =
    Inr (if xs = [] then None else Some (t\<lparr>app_order := xs, num_items := num_items t - 1\<rparr>))"
proof -
  let ?k = "unat (HASH_TO_BKT (hh_hashv x) (num_buckets t))"
  let ?b = "hash_buckets t ! ?k"
  note at = bucket_at_ok [OF assms(1), of "hh_hashv x"]
  let ?bs = "(hash_buckets t)[?k := ?b\<lparr>hb_count := hb_count ?b + 1\<rparr>]"
  have at': "bucket_at ?bs (HASH_TO_BKT (hh_hashv x) (num_buckets t)) = Inr (?b\<lparr>hb_count := hb_count ?b + 1\<rparr>)"
    using at by (auto simp: bucket_at_def)
  obtain A B where "handles (hash_buckets t) = A @ hh_chain ?b @ B" using handles_split at by blast
  then have "set (hh_chain ?b) \<subseteq> set hs" using assms(2) by auto
  then have "hh_elt x \<notin> hh_elt ` set (hh_chain ?b)" using assms(3) by blast
  from del_in_bkt_absent [OF this] have b: "?bs[?k := HASH_DEL_IN_BKT x (?b\<lparr>hb_count := hb_count ?b + 1\<rparr>)] = hash_buckets t"
    by simp
  have f: "filter (\<lambda>y. hh_elt y \<noteq> hh_elt x) (xs @ [x]) = xs"
    using assms(5) by (auto simp: rev_image_eqI intro!: filter_True)
  have roll: "HASH_ROLLBACK_BKT x t = Inr (t\<lparr>hash_buckets := ?bs\<rparr>)"
    using at by (simp add: HASH_ROLLBACK_BKT_def Let_def)
  show ?thesis
    using f b at' by (simp add: roll HASH_DELETE_def Let_def assms(4) map_eq_Cons_conv append_eq_Cons_conv)
qed

lemma nonfatal_ok:
  assumes "hash_ok h" "p \<notin> set (hash_elements h)"
  shows "HASH_ADD_nonfatal os h key p =
    (case HASH_ADD os h key p of
       Inl OutOfMemory \<Rightarrow> Inr (h, False) | Inl e \<Rightarrow> Inl e | Inr h' \<Rightarrow> Inr (h', True))"
proof -
  define x where "x = \<lparr>hh_elt = p, hh_key = key, hh_keylen = of_nat (length key), hh_hashv = HASH_JEN key\<rparr>"
  have x: "handle_ok x" "hh_elt x = p" "hh_hashv x = HASH_JEN key" by (simp_all add: x_def handle_ok_def)
  let ?pre = "case h of None \<Rightarrow> HASH_MAKE_TABLE os x | Some t \<Rightarrow> Inr (HASH_APPEND_LIST x t)"
  let ?bkt = "\<lambda>t. HASH_ADD_TO_BKT os (HASH_TO_BKT (hh_hashv x) (num_buckets t)) x t"
  have new: "hh_elt x \<notin> hh_elt ` set (hash_order h)" using assms(2) by (simp add: hash_elements_def x(2))
  have add: "HASH_ADD os h key p =
      bindR ?pre (\<lambda>t. bindR (?bkt (t\<lparr>num_items := num_items t + 1\<rparr>)) (\<lambda>t. Inr (Some t)))"
    unfolding HASH_ADD_def Let_def x_def by simp
  have nonfatal: "HASH_ADD_nonfatal os h key p =
      (case ?pre of Inl e \<Rightarrow> Inr (h, False)
       | Inr t \<Rightarrow> let t = t\<lparr>num_items := num_items t + 1\<rparr>
           in bindR (HASH_ADD_TO_BKT_nonfatal os (HASH_TO_BKT (hh_hashv x) (num_buckets t)) x t) (\<lambda>(t, oomed).
              if oomed then mapR (\<lambda>h. (h, False)) (bindR (HASH_ROLLBACK_BKT x t) (\<lambda>t. HASH_DELETE (Some t) x))
              else Inr (Some t, True)))"
    unfolding HASH_ADD_nonfatal_def Let_def x_def by (simp add: mapR_def bindR_assoc case_prod_unfold cong: if_cong split: sum.split)
  show ?thesis
  proof (cases ?pre)
    case (Inl e)
    then have "e = OutOfMemory" by (auto simp: HASH_MAKE_TABLE_def split: option.splits if_splits)
    with Inl show ?thesis unfolding add nonfatal by simp
  next
    case (Inr t)
    have t: "stores t (mset (hash_order h))" "app_order t = hash_order h @ [x]"
      "hash_order h = [] \<longleftrightarrow> h = None"
      "\<And>t0. h = Some t0 \<Longrightarrow> t\<lparr>app_order := hash_order h, num_items := num_items t\<rparr> = t0"
    proof -
      have "stores t (mset (hash_order h)) \<and> app_order t = hash_order h @ [x] \<and> (hash_order h = [] \<longleftrightarrow> h = None) \<and>
          (\<forall>t0. h = Some t0 \<longrightarrow> t\<lparr>app_order := hash_order h, num_items := num_items t\<rparr> = t0)"
      proof (cases h)
        case None
        with Inr show ?thesis using HASH_MAKE_TABLE_ok [of os x t] by (simp add: hash_order_def)
      next
        case (Some t0)
        with assms(1) have "table_ok t0" by (simp add: hash_ok_def)
        with Some Inr show ?thesis
          by (auto simp: HASH_APPEND_LIST_def table_ok_def hash_order_def stores_def)
      qed
      then show "stores t (mset (hash_order h))" "app_order t = hash_order h @ [x]"
        "hash_order h = [] \<longleftrightarrow> h = None"
        "\<And>t0. h = Some t0 \<Longrightarrow> t\<lparr>app_order := hash_order h, num_items := num_items t\<rparr> = t0" by blast+
    qed
    let ?t = "t\<lparr>num_items := num_items t + 1\<rparr>"
    have st: "stores ?t (mset (hash_order h))" using t(1) by (simp add: stores_def)
    then have ok: "buckets_ok (num_buckets ?t) (hash_buckets ?t)" "mset (handles (hash_buckets ?t)) = mset (hash_order h)"
      by (simp_all add: stores_def)
    have "set (handles (hash_buckets ?t)) = set (hash_order h)" by (rule mset_eq_setD [OF ok(2)])
    with new have out: "hh_elt x \<notin> hh_elt ` set (handles (hash_buckets ?t))" by simp
    have order: "app_order ?t = hash_order h @ [x]" by (simp add: t(2))
    have undo: "bindR (HASH_ROLLBACK_BKT x ?t) (\<lambda>t. HASH_DELETE (Some t) x) = Inr h"
      using rollback_delete [OF ok(1) refl out order new] t(3,4) by (cases h) simp_all
    have "HASH_ADD_TO_BKT_nonfatal os (HASH_TO_BKT (hh_hashv x) (num_buckets ?t)) x ?t =
        (case ?bkt ?t of Inl OutOfMemory \<Rightarrow> Inr (?t, True) | Inl e \<Rightarrow> Inl e | Inr t' \<Rightarrow> Inr (t', False))"
      by (rule nonfatal_bkt [OF st x(1)]) (use new in simp)
    then show ?thesis
      unfolding add nonfatal Inr using undo by (cases "?bkt ?t") (simp_all split: fault.split)
  qed
qed

section \<open>Selection\<close>

text \<open>The selection after the handles \<open>xs\<close>: a table of them in that order, whose \<open>tail\<close> is the first.\<close>

definition selected :: "'a hash_handle list \<Rightarrow> 'a selection \<Rightarrow> bool" where
  "selected xs s \<longleftrightarrow>
     (if xs = [] then sel_dst s = None \<and> sel_last s = None
      else \<exists>t. s = \<lparr>sel_dst = Some t, sel_tail = Some (hh_elt (hd xs)), sel_last = Some (hh_elt (last xs))\<rparr> \<and>
        stores t (mset xs) \<and> app_order t = xs \<and> num_items t = of_nat (length xs))"

lemma select_elt_ok:
  assumes "selected xs s" "handle_ok x"
  shows "no_room os (select_elt os x s) \<or> (\<exists>s'. select_elt os x s = Inr s' \<and> selected (xs @ [x]) s')"
proof -
  let ?first = "if xs = [] then x else hd xs"
  let ?pre = "case sel_dst s of None \<Rightarrow> bindR (HASH_MAKE_TABLE os x) (\<lambda>t. Inr (t, Some (hh_elt x)))
    | Some t \<Rightarrow> Inr (select_link (sel_last s) x t, sel_tail s)"
  have pre: "?pre = Inl OutOfMemory \<or> (\<exists>t. ?pre = Inr (t, Some (hh_elt ?first)) \<and> stores t (mset xs) \<and>
      app_order t = xs @ [x] \<and> num_items t = of_nat (length xs))"
  proof (cases "xs = []")
    case True
    with assms(1) show ?thesis
      using HASH_MAKE_TABLE_ok [of os x] HASH_MAKE_TABLE_cases [of os x] by (auto simp: selected_def)
  next
    case False
    with assms(1) show ?thesis by (auto simp: selected_def select_link_def stores_def)
  qed
  have sel: "select_elt os x s = bindR ?pre (\<lambda>(t, tail).
      bindR (HASH_ADD_TO_BKT os (HASH_TO_BKT (hh_hashv x) (num_buckets t)) x t) (\<lambda>t.
      Inr \<lparr>sel_dst = Some (t\<lparr>num_items := num_items t + 1\<rparr>), sel_tail = tail, sel_last = Some (hh_elt x)\<rparr>))"
    by (simp add: select_elt_def)
  from pre show ?thesis
  proof (elim disjE exE conjE)
    assume "?pre = Inl OutOfMemory"
    then show ?thesis by (simp only: sel) simp
  next
    fix t assume t: "?pre = Inr (t, Some (hh_elt ?first))" "stores t (mset xs)" "app_order t = xs @ [x]"
      "num_items t = of_nat (length xs)"
    from HASH_ADD_TO_BKT_ok [OF t(2) assms(2), of os] show ?thesis
    proof (elim disjE exE conjE)
      fix t' assume t': "HASH_ADD_TO_BKT os (HASH_TO_BKT (hh_hashv x) (num_buckets t)) x t = Inr t'"
        "stores t' (add_mset x (mset xs))" "app_order t' = app_order t" "num_items t' = num_items t"
      have "stores (t'\<lparr>num_items := num_items t' + 1\<rparr>) (mset (xs @ [x]))"
        using t'(2) by (simp add: stores_def)
      then show ?thesis
        unfolding sel t(1) using t(3,4) t' by (simp add: selected_def add.commute)
    qed (unfold sel t(1), simp)
  qed
qed

lemma select_loop_ok:
  assumes "selected xs s" "\<forall>x \<in> set ys. handle_ok x"
  shows "no_room os (select_loop os cond ys s) \<or>
    (\<exists>s'. select_loop os cond ys s = Inr s' \<and> selected (xs @ filter (\<lambda>x. cond (hh_elt x)) ys) s')"
  using assms
proof (induction ys arbitrary: xs s)
  case (Cons y ys)
  show ?case
  proof (cases "cond (hh_elt y)")
    case False
    with Cons show ?thesis by simp
  next
    case True
    from Cons.prems(2) have "handle_ok y" by simp
    from select_elt_ok [OF Cons.prems(1) this, of os] show ?thesis
    proof (elim disjE exE conjE)
      fix s' assume s': "select_elt os y s = Inr s'" "selected (xs @ [y]) s'"
      from Cons.IH [OF s'(2)] Cons.prems(2) True s'(1) show ?thesis by simp
    qed (simp add: True)
  qed
qed simp

lemma map_of_filter_value:
  "distinct (map f xs) \<Longrightarrow> map_of (map (\<lambda>x. (f x, g x)) (filter (\<lambda>x. P (g x)) xs)) k =
    (case map_of (map (\<lambda>x. (f x, g x)) xs) k of None \<Rightarrow> None | Some v \<Rightarrow> if P v then Some v else None)"
  by (induction xs) (auto simp: map_of_eq_None_iff split: option.splits)

lemma hash_map_handles:
  assumes "table_ok t"
  shows "hash_map (Some t) = map_of (map (\<lambda>x. (hh_key x, hh_elt x)) (handles (hash_buckets t)))"
    and "distinct (map hh_key (handles (hash_buckets t)))"
proof -
  have m: "mset (map hh_key (handles (hash_buckets t))) = mset (map hh_key (app_order t))"
    using assms by (simp add: table_ok_def stores_def)
  show d: "distinct (map hh_key (handles (hash_buckets t)))"
    using assms mset_eq_imp_distinct_iff [OF m] by (simp add: table_ok_def)
  let ?f = "\<lambda>x. (hh_key x, hh_elt x)"
  have "distinct (map fst (map ?f (app_order t)))" "distinct (map fst (map ?f (handles (hash_buckets t))))"
    using assms d by (simp_all add: table_ok_def comp_def)
  moreover have "set (map ?f (app_order t)) = set (map ?f (handles (hash_buckets t)))"
    using table_handles(1) [OF assms] by simp
  ultimately show "hash_map (Some t) = map_of (map ?f (handles (hash_buckets t)))"
    unfolding hash_map_def hash_order_def by (simp only: option.case map_of_inject_set)
qed

text \<open>The elements of a map that satisfy a condition.\<close>

definition restrict :: "('a \<Rightarrow> bool) \<Rightarrow> ('k \<rightharpoonup> 'a) \<Rightarrow> 'k \<rightharpoonup> 'a" where
  "restrict P m k = (case m k of None \<Rightarrow> None | Some p \<Rightarrow> if P p then Some p else None)"

lemma select_ok:
  assumes "hash_ok src"
  shows "no_room os (HASH_SELECT os cond src None tail) \<or>
    (\<exists>dst tail'. HASH_SELECT os cond src None tail = Inr (dst, tail') \<and> hash_ok dst \<and>
       hash_map dst = restrict cond (hash_map src) \<and> (dst \<noteq> None \<longrightarrow> tail' = Some (hd (hash_elements dst))))"
proof (cases src)
  case None
  then show ?thesis by (simp add: HASH_SELECT_def restrict_def fun_eq_iff)
next
  case (Some t)
  with assms have ok: "table_ok t" by (simp add: hash_ok_def)
  let ?hs = "handles (hash_buckets t)" and ?s = "\<lparr>sel_dst = None, sel_tail = tail, sel_last = None\<rparr>"
  let ?sel = "filter (\<lambda>x. cond (hh_elt x)) ?hs"
  have map: "map_of (map (\<lambda>x. (hh_key x, hh_elt x)) ?sel) = restrict cond (hash_map src)"
    using map_of_filter_value [OF hash_map_handles(2) [OF ok], where g = hh_elt and P = cond] by (simp add: fun_eq_iff restrict_def Some hash_map_handles(1) [OF ok])
  have sel: "HASH_SELECT os cond src None tail =
      bindR (select_loop os cond ?hs ?s) (\<lambda>s. Inr (sel_dst s, sel_tail s))"
    by (simp add: HASH_SELECT_def Some handles_def)
  have s: "selected [] ?s" by (simp add: selected_def)
  have hs: "\<forall>x \<in> set ?hs. handle_ok x" using handles_ok(1) [OF table_handles(2) [OF ok]] by blast
  from select_loop_ok [OF s hs, of os cond, unfolded append_Nil] show ?thesis
  proof (elim disjE exE conjE)
    assume "no_room os (select_loop os cond ?hs ?s)"
    then show ?thesis by (simp add: sel)
  next
    fix s' assume s': "select_loop os cond ?hs ?s = Inr s'" "selected ?sel s'"
    show ?thesis
    proof (cases "?sel = []")
      case True
      with s'(2) have "sel_dst s' = None" by (simp add: selected_def)
      with s'(1) map True show ?thesis by (simp add: sel)
    next
      case False
      with s'(2) obtain t' where t': "s' = \<lparr>sel_dst = Some t', sel_tail = Some (hh_elt (hd ?sel)), sel_last = Some (hh_elt (last ?sel))\<rparr>"
        "stores t' (mset ?sel)" "app_order t' = ?sel" "num_items t' = of_nat (length ?sel)"
        by (auto simp: selected_def)
      have "distinct (map hh_key ?sel)" "distinct (map hh_elt ?sel)"
        using hash_map_handles(2) [OF ok] table_handles(3) [OF ok] by (simp_all add: distinct_map_filter)
      with t' False have "table_ok t'" by (simp add: table_ok_def)
      then show ?thesis
        using s'(1) t' map False
        by (simp add: sel hash_ok_def hash_map_def hash_elements_def hash_order_def hd_map)
    qed
  qed
qed

section \<open>Sizes\<close>

lemma HASH_CNT_ok: "hash_ok h \<Longrightarrow> HASH_CNT h = of_nat (length (hash_elements h))"
  by (cases h) (simp_all add: HASH_CNT_def hash_ok_def table_ok_def hash_elements_def hash_order_def)

text \<open>The longest chain of an even distribution is the number of elements over that of the buckets,
  rounded up, as the comment at \<open>HASH_EXPAND_BUCKETS\<close> derives.\<close>

lemma div_up: "0 < (d :: nat) \<Longrightarrow> n div d + (if n mod d = 0 then 0 else 1) = (n + d - 1) div d"
proof -
  assume d: "0 < d"
  obtain q r where n: "n = q * d + r" "r < d" using d by (metis div_mult_mod_eq mod_less_divisor)
  then have e: "n + d - 1 = r + (d - 1) + q * d" using d by simp
  have "(n + d - 1) div d = q + (r + (d - 1)) div d"
    unfolding e using d by (simp only: div_mult_self1)
  moreover have "(r + (d - 1)) div d = (if r = 0 then 0 else 1)"
    using n(2) d by (auto simp: div_nat_eqI)
  ultimately show ?thesis using n by simp
qed

lemma ideal_chain_length:
  assumes "l < 32"
  shows "unat (drop_bit l n + (if n AND (push_bit l 1 - 1) \<noteq> 0 then 1 else 0) :: u32) =
    (unat n + 2 ^ l - 1) div 2 ^ l"
proof -
  have "push_bit l 1 - 1 = (mask l :: u32)" by (simp add: mask_eq_exp_minus_1 push_bit_eq_mult)
  then have a: "n AND (push_bit l 1 - 1) = take_bit l n" by (simp add: take_bit_eq_mask)
  have m: "unat (take_bit l n) = unat n mod 2 ^ l"
    using take_bit_eq_mod [of l "unat n"] by (simp add: unsigned_take_bit_eq)
  have "unat n < 2 ^ LENGTH(32)" by (rule unsigned_less)
  then have "take_bit 32 (unat n) = unat n" by (intro take_bit_nat_eq_self) simp
  then have d: "unat (drop_bit l n) = unat n div 2 ^ l"
    using drop_bit_eq_div [of l "unat n"] by (simp add: unsigned_drop_bit_eq)
  show ?thesis
  proof (cases "take_bit l n = 0")
    case True
    with m have "unat n mod 2 ^ l = 0" by simp
    with True div_up [of "2 ^ l" "unat n"] d show ?thesis unfolding a by simp
  next
    case False
    then have r: "unat n mod 2 ^ l \<noteq> 0" using m by (metis unat_eq_zero)
    then have "l \<noteq> 0" by (cases l) simp_all
    then have "(2 :: nat) ^ 1 \<le> 2 ^ l" by (intro power_increasing) simp_all
    then have "unat n div 2 ^ l \<le> unat n div 2" by (intro div_le_mono2) simp_all
    moreover have "unat n < 2 ^ LENGTH(32)" by (rule unsigned_less)
    ultimately have "unat (drop_bit l n + 1) = unat n div 2 ^ l + 1"
      using d by (simp add: unat_word_ariths)
    with False r div_up [of "2 ^ l" "unat n"] show ?thesis unfolding a by simp
  qed
qed

section \<open>The stale tail of a selection\<close>

text \<open>\<open>HASH_APPEND_LIST\<close> on the links.\<close>

definition link_append :: "'a \<Rightarrow> 'a option \<Rightarrow> 'a hash_links \<Rightarrow> 'a hash_links" where
  "link_append a tail L =
     (let L = L\<lparr>hl_next := (hl_next L)(a := None), hl_prev := (hl_prev L)(a := tail)\<rparr>
      in case tail of None \<Rightarrow> L | Some b \<Rightarrow> L\<lparr>hl_next := (hl_next L)(b := Some a)\<rparr>)"

text \<open>At the last element an append extends the list; at the first, where a selection leaves \<open>tail\<close>,
  it drops every element behind it.\<close>

lemma link_append_extends:
  assumes "path (hl_next L) p xs None" "distinct xs" "xs \<noteq> []" "a \<notin> set xs"
  shows "path (hl_next (link_append a (Some (last xs)) L)) p (xs @ [a]) None"
proof -
  have "path ((hl_next L)(a := None)) p xs None" using assms(1,4) by simp
  from path_redirect [OF assms(3,2) this, of "Some a"] assms(3,4) show ?thesis
    by (auto simp: link_append_def path_append)
qed

lemma link_append_drops:
  assumes "path (hl_next L) (Some x) (x # xs) None" "a \<noteq> x"
  shows "path (hl_next (link_append a (Some x) L)) (Some x) [x, a] None"
  using assms by (simp add: link_append_def)

section \<open>Properties\<close>

lemma hash_replace:
  assumes "hash_ok h" "p \<notin> set (hash_elements h)"
  shows "no_room os (HASH_REPLACE os h key p) \<or>
    (\<exists>h'. HASH_REPLACE os h key p = Inr (hash_map h key, h') \<and> hash_ok h' \<and>
       hash_map h' = (hash_map h)(key \<mapsto> p) \<and>
       hash_elements h' = filter (\<lambda>q. hash_map h key \<noteq> Some q) (hash_elements h) @ [p])"
  unfolding HASH_REPLACE_def
  by (rule replace_ok [OF assms]) (rule HASH_ADD_ok)

lemma hash_replace_inorder:
  assumes "hash_ok h" "p \<notin> set (hash_elements h)"
  shows "no_room os (HASH_REPLACE_INORDER os cmp h key p) \<or>
    (\<exists>h'. HASH_REPLACE_INORDER os cmp h key p = Inr (hash_map h key, h') \<and> hash_ok h' \<and>
       hash_map h' = (hash_map h)(key \<mapsto> p) \<and>
       (let qs = filter (\<lambda>q. hash_map h key \<noteq> Some q) (hash_elements h)
        in hash_elements h' = takeWhile (\<lambda>q. cmp q p \<le> 0) qs @ p # dropWhile (\<lambda>q. cmp q p \<le> 0) qs))"
  unfolding HASH_REPLACE_INORDER_def Let_def
  by (rule replace_ok [OF assms]) (rule inorder_ok)

lemma elements_ordered:
  assumes "compares cmp" "ordered cmp qs"
  shows "ordered cmp (takeWhile (\<lambda>q. cmp q p \<le> 0) qs @ p # dropWhile (\<lambda>q. cmp q p \<le> 0) qs)"
  using assms(2)
proof (induction qs)
  case (Cons q qs)
  show ?case
  proof (cases "cmp q p \<le> 0")
    case True
    have "set (takeWhile (\<lambda>q. cmp q p \<le> 0) qs) \<union> set (dropWhile (\<lambda>q. cmp q p \<le> 0) qs) = set qs"
      by (metis set_append takeWhile_dropWhile_id)
    then have "\<forall>r \<in> set (takeWhile (\<lambda>q. cmp q p \<le> 0) qs) \<union> set (dropWhile (\<lambda>q. cmp q p \<le> 0) qs). cmp q r \<le> 0"
      using Cons.prems by simp
    with True Cons show ?thesis by auto
  next
    case False
    with Cons.prems compares_total [OF assms(1) False] show ?thesis
      by (auto intro: compares_trans [OF assms(1)])
  qed
qed simp

text \<open>An ordered insertion keeps the elements in order.\<close>

lemma hash_add_inorder:
  assumes "hash_ok h" "hash_map h key = None" "p \<notin> set (hash_elements h)"
    and "compares cmp" "ordered cmp (hash_elements h)" "HASH_ADD_INORDER os cmp h key p = Inr h'"
  shows "hash_ok h' \<and> hash_map h' = (hash_map h)(key \<mapsto> p) \<and> ordered cmp (hash_elements h')"
  using inorder_ok [OF assms(1-3), of os cmp] elements_ordered [OF assms(4,5), of p] assms(6) by auto

text \<open>C27: where a failed allocation is not fatal, the insertion of an element that is not in the table
  leaves the table exactly as it was, and says so, when the fatal build would abort for want of
  memory; otherwise it does what the fatal build does.\<close>

theorem hash_add_nonfatal:
  assumes "hash_ok h" "p \<notin> set (hash_elements h)"
  shows "HASH_ADD_nonfatal os h key p =
    (case HASH_ADD os h key p of
       Inl OutOfMemory \<Rightarrow> Inr (h, False) | Inl e \<Rightarrow> Inl e | Inr h' \<Rightarrow> Inr (h', True))"
  by (rule nonfatal_ok [OF assms])

definition starved_os :: "unit os" where
  "starved_os = demo_os\<lparr>os_malloc := (\<lambda>n. False)\<rparr>"

text \<open>A bucket of nine elements, which the tenth would have expanded.\<close>

definition full_bucket :: "u32 hash_table" where
  "full_bucket = one_bucket (map demo_handle [1, 2, 3, 4, 5, 6, 7, 8, 9])"

lemma full_bucket_ok: "hash_ok (Some full_bucket)" "hash_elements (Some full_bucket) = [1, 2, 3, 4, 5, 6, 7, 8, 9]"
proof -
  have "table_ok full_bucket"
    unfolding full_bucket_def by (intro one_bucket_ok) (simp_all add: demo_handle_def handle_ok_def)
  then show "hash_ok (Some full_bucket)" by (simp add: hash_ok_def)
  show "hash_elements (Some full_bucket) = [1, 2, 3, 4, 5, 6, 7, 8, 9]"
    by (simp add: hash_elements_def hash_order_def full_bucket_def one_bucket_def demo_handle_def)
qed

lemma hash_add_nonfatal_witness:
  "HASH_ADD_nonfatal starved_os (Some full_bucket) [10] 10 = Inr (Some full_bucket, False)"
proof -
  have "HASH_ADD starved_os (Some full_bucket) [10] 10 = Inl OutOfMemory"
    by (simp add: HASH_ADD_def HASH_APPEND_LIST_def HASH_ADD_TO_BKT_def HASH_TO_BKT_def bucket_at_def Let_def
        full_bucket_def one_bucket_def HASH_BKT_CAPACITY_THRESH_def HASH_EXPAND_BUCKETS_def starved_os_def)
  with hash_add_nonfatal [OF full_bucket_ok(1), of 10 starved_os "[10]"] show ?thesis
    by (simp add: full_bucket_ok(2))
qed

text \<open>Selecting into a new table restricts the map to the elements that satisfy the condition,
  or runs out of memory; the table's \<open>tail\<close> is left at its first element.\<close>

lemma hash_select:
  assumes "hash_ok src"
  shows "no_room os (HASH_SELECT os cond src None tail) \<or>
    (\<exists>dst tail'. HASH_SELECT os cond src None tail = Inr (dst, tail') \<and> hash_ok dst \<and>
       hash_map dst = restrict cond (hash_map src) \<and> (dst \<noteq> None \<longrightarrow> tail' = Some (hd (hash_elements dst))))"
  by (rule select_ok [OF assms])

lemma select_first:
  assumes "os_malloc os 64" "os_malloc os 512" "sel_dst s = None"
  shows "\<exists>s'. select_elt os x s = Inr s' \<and> sel_dst s' \<noteq> None"
proof -
  obtain t where t: "HASH_MAKE_TABLE os x = Inr t" "num_buckets t = 32" "hash_buckets t = replicate 32 empty_bucket"
    using assms by (simp add: HASH_MAKE_TABLE_def HASH_INITIAL_NUM_BUCKETS_def)
  have at: "bucket_at (replicate 32 empty_bucket) (HASH_TO_BKT v 32) = Inr empty_bucket" for v
    using bucket_index_less [of 32 v] by (simp add: bucket_at_def)
  have e: "hb_count empty_bucket = 0" "expand_mult empty_bucket = 0" by (simp_all add: empty_bucket_def)
  have le: "\<not> (10 :: u32) \<le> 1" by (simp add: word_le_nat_alt)
  show ?thesis
    by (simp add: select_elt_def assms(3) t HASH_ADD_TO_BKT_def at e le HASH_BKT_CAPACITY_THRESH_def Let_def)
qed

lemma hash_select_witness:
  "\<exists>dst. HASH_SELECT frugal_os (\<lambda>p. p = 1) (Some (one_bucket [demo_handle 2, demo_handle 1])) None None =
      Inr (dst, Some 1) \<and> HASH_FIND dst [1] = Inr (Some 1) \<and> HASH_FIND dst [2] = Inr None"
proof -
  let ?src = "Some (one_bucket [demo_handle 2, demo_handle 1])" and ?cond = "\<lambda>p :: u32. p = 1"
  have ok: "hash_ok ?src" using demo_table(1) by (simp add: hash_ok_def)
  note sel = hash_select [OF ok, of frugal_os ?cond None]
  have "HASH_SELECT frugal_os ?cond ?src None None =
      bindR (select_elt frugal_os (demo_handle 1) \<lparr>sel_dst = None, sel_tail = None, sel_last = None\<rparr>)
        (\<lambda>s. Inr (sel_dst s, sel_tail s))"
    by (simp add: HASH_SELECT_def one_bucket_def demo_handle_def bindR_assoc)
  with select_first [of frugal_os "\<lparr>sel_dst = None, sel_tail = None, sel_last = None\<rparr>" "demo_handle 1"] sel
  obtain dst tail' where dst: "HASH_SELECT frugal_os ?cond ?src None None = Inr (dst, tail')" "hash_ok dst"
    "hash_map dst = restrict ?cond (hash_map ?src)" "tail' = Some (hd (hash_elements dst))"
    by auto
  have "hash_map ?src = [[1] \<mapsto> 1, [2] \<mapsto> 2]"
    by (auto simp: hash_map_def hash_order_def one_bucket_def demo_handle_def fun_eq_iff)
  then have map: "hash_map dst = [[1] \<mapsto> 1]" by (auto simp: dst(3) restrict_def fun_eq_iff)
  then have find: "HASH_FIND dst [1] = Inr (Some 1)" "HASH_FIND dst [2] = Inr None"
    by (simp_all add: HASH_FIND_ok [OF dst(2)])
  have "hash_map dst [1] = Some 1" by (simp add: map)
  then have "hash_elements dst \<noteq> []" by (auto simp: hash_map_def hash_elements_def)
  moreover have "set (hash_elements dst) = ran (hash_map dst)"
    using hash_ok_order(1) [OF dst(2)]
    by (simp add: hash_map_def hash_elements_def ran_distinct comp_def image_image)
  ultimately have "hd (hash_elements dst) = 1" using hd_in_set [of "hash_elements dst"] by (simp add: map)
  with dst(1,4) find show ?thesis by simp
qed

end
