(* ===== verification/Sample_Daxpy.thy ===== *)
theory Sample_Daxpy
  imports Sample_Programs "HOL-Library.Log_Nat"
begin

text \<open>
  The guest program \<open>src/samples/daxpy.c\<close>. A \<open>float\<close> is a number of IEEE 754 binary32: a finite
  value is the rational it stands for, and every operation rounds its exact result to the nearest
  value, ties to even. Zeros are not told apart by their sign, which nothing here can observe.
  \<open>None\<close> is undefined behaviour, as in \<open>Sample_Programs\<close>.
\<close>

section \<open>Numbers of single precision\<close>

datatype f32 = Fin rat | Inf bool | NaN

definition round_even :: "rat \<Rightarrow> int" where
  "round_even r =
     (let n = \<lfloor>r\<rfloor>; d = r - of_int n in if d < 1 / 2 \<or> d = 1 / 2 \<and> even n then n else n + 1)"

text \<open>The exponent of the leading bit of a positive rational, and that of the last bit kept: a
  significand has 24 bits, and the subnormal values are the multiples of \<open>2 powi - 149\<close>.\<close>

definition leading_exp :: "rat \<Rightarrow> int" where
  "leading_exp r =
     (case quotient_of r of (p, q) \<Rightarrow>
        let k = bitlen p - bitlen q in if 2 powi k \<le> r then k else k - 1)"

definition last_exp :: "rat \<Rightarrow> int" where
  "last_exp r = max (leading_exp \<bar>r\<bar> - 23) (- 149)"

definition round32 :: "rat \<Rightarrow> f32" where
  "round32 r =
     (if r = 0 then Fin 0
      else let e = last_exp r; y = of_int (round_even (r * 2 powi (- e))) * 2 powi e
           in if \<bar>y\<bar> \<ge> 2 ^ 128 then Inf (y < 0) else Fin y)"

fun negative32 :: "f32 \<Rightarrow> bool" where
  "negative32 (Fin a) \<longleftrightarrow> a < 0"
| "negative32 (Inf s) \<longleftrightarrow> s"
| "negative32 NaN \<longleftrightarrow> False"

fun add32 :: "f32 \<Rightarrow> f32 \<Rightarrow> f32" where
  "add32 (Fin a) (Fin b) = round32 (a + b)"
| "add32 (Inf s) (Inf t) = (if s = t then Inf s else NaN)"
| "add32 (Inf s) (Fin b) = Inf s"
| "add32 (Fin a) (Inf t) = Inf t"
| "add32 _ _ = NaN"

definition mul32 :: "f32 \<Rightarrow> f32 \<Rightarrow> f32" where
  "mul32 x y =
     (case (x, y) of
        (Fin a, Fin b) \<Rightarrow> round32 (a * b)
      | _ \<Rightarrow> if x = NaN \<or> y = NaN \<or> x = Fin 0 \<or> y = Fin 0 then NaN
             else Inf (negative32 x \<noteq> negative32 y))"

text \<open>\<open>!=\<close> on floats, and the conversion of an integer.\<close>

definition neq32 :: "f32 \<Rightarrow> f32 \<Rightarrow> bool" where
  "neq32 x y \<longleftrightarrow> x \<noteq> y \<or> x = NaN"

definition float_of_int :: "int \<Rightarrow> f32" where
  "float_of_int z = round32 (of_int z)"

text \<open>The rounding is to the nearest: by at most half a unit in the last place kept.\<close>

lemma round_even_near: "\<bar>of_int (round_even r) - r\<bar> \<le> 1 / 2"
proof -
  have "of_int \<lfloor>r\<rfloor> \<le> r" "r < of_int \<lfloor>r\<rfloor> + 1" by linarith+
  then show ?thesis by (auto simp: round_even_def Let_def)
qed

lemma round32_near:
  assumes "round32 r = Fin y"
  shows "\<bar>y - r\<bar> \<le> 2 powi last_exp r / 2"
proof (cases "r = 0")
  case False
  let ?e = "2 powi last_exp r :: rat"
  let ?n = "of_int (round_even (r * 2 powi (- last_exp r))) :: rat"
  have "0 < ?e" by simp
  have "y = ?n * ?e" using assms False by (simp add: round32_def Let_def split: if_splits)
  moreover have "r = r * 2 powi (- last_exp r) * ?e" by (simp add: power_int_minus)
  ultimately have "y - r = (?n - r * 2 powi (- last_exp r)) * ?e" by (simp add: left_diff_distrib)
  then have "\<bar>y - r\<bar> = \<bar>?n - r * 2 powi (- last_exp r)\<bar> * ?e"
    using \<open>0 < ?e\<close> by (simp add: abs_mult)
  also have "\<dots> \<le> 1 / 2 * ?e" using round_even_near \<open>0 < ?e\<close> by (intro mult_right_mono) auto
  finally show ?thesis by simp
qed (use assms in \<open>simp add: round32_def\<close>)

section \<open>The program\<close>

definition in_array :: "'a list \<Rightarrow> int \<Rightarrow> nat option" where
  "in_array xs i = (if 0 \<le> i \<and> i < int (length xs) then Some (nat i) else None)"

text \<open>The assignment in the loop: two products of indices, a read of \<open>X\<close>, an update of \<open>Y\<close>.\<close>

definition axpy_body :: "f32 \<Rightarrow> f32 list \<Rightarrow> int \<Rightarrow> int \<Rightarrow> int \<Rightarrow> f32 list \<Rightarrow> f32 list option" where
  "axpy_body A X inc_X inc_Y i Y =
     (case (Option.bind (cint (i * inc_X)) (in_array X), Option.bind (cint (i * inc_Y)) (in_array Y)) of
        (Some j, Some k) \<Rightarrow> Some (Y[k := add32 (Y ! k) (mul32 A (X ! j))])
      | _ \<Rightarrow> None)"

function axpy_loop :: "int \<Rightarrow> f32 \<Rightarrow> f32 list \<Rightarrow> int \<Rightarrow> int \<Rightarrow> int \<Rightarrow> f32 list \<Rightarrow> f32 list option" where
  "axpy_loop N A X inc_X inc_Y i Y =
     (if i < N then Option.bind (axpy_body A X inc_X inc_Y i Y) (axpy_loop N A X inc_X inc_Y (i + 1))
      else Some Y)"
  by pat_completeness auto
termination
  by (relation "measure (\<lambda>(N, A, X, inc_X, inc_Y, i, Y). nat (N - i))") auto

declare axpy_loop.simps [simp del]

definition AXPY :: "int \<Rightarrow> f32 \<Rightarrow> f32 list \<Rightarrow> int \<Rightarrow> f32 list \<Rightarrow> int \<Rightarrow> f32 list option" where
  "AXPY N A X inc_X Y inc_Y = axpy_loop N A X inc_X inc_Y 0 Y"

text \<open>An initialised array: the elements that the initialiser does not give are zero.\<close>

definition array_init :: "nat \<Rightarrow> int list \<Rightarrow> f32 list" where
  "array_init n zs = map float_of_int zs @ replicate (n - length zs) (Fin 0)"

fun differs :: "f32 list \<Rightarrow> f32 list \<Rightarrow> bool" where
  "differs (y # ys) (e # es) \<longleftrightarrow> neq32 y e \<or> differs ys es"
| "differs _ _ \<longleftrightarrow> False"

definition axpy_main :: "nat \<Rightarrow> int list \<Rightarrow> int list \<Rightarrow> int list \<Rightarrow> (int \<times> string) option" where
  "axpy_main n xs ys es =
     (case AXPY (int n) (float_of_int 10) (array_init n xs) 1 (array_init n ys) 1 of
        None \<Rightarrow> None
      | Some Y \<Rightarrow>
          let result = (if differs Y (array_init n es) then 1 else 0)
          in Some (result, if result \<noteq> 0 then ''FAILED: AXPY'' @ [CHR 0x0A] else ''PASSED: AXPY'' @ [CHR 0x0A]))"

text \<open>The program's data; \<open>_N\<close> is 128, one more than the values given.\<close>

definition axpy_N :: nat where "axpy_N = 128"

definition axpy_X :: "int list" where
  "axpy_X =
    [5196, 4782, 9279, 618, 2646, 1766, 1140, 3844, 7914, 5553, 6120, 8625, 3289, 8004, 4669,
     2000, 1915, 5010, 2144, 6315, 936, 6761, 4904, 8674, 4955, 2842, 4662, 3897, 5175, 7227,
     933, 8936, 9733, 6536, 9698, 9819, 2017, 7883, 629, 6023, 491, 5985, 7029, 8091, 9893,
     8646, 4777, 781, 8275, 797, 6882, 3175, 224, 6636, 4325, 6709, 458, 2011, 2661, 4216,
     1242, 9462, 1711, 5548, 1970, 9820, 2443, 4774, 2201, 9866, 144, 3815, 1835, 5333, 8592,
     6024, 9115, 3037, 9455, 439, 8492, 2648, 4800, 1202, 4443, 1783, 2642, 8536, 6648, 3014,
     402, 1185, 2960, 1069, 451, 6044, 1083, 2592, 1107, 9628, 6571, 3144, 2156, 9437, 292,
     2625, 7341, 2908, 6604, 7051, 1043, 5674, 9096, 2418, 3319, 8371, 9180, 902, 1060, 4130,
     3757, 6497, 3388, 1149, 2056, 3895, 8392]"

definition axpy_Y :: "int list" where
  "axpy_Y =
    [3447, 9179, 7755, 4082, 3106, 5044, 6243, 3561, 3641, 983, 287, 60, 137, 3110, 2971, 8044,
     3751, 8047, 5276, 3009, 3521, 8529, 8334, 5538, 30, 7060, 7319, 6979, 7338, 9786, 8596,
     4882, 9623, 3876, 8938, 2387, 8758, 829, 1713, 101, 3248, 6229, 9242, 8880, 7082, 2832,
     4209, 9756, 1821, 7729, 3988, 7129, 6893, 8358, 1044, 5737, 3987, 7741, 4783, 6643, 7446,
     3715, 4946, 5711, 463, 5891, 1219, 5548, 2944, 6502, 6758, 5827, 2772, 5467, 4767, 5818,
     121, 9573, 522, 8242, 2281, 9396, 9929, 3344, 4414, 989, 2021, 6024, 6076, 8455, 1955,
     3323, 472, 4662, 3318, 5434, 8884, 3977, 2977, 9903, 4638, 7787, 2560, 9679, 8782, 7690,
     5516, 5112, 3621, 6518, 6229, 4829, 5282, 4852, 7471, 3864, 649, 8406, 7520, 8246, 2362,
     1705, 5806, 6330, 8817, 9034, 3261]"

definition axpy_EXPECTED :: "int list" where
  "axpy_EXPECTED =
    [55407, 56999, 100545, 10262, 29566, 22704, 17643, 42001, 82781, 56513, 61487, 86310, 33027,
     83150, 49661, 28044, 22901, 58147, 26716, 66159, 12881, 76139, 57374, 92278, 49580, 35480,
     53939, 45949, 59088, 82056, 17926, 94242, 106953, 69236, 105918, 100577, 28928, 79659,
     8003, 60331, 8158, 66079, 79532, 89790, 106012, 89292, 51979, 17566, 84571, 15699, 72808,
     38879, 9133, 74718, 44294, 72827, 8567, 27851, 31393, 48803, 19866, 98335, 22056, 61191,
     20163, 104091, 25649, 53288, 24954, 105162, 8198, 43977, 21122, 58797, 90687, 66058,
     91271, 39943, 95072, 12632, 87201, 35876, 57929, 15364, 48844, 18819, 28441, 91384, 72556,
     38595, 5975, 15173, 30072, 15352, 7828, 65874, 19714, 29897, 14047, 106183, 70348, 39227,
     24120, 104049, 11702, 33940, 78926, 34192, 69661, 77028, 16659, 61569, 96242, 29032,
     40661, 87574, 92449, 17426, 18120, 49546, 39932, 66675, 39686, 17820, 29377, 47984, 87181]"

section \<open>Exactness on small integers\<close>

lemma round_even_int [simp]: "round_even (of_int z) = z"
  by (simp add: round_even_def)

lemma leading_exp_int:
  assumes "z \<noteq> 0" "\<bar>z\<bar> < 2 ^ 24"
  shows "leading_exp \<bar>of_int z\<bar> \<le> 23"
proof -
  have "quotient_of \<bar>of_int z\<bar> = (\<bar>z\<bar>, 1)"
    by (metis of_int_abs quotient_of_int Rat.of_int_def)
  moreover have "bitlen \<bar>z\<bar> \<le> 24" using assms(2) by (simp add: bitlen_le_iff_power)
  moreover have "bitlen 1 = 1" using bitlen_twopow_add_eq [of 0 0] by simp
  ultimately show ?thesis by (auto simp: leading_exp_def Let_def)
qed

lemma float_of_int_exact:
  assumes "\<bar>z\<bar> < 2 ^ 24"
  shows "round32 (of_int z) = Fin (of_int z)"
proof (cases "z = 0")
  case False
  define e where "e = last_exp (of_int z)"
  have "e \<le> 0" using leading_exp_int [OF False assms] by (simp add: e_def last_exp_def)
  then have "(2 :: rat) powi (- e) = of_int (2 ^ nat (- e))" by (simp add: power_int_def)
  then have "round_even (of_int z * 2 powi (- e)) = z * 2 ^ nat (- e)"
    by (metis of_int_mult round_even_int)
  moreover have "(2 :: rat) ^ nat (- e) * 2 powi e = 1"
    using \<open>e \<le> 0\<close> by (simp add: power_int_def power_one_over)
  moreover have "\<bar>of_int z\<bar> < (2 :: rat) ^ 128"
  proof -
    have "\<bar>z\<bar> < 2 ^ 128" using assms by simp
    then have "of_int \<bar>z\<bar> < (of_int (2 ^ 128) :: rat)" by (simp only: of_int_less_iff)
    then show ?thesis by simp
  qed
  ultimately show ?thesis using False by (simp add: round32_def Let_def e_def [symmetric] mult.assoc)
qed (simp add: round32_def)


lemma float_of_int_Fin: "\<bar>z\<bar> < 2 ^ 24 \<Longrightarrow> float_of_int z = Fin (of_int z)"
  by (simp add: float_of_int_def float_of_int_exact)

lemma mul_add_exact:
  assumes "\<bar>a\<bar> < 2 ^ 24" "\<bar>x\<bar> < 2 ^ 24" "\<bar>y\<bar> < 2 ^ 24" "\<bar>a * x\<bar> < 2 ^ 24" "\<bar>y + a * x\<bar> < 2 ^ 24"
  shows "add32 (float_of_int y) (mul32 (float_of_int a) (float_of_int x)) = float_of_int (y + a * x)"
  using float_of_int_exact [OF assms(4)] float_of_int_exact [OF assms(5)]
  by (simp add: assms [THEN float_of_int_Fin] mul32_def)

text \<open>Beyond 24 bits an addition can be lost: the bound is needed.\<close>

lemma add_inexact: "add32 (float_of_int (2 ^ 24)) (float_of_int 1) = float_of_int (2 ^ 24)"
  by code_simp

section \<open>The loop\<close>

text \<open>What the loop leaves at an index from iteration \<open>i\<close> on.\<close>

lemma axpy_loop_effect:
  assumes "0 \<le> inc_X" "0 < inc_Y" "(N - 1) * inc_X < int (length X)" "length X < 2 ^ 31"
    and "length Y < 2 ^ 31"
  shows "0 \<le> i \<Longrightarrow> (N - 1) * inc_Y < int (length Z) \<Longrightarrow> length Z = length Y \<Longrightarrow>
    \<exists>Z'. axpy_loop N A X inc_X inc_Y i Z = Some Z' \<and> length Z' = length Z \<and>
      (\<forall>j < length Z. Z' ! j =
         (if inc_Y dvd int j \<and> i \<le> int j div inc_Y \<and> int j div inc_Y < N
          then add32 (Z ! j) (mul32 A (X ! nat (int j div inc_Y * inc_X))) else Z ! j))"
proof (induction "nat (N - i)" arbitrary: i Z rule: less_induct)
  case less
  show ?case
  proof (cases "i < N")
    case True
    define k where "k = nat (i * inc_Y)"
    have x: "0 \<le> i * inc_X" "i * inc_X \<le> (N - 1) * inc_X"
      using less.prems(1) True assms(1) by (simp_all add: mult_right_mono)
    have y: "0 \<le> i * inc_Y" "i * inc_Y \<le> (N - 1) * inc_Y"
      using less.prems(1) True assms(2) by (simp_all add: mult_right_mono)
    define Z1 where "Z1 = Z[k := add32 (Z ! k) (mul32 A (X ! nat (i * inc_X)))]"
    have body: "axpy_body A X inc_X inc_Y i Z = Some Z1"
      using x y assms(3-5) less.prems(2,3)
      by (simp add: axpy_body_def in_array_def cint_def Z1_def k_def)
    have "nat (N - (i + 1)) < nat (N - i)" using True by simp
    from less.hyps [OF this, of Z1] less.prems obtain Z' where
      Z': "axpy_loop N A X inc_X inc_Y (i + 1) Z1 = Some Z'" "length Z' = length Z"
      "\<forall>j < length Z. Z' ! j =
         (if inc_Y dvd int j \<and> i + 1 \<le> int j div inc_Y \<and> int j div inc_Y < N
          then add32 (Z1 ! j) (mul32 A (X ! nat (int j div inc_Y * inc_X))) else Z1 ! j)"
      by (auto simp: Z1_def)
    have here: "inc_Y dvd int j \<and> int j div inc_Y = i \<longleftrightarrow> j = k" for j
      using y(1) assms(2) by (auto simp: k_def)
    have "Z' ! j = (if inc_Y dvd int j \<and> i \<le> int j div inc_Y \<and> int j div inc_Y < N
        then add32 (Z ! j) (mul32 A (X ! nat (int j div inc_Y * inc_X))) else Z ! j)"
      if "j < length Z" for j
    proof (cases "j = k")
      case True
      with here [of j] \<open>i < N\<close> Z'(3) that show ?thesis by (auto simp: Z1_def)
    next
      case False
      with here [of j] Z'(3) that show ?thesis by (auto simp: Z1_def)
    qed
    with Z'(1,2) body True show ?thesis by (subst axpy_loop.simps) auto
  qed (subst axpy_loop.simps; auto)
qed

text \<open>\<open>AXPY\<close> with strides: it stays within the arrays, and changes exactly the elements of \<open>Y\<close> at
  the first \<open>N\<close> multiples of the stride.\<close>

lemma axpy_strided:
  assumes "0 \<le> inc_X" "0 < inc_Y" "(N - 1) * inc_X < int (length X)" "(N - 1) * inc_Y < int (length Y)"
    and "length X < 2 ^ 31" "length Y < 2 ^ 31"
  shows "\<exists>Z. AXPY N A X inc_X Y inc_Y = Some Z \<and> length Z = length Y \<and>
      (\<forall>j < length Y. Z ! j =
         (if inc_Y dvd int j \<and> int j div inc_Y < N
          then add32 (Y ! j) (mul32 A (X ! nat (int j div inc_Y * inc_X))) else Y ! j))"
proof -
  have "0 \<le> int j div inc_Y" for j using assms(2) by (simp add: pos_imp_zdiv_nonneg_iff)
  with axpy_loop_effect [OF assms(1-3) assms(5,6), of 0 Y A] assms(4) show ?thesis
    by (simp add: AXPY_def)
qed

lemma axpy_unit:
  assumes "length X = n" "length Y = n" "n < 2 ^ 31"
  shows "AXPY (int n) A X 1 Y 1 = Some (map2 (\<lambda>x y. add32 y (mul32 A x)) X Y)"
proof -
  from axpy_strided [of 1 1 "int n" X Y A] assms obtain Z where
    "AXPY (int n) A X 1 Y 1 = Some Z" "length Z = n"
    "\<forall>j < n. Z ! j = add32 (Y ! j) (mul32 A (X ! j))"
    by auto
  then show ?thesis using assms by (auto intro!: nth_equalityI)
qed

lemma axpy_negative_stride: "AXPY 2 A [x] 1 [y] (- 1) = None"
  by (simp add: AXPY_def axpy_loop.simps axpy_body_def in_array_def cint_def)

section \<open>The outcome\<close>

lemma neq32_ints: "\<bar>z\<bar> < 2 ^ 24 \<Longrightarrow> \<bar>e\<bar> < 2 ^ 24 \<Longrightarrow> neq32 (float_of_int z) (float_of_int e) \<longleftrightarrow> z \<noteq> e"
  by (simp add: neq32_def float_of_int_Fin)

lemma differs_append:
  "length ys = length es \<Longrightarrow> differs (ys @ ys') (es @ es') \<longleftrightarrow> differs ys es \<or> differs ys' es'"
  by (induction ys es rule: list_induct2) auto

lemma differs_replicate: "\<not> neq32 z z \<Longrightarrow> \<not> differs (replicate m z) (replicate m z)"
  by (induction m) auto

lemma differs_ints:
  assumes "length zs = length es" "list_all (\<lambda>z. \<bar>z\<bar> < 2 ^ 24) zs" "list_all (\<lambda>z. \<bar>z\<bar> < 2 ^ 24) es"
  shows "differs (map float_of_int zs) (map float_of_int es) \<longleftrightarrow> zs \<noteq> es"
  using assms by (induction zs es rule: list_induct2) (auto simp: neq32_ints)

definition small_data :: "nat \<Rightarrow> int list \<Rightarrow> int list \<Rightarrow> bool" where
  "small_data n xs ys \<longleftrightarrow> length xs \<le> n \<and> length ys = length xs \<and> n < 2 ^ 31 \<and>
     list_all2 (\<lambda>x y. \<bar>10 * x\<bar> < 2 ^ 24 \<and> \<bar>y\<bar> < 2 ^ 24 \<and> \<bar>y + 10 * x\<bar> < 2 ^ 24) xs ys"

lemma float_zero: "Fin 0 = float_of_int 0"
  by (simp add: float_of_int_def round32_def)

lemma array_init_alt: "array_init n zs = map float_of_int (zs @ replicate (n - length zs) 0)"
  by (simp add: array_init_def float_zero)

text \<open>On data small enough for single precision the program compares with the exact results.\<close>

lemma axpy_main_exact:
  assumes "small_data n xs ys" "length es = length xs"
    and "list_all (\<lambda>e. \<bar>e\<bar> < 2 ^ 24) es"
  shows "axpy_main n xs ys es =
    Some (if es = map2 (\<lambda>x y. y + 10 * x) xs ys then (0, ''PASSED: AXPY'' @ [CHR 0x0A])
          else (1, ''FAILED: AXPY'' @ [CHR 0x0A]))"
proof -
  define zs where "zs = map2 (\<lambda>x y. y + 10 * x) xs ys"
  define m where "m = n - length xs"
  have len: "length xs + m = n" "length ys = length xs" "length zs = length xs" "length xs \<le> n" "n < 2 ^ 31"
    using assms(1) by (simp_all add: small_data_def zs_def m_def)
  have "add32 (float_of_int y) (mul32 (float_of_int 10) (float_of_int x)) = float_of_int (y + 10 * x)"
    if "(x, y) \<in> set (zip xs ys)" for x y
  proof -
    have "\<bar>10 * x\<bar> < 2 ^ 24" "\<bar>y\<bar> < 2 ^ 24" "\<bar>y + 10 * x\<bar> < 2 ^ 24"
      using that assms(1) by (auto simp: small_data_def list_all2_iff)
    then show ?thesis by (intro mul_add_exact) simp_all
  qed
  then have "map2 (\<lambda>x y. add32 y (mul32 (float_of_int 10) x)) (map float_of_int xs) (map float_of_int ys) =
      map float_of_int zs"
    by (auto simp: zs_def zip_map1 zip_map2)
  moreover have "add32 (float_of_int 0) (mul32 (float_of_int 10) (float_of_int 0)) = float_of_int 0"
    using mul_add_exact [of 10 0 0] by simp
  ultimately have Y: "AXPY (int n) (float_of_int 10) (array_init n xs) 1 (array_init n ys) 1 =
      Some (array_init n zs)"
    using axpy_unit [of "array_init n xs" n "array_init n ys" "float_of_int 10"] len
    by (simp add: array_init_alt m_def [symmetric] zip_replicate)
  have "list_all (\<lambda>z. \<bar>z\<bar> < 2 ^ 24) zs"
    using assms(1) by (auto simp: small_data_def zs_def list_all2_iff list_all_iff)
  then have "differs (array_init n zs) (array_init n es) \<longleftrightarrow> zs \<noteq> es"
    using len assms(2,3)
    by (simp add: array_init_alt differs_append differs_ints differs_replicate neq32_ints)
  with Y show ?thesis by (auto simp: axpy_main_def zs_def)
qed

text \<open>The program with its own data passes.\<close>

lemma daxpy_passes: "axpy_main axpy_N axpy_X axpy_Y axpy_EXPECTED = Some (0, ''PASSED: AXPY'' @ [CHR 0x0A])"
proof -
  have len: "length axpy_X = 127" "length axpy_Y = 127" "length axpy_EXPECTED = 127"
    by (simp_all add: axpy_X_def axpy_Y_def axpy_EXPECTED_def)
  have "list_all2 (\<lambda>x y. \<bar>10 * x\<bar> < 2 ^ 24 \<and> \<bar>y\<bar> < 2 ^ 24 \<and> \<bar>y + 10 * x\<bar> < 2 ^ 24) axpy_X axpy_Y"
    by (simp add: axpy_X_def axpy_Y_def)
  then have "small_data axpy_N axpy_X axpy_Y"
    by (simp add: small_data_def axpy_N_def len)
  moreover have "list_all (\<lambda>e. \<bar>e\<bar> < 2 ^ 24) axpy_EXPECTED"
    by (simp add: axpy_EXPECTED_def)
  moreover have "axpy_EXPECTED = map2 (\<lambda>x y. y + 10 * x) axpy_X axpy_Y"
    by (simp add: axpy_X_def axpy_Y_def axpy_EXPECTED_def)
  ultimately show ?thesis by (simp add: axpy_main_exact len)
qed

end
