(* ===== verification/Spec2Isabelle.thy ===== *)
theory Spec2Isabelle
  imports Memory_Spec Instruction_Spec Syscall_Spec Interpreter_Spec Blocked_Spec Decode_Termination
    Hash_Spec Blocked_Listing Loader_Spec Emulator_Spec Profile_Spec Sample_Crc Sample_Programs
    Load_Delay_Spec Hash_Functions Hash_More_Spec Sample_Daxpy
begin

text \<open>
  A model of the MIPS32 user-mode emulator and its interpreters (C sources under \<open>src/\<close>), and
  the theorems that make it correct.

  The program. A static MIPS ELF executable is loaded into a paged guest memory and run by one of
  four interpreters, which share the processor state, the memory, the instruction bodies (macros)
  and the Linux system calls, and differ only in how they get from one instruction to the next: a
  \<open>switch\<close> in a loop, computed \<open>goto\<close>, mutual tail calls, and cached, chained basic blocks
  with delayed branches.

  The model, in the order of the imports.
  \<^item> \<open>Prelude\<close>: integer types of \<open>src/common.h\<close>; the faults, that is the ways the host process
    ends abnormally; the error monad \<open>bindR\<close>; little-endian words.
  \<^item> \<open>Byte_Store\<close>: the interface between memory and its clients, a locale; \<open>Memory\<close>,
    \<open>Memory_Ops\<close>, \<open>Memory_Copy\<close>: \<open>src/memory.h\<close> and \<open>src/memory.c\<close>. The page tables are
    partial maps, \<open>NULL\<close> is \<open>None\<close>; \<open>byte_at\<close> and \<open>mapped\<close> are the flat view that the
    interpretation \<open>paged\<close> shows them to provide. \<open>calloc\<close> is a parameter.
  \<^item> \<open>Cpu\<close>: fields, opcodes, registers and \<open>struct mips\<close>; \<open>Machine\<close>: processor, memory and
    host state together, with the host's calls as the functions of the record \<open>os\<close>;
    \<open>Syscalls\<close>: \<open>src/syscalls.h\<close>, one definition per handler; \<open>Instructions\<close>: the macros of
    \<open>src/instructions.h\<close>, the operand macro \<open>ITP_TYPE_x\<close> passing the locals to the body
    \<open>ITP_y_IMPL\<close>; \<open>Decode\<close>: the instruction lists of \<open>src/mips.h\<close>. The lists are modelled
    as the datatype \<open>mnemonic\<close> and \<open>interpret_instr\<close>, the function every interpreter expands
    them to.
  \<^item> \<open>Switch\<close>, \<open>Dispatch_Table\<close>, \<open>Computed_Goto\<close>, \<open>Tail_Call\<close>, \<open>Blocked\<close>: the interpreters. A
    run takes fuel, the number of instructions (blocks, for \<open>Blocked\<close>) it may execute, and is
    \<open>None\<close> when it needs more; guest programs need not halt, so no bound is assumed, and a result
    does not depend on the fuel. \<open>fetch_execute\<close> is the locale that the switch and the
    computed goto interpret.
  \<^item> \<open>Frame\<close>: what instructions leave alone, through the locale \<open>inert\<close>;
    \<open>Blocked_Decode\<close>, \<open>Blocked_Exec\<close>, \<open>Blocked_Simulation\<close>, \<open>Blocked_Chain\<close>: the shape of
    decoded blocks, the unrolled loop, a block as steps of the switch, the invariant of the
    block table, and the simulation of a whole run in both directions;
    \<open>Decode_Termination\<close>: the fuel of the decoder is enough.
  \<^item> \<open>Hash_Table\<close>: the part of \<open>src/uthash.h\<close> that \<open>src/blocked.c\<close> expands, with its hash
    function, chains and bucket expansion; \<open>Hash_Table_Ok\<close>: its invariant, and its operations
    as those of a partial map; \<open>Blocked_Hash\<close>: the interpreter on that table, through the
    locale \<open>keyed_table\<close> of tables that find what was added. \<open>Blocked\<close> itself keeps the
    blocks in a partial map from addresses; \<open>Hash_Spec\<close> proves the two equal.
  \<^item> \<open>Hash_Sort\<close>, \<open>Hash_Check\<close>: the merge sort and the integrity check of \<open>src/uthash.h\<close> on the
    links in memory, \<open>Hash_Sort_Ok\<close> the refinement of the first to a sort of lists;
    \<open>Hash_More\<close>, \<open>Hash_Functions\<close>: its other operations, hash functions and Bloom filter.
  \<^item> \<open>Load_Delay\<close>: the build of the switch with \<open>LOAD_DELAY_ENABLE\<close>, in which a load leaves its
    value pending; \<open>Load_Delay_Spec\<close> relates it to the default build by the settled machine.
  \<^item> \<open>Disassembly\<close>, \<open>Listing\<close>, \<open>Blocked_Listing\<close>: the build with \<open>__DISASSEMBLE__\<close>, the
    formatters of \<open>src/instructions.h\<close> as functions to strings and the interpreters that
    print; \<open>Blocked_Output\<close> has the unrolled loop and the loops over the blocks of the builds with
    an output, in which a run that faults keeps what it has output before.
  \<^item> \<open>Instrumentation\<close>, \<open>Profile\<close>: the build with \<open>__PROFILE__\<close>, whose hooks (\<open>src/benchmark.c\<close>)
    bracket the instructions' bodies and the interpreter (the release of the blocks included), and
    the tool of \<open>src/pintool\<close> that counts the host's instructions by them. The compiled code and the instrumentation framework
    are parameters.
  \<^item> \<open>Loader\<close>: \<open>src/loader.c\<close> and \<open>src/loader.h\<close>, the headers, segments, entry point, global
    pointer and initial stack, with the executable as a list of bytes and the contents of fresh
    \<open>malloc\<close>ed memory as the parameter \<open>fresh\<close>; \<open>Programs\<close>: the four \<open>main\<close> functions, from
    the executable to the exit status.
  \<^item> \<open>Sample_Crc\<close>, \<open>Sample_Programs\<close>, \<open>Sample_Daxpy\<close>: the guest programs of
    \<open>src/samples\<close>, the last with floats as rationals rounded to single precision.

  The properties are in \<open>Memory_Spec\<close>, \<open>Instruction_Spec\<close>, \<open>Syscall_Spec\<close>, \<open>Interpreter_Spec\<close>,
  \<open>Blocked_Spec\<close>, \<open>Decode_Termination\<close>, \<open>Hash_Spec\<close>, \<open>Hash_Sort_Spec\<close>, \<open>Hash_More_Spec\<close>,
  \<open>Load_Delay_Spec\<close>, \<open>Listing_Spec\<close>, \<open>Blocked_Listing\<close>, \<open>Loader_Spec\<close>, \<open>Emulator_Spec\<close>
  (the block-caching emulator as a whole), \<open>Profile_Spec\<close>, the theories of the samples and below;
  \<open>Examples\<close> holds the concrete machines of the witnesses. Fuel inside the model:
  \<open>DECODE_FUEL\<close> (\<open>2 ^ 30 + 2\<close>) bounds the instructions of a block, and \<open>name_length\<close> gets
  \<open>2 ^ 32\<close>; both are proved to be enough (in \<open>Decode_Termination\<close> and \<open>Syscall_Spec\<close>): the
  fault \<open>Diverges\<close> that stands for exhausting them arises only where the loop of the code never ends.

  Not modelled: the load-delay build of the other three interpreters, logging (compiled out), the
  output of the instrumentation tool's counts, the measurement scripts and the build; the test
  suite, which uses functions that the sources no longer have; \<open>malloc\<close> and \<open>qsort\<close> of the guest's
  C library. Of the vendored \<open>src/uthash.h\<close> the variants for compilers without \<open>typeof\<close>, and, but for the insertion, the build in which failed allocations are not fatal.
  The C stack is not visible. Whether an allocation succeeds depends on its size alone; the
  expansion of a table of \<open>2 ^ 31\<close> buckets, should 64 GiB be granted, is the fault \<open>UndefinedShift\<close>.
\<close>

section \<open>One decoding\<close>

text \<open>C12: the switch, the computed-goto labels, the tail-call handlers and the block decoder select
  the same instruction for every word.\<close>

theorem decoders_agree:
  "(goto_dispatch cir = Inr i \<longleftrightarrow> switch_decode pc cir = Inr i) \<and>
   (tail_dispatch cir = Inr i \<longleftrightarrow> switch_decode pc cir = Inr i) \<and>
   (block_dispatch cir = Inr i \<longleftrightarrow> switch_decode pc cir = Inr i)"
  using goto_dispatch_agrees [of cir pc] tail_dispatch_agrees [of cir pc] block_dispatch_agrees [of cir pc]
  by (auto simp: same_outcome_def split: sum.splits)

section \<open>The emulators\<close>


text \<open>The exit status of the block-caching emulator is 0 whenever it runs a program, whatever
  status the program exits with.\<close>

lemma blocked_main_status:
  "case blocked_main os fresh fuel argc file h of
     Some (Inr (c, h')) \<Rightarrow> c = (if argc = 2 then 0 else 1)
   | _ \<Rightarrow> True"
  by (simp add: blocked_main_def split: option.splits sum.splits)

end
